(* ===== verification/Prelude.thy ===== *)
theory Prelude
  imports Main "HOL-Library.Word"
begin

unbundle bit_operations_syntax

text \<open>
  Shared vocabulary of the development: the fixed-width integers of the C++ sources, results
  that record undefined behaviour as a value, little-endian byte strings, byte ranges of a
  memory, the interrupt-line trace, and the interface (\<open>port_device\<close>) that every emulated
  device of \<open>frontend/\<close> implements towards the exit loop of \<open>kvm.cpp\<close>.
\<close>

section \<open>Machine integers and outcomes\<close>

type_synonym u8 = "8 word"
type_synonym u16 = "16 word"
type_synonym u32 = "32 word"
type_synonym u64 = "64 word"

text \<open>\<open>typedef uint16_t io_addr\<close> of \<open>frontend/IODevice.h\<close>.\<close>

type_synonym io_addr = u16

text \<open>
  What C++ leaves undefined at the places where the sources rely on the environment: a null
  dereference, an access outside an array or an object, a signed overflow.
\<close>

datatype fault = NullDeref | OutOfBounds | SignedOverflow

type_synonym 'a res = "fault + 'a"

text \<open>Sequencing stops at the first error, whatever the type of errors.\<close>

definition bind_res :: "'e + 'a \<Rightarrow> ('a \<Rightarrow> 'e + 'b) \<Rightarrow> 'e + 'b" where
  "bind_res m f = (case m of Inl e \<Rightarrow> Inl e | Inr x \<Rightarrow> f x)"

lemma bind_res_simps [simp]:
  "bind_res (Inl e) f = Inl e"
  "bind_res (Inr x) f = f x"
  by (simp_all add: bind_res_def)

lemma bind_res_eq_Inr [simp]:
  "bind_res m f = Inr y \<longleftrightarrow> (\<exists>x. m = Inr x \<and> f x = Inr y)"
  by (cases m) simp_all

lemma bind_res_eq_Inl:
  "bind_res m f = Inl e \<longleftrightarrow> m = Inl e \<or> (\<exists>x. m = Inr x \<and> f x = Inl e)"
  by (cases m) simp_all

text \<open>
  A run of operations that return a new state, values for the guest and interrupt calls:
  outputs accumulate in order and the first fault ends the run.
\<close>

definition then_run ::
  "('d \<times> 'v list \<times> 'e list) res \<Rightarrow> ('d \<Rightarrow> ('d \<times> 'v list \<times> 'e list) res) \<Rightarrow>
   ('d \<times> 'v list \<times> 'e list) res" where
  "then_run m k =
     (case m of Inl e \<Rightarrow> Inl e
      | Inr (d, vs, es) \<Rightarrow>
          (case k d of Inl e \<Rightarrow> Inl e | Inr (d', vs', es') \<Rightarrow> Inr (d', vs @ vs', es @ es')))"

lemma then_run_simps [simp]:
  "then_run (Inl e) k = Inl e"
  "then_run (Inr (d, [], [])) k = k d"
  by (auto simp: then_run_def split: sum.splits prod.splits)

lemma then_run_Inr:
  "k d = Inr (d', vs', es') \<Longrightarrow> then_run (Inr (d, vs, es)) k = Inr (d', vs @ vs', es @ es')"
  by (simp add: then_run_def)

lemma then_run_eq_Inr:
  "then_run m k = Inr (d', vs, es) \<longleftrightarrow>
   (\<exists>d1 v1 e1 v2 e2. m = Inr (d1, v1, e1) \<and> k d1 = Inr (d', v2, e2) \<and>
      vs = v1 @ v2 \<and> es = e1 @ e2)"
  by (auto simp: then_run_def split: sum.splits prod.splits)

lemma then_run_assoc: "then_run (then_run m k) l = then_run m (\<lambda>d. then_run (k d) l)"
  by (auto simp: then_run_def split: sum.splits prod.splits)

section \<open>Collections of facts\<close>

named_theorems reg_defs \<open>definitions of register-level device operations\<close>
named_theorems inv_defs \<open>component invariants\<close>
named_theorems range_simps \<open>reads and writes of byte ranges\<close>

section \<open>Little-endian byte strings\<close>

primrec le_val :: "u8 list \<Rightarrow> nat" where
  "le_val [] = 0"
| "le_val (b # bs) = unat b + 256 * le_val bs"

primrec le_bytes :: "nat \<Rightarrow> nat \<Rightarrow> u8 list" where
  "le_bytes 0 n = []"
| "le_bytes (Suc k) n = of_nat n # le_bytes k (n div 256)"

lemma length_le_bytes [simp]: "length (le_bytes k n) = k"
  by (induction k arbitrary: n) simp_all

lemma unat_u8_less: "unat (b :: u8) < 256"
  using unsigned_less [where w = b and 'a = nat] by simp

lemma unat_drop_bit_word: "unat (drop_bit k (w :: 'a :: len word)) = unat w div 2 ^ k"
proof -
  have "take_bit LENGTH('a) (unat w) = unat w"
    using unsigned_less [where w = w and 'a = nat] by (rule take_bit_nat_eq_self)
  then show ?thesis unfolding unsigned_drop_bit_eq by (simp add: drop_bit_eq_div)
qed

lemma less_16: "n < 16 \<longleftrightarrow> n \<in> {0, 1, 2, 3, 4, 5, 6, 7, 8, 9, 10, 11, 12, 13, 14, 15 :: nat}"
  unfolding insert_iff empty_iff by presburger

lemma unat_ucast_u16: "unat (ucast (a :: u16) :: u32) = unat a"
  using unsigned_less [where w = a and 'a = nat] by (simp add: unsigned_ucast_eq take_bit_nat_eq_self)

lemma unat_of_nat_word: "n < 2 ^ LENGTH('a) \<Longrightarrow> unat (of_nat n :: 'a :: len word) = n"
  by (simp add: unsigned_of_nat take_bit_nat_eq_self)

lemma le_val_append: "le_val (xs @ ys) = le_val xs + 256 ^ length xs * le_val ys"
  by (induction xs) (simp_all add: algebra_simps)

lemma le_val_less: "le_val bs < 256 ^ length bs"
proof (induction bs)
  case Nil
  then show ?case by simp
next
  case (Cons b bs)
  have "unat b < 256" by (rule unat_u8_less)
  moreover have "le_val bs + 1 \<le> 256 ^ length bs" using Cons.IH by simp
  ultimately have "unat b + 256 * le_val bs < 256 * (le_val bs + 1)" by simp
  also have "\<dots> \<le> 256 * 256 ^ length bs" using Cons.IH by simp
  finally show ?case by simp
qed

lemma unat_of_nat_u8: "unat (of_nat n :: u8) = n mod 256"
  by (simp add: unat_of_nat)

lemma nth_le_bytes: "i < k \<Longrightarrow> le_bytes k n ! i = of_nat (n div 256 ^ i)"
proof (induction k arbitrary: i n)
  case (Suc k)
  then show ?case by (cases i) (simp_all add: div_mult2_eq)
qed simp

lemma le_bytes_numeral: "le_bytes (numeral k) n = of_nat n # le_bytes (pred_numeral k) (n div 256)"
  using le_bytes.simps(2) [of "pred_numeral k" n] by (simp only: numeral_eq_Suc [symmetric])

lemma le_val_le_bytes: "le_val (le_bytes k n) = n mod 256 ^ k"
proof (induction k arbitrary: n)
  case 0
  then show ?case by simp
next
  case (Suc k)
  then show ?case
    by (simp add: unat_of_nat_u8 mod_mult2_eq add.commute)
qed

lemma le_bytes_le_val: "le_bytes (length bs) (le_val bs) = bs"
proof (induction bs)
  case Nil
  then show ?case by simp
next
  case (Cons b bs)
  have b: "unat b < 256" by (rule unat_u8_less)
  then have "(unat b + 256 * le_val bs) div 256 = le_val bs" by simp
  moreover have "of_nat (unat b + 256 * le_val bs) = b"
  proof (rule unsigned_word_eqI)
    show "unat (of_nat (unat b + 256 * le_val bs) :: u8) = unat b"
      using b by (simp only: unat_of_nat_u8) simp
  qed
  ultimately show ?case using Cons.IH by (simp del: of_nat_add of_nat_mult)
qed

lemma le_bytes_inject:
  assumes "m < 256 ^ k" "n < 256 ^ k" "le_bytes k m = le_bytes k n"
  shows "m = n"
proof -
  have "le_val (le_bytes k m) = le_val (le_bytes k n)" using assms(3) by simp
  then show ?thesis using assms(1,2) by (simp add: le_val_le_bytes)
qed

section \<open>Byte ranges of a memory\<close>

definition get_bytes :: "nat \<Rightarrow> nat \<Rightarrow> 'a list \<Rightarrow> 'a list" where
  "get_bytes off n m = take n (drop off m)"

definition put_bytes :: "nat \<Rightarrow> 'a list \<Rightarrow> 'a list \<Rightarrow> 'a list" where
  "put_bytes off bs m = take off m @ bs @ drop (off + length bs) m"

lemma length_get_bytes [range_simps]:
  "off + n \<le> length m \<Longrightarrow> length (get_bytes off n m) = n"
  by (simp add: get_bytes_def)

lemma length_put_bytes [range_simps]:
  "off + length bs \<le> length m \<Longrightarrow> length (put_bytes off bs m) = length m"
  by (simp add: put_bytes_def)

lemma get_put_same [range_simps]:
  "off + length bs \<le> length m \<Longrightarrow> get_bytes off (length bs) (put_bytes off bs m) = bs"
  by (simp add: get_bytes_def put_bytes_def)

lemma get_bytes_get_bytes: "k + j \<le> n \<Longrightarrow> get_bytes k j (get_bytes a n m) = get_bytes (a + k) j m"
  by (simp add: get_bytes_def drop_take add.commute)

lemma put_bytes_Cons:
  "off < length m \<Longrightarrow> put_bytes (Suc off) ws (m[off := w]) = put_bytes off (w # ws) m"
  by (simp add: put_bytes_def take_Suc_conv_app_nth)

lemma put_bytes_append:
  "a + length xs \<le> length m \<Longrightarrow> put_bytes (a + length xs) ys (put_bytes a xs m) = put_bytes a (xs @ ys) m"
  by (simp add: put_bytes_def ac_simps)

lemma nth_put_bytes:
  assumes "off + length bs \<le> length m" "i < length m"
  shows "put_bytes off bs m ! i =
    (if off \<le> i \<and> i < off + length bs then bs ! (i - off) else m ! i)"
  using assms by (auto simp: put_bytes_def nth_append min_def)

lemma get_put_disjoint [range_simps]:
  assumes "off + length bs \<le> length m" "a + n \<le> length m"
    and "a + n \<le> off \<or> off + length bs \<le> a"
  shows "get_bytes a n (put_bytes off bs m) = get_bytes a n m"
proof (rule nth_equalityI)
  show "length (get_bytes a n (put_bytes off bs m)) = length (get_bytes a n m)"
    using assms by (simp add: range_simps)
next
  fix i assume "i < length (get_bytes a n (put_bytes off bs m))"
  then have i: "i < n" using assms by (simp add: range_simps)
  then have "a + i < length m" using assms by simp
  then show "get_bytes a n (put_bytes off bs m) ! i = get_bytes a n m ! i"
    using assms i by (auto simp: get_bytes_def nth_put_bytes length_put_bytes)
qed

lemma put_get_id: "off + n \<le> length m \<Longrightarrow> put_bytes off (get_bytes off n m) m = m"
  by (simp add: put_bytes_def get_bytes_def)
     (metis append_take_drop_id drop_drop add.commute)

lemma take_update_pair:
  assumes "Suc p < length xs"
  shows "take (p + 2) (xs[p := a, Suc p := b]) = take p xs @ [a, b]"
proof -
  have "take (Suc (Suc p)) (xs[p := a, Suc p := b]) =
      take p (xs[p := a, Suc p := b]) @ [xs[p := a, Suc p := b] ! p, xs[p := a, Suc p := b] ! Suc p]"
    using assms by (simp add: take_Suc_conv_app_nth)
  then show ?thesis using assms by simp
qed

section \<open>Circular indices\<close>

lemma ring_tail_step:
  assumes "0 < c"
  shows "((t + 1) mod n + (c - 1)) mod n = (t + c) mod (n :: nat)"
proof -
  have "((t + 1) mod n + (c - 1)) mod n = (t + 1 + (c - 1)) mod n" by (rule mod_add_left_eq)
  also have "t + 1 + (c - 1) = t + c" using assms by simp
  finally show ?thesis .
qed

lemma ring_head_step: "((t + c) mod n + 1) mod n = (t + (c + 1)) mod (n :: nat)"
  by (simp add: mod_simps)

lemma ring_slot_fresh:
  fixes n :: nat
  assumes "i < c" "c < n"
  shows "(t + i) mod n \<noteq> (t + c) mod n"
proof
  assume "(t + i) mod n = (t + c) mod n"
  then have "(t + c) mod n = (t + i) mod n" by simp
  then have "n dvd (t + c) - (t + i)" using assms by (subst (asm) mod_eq_dvd_iff_nat) simp_all
  then have "n \<le> c - i" using assms by (simp add: dvd_imp_le)
  then show False using assms by simp
qed

lemma ring_map_shift:
  "map (\<lambda>i. xs ! (((t + 1) mod n + i) mod n)) [0..<c] =
   map (\<lambda>i. xs ! ((t + i) mod (n :: nat))) [1..<Suc c]"
  by (rule nth_equalityI) (simp_all add: mod_simps del: upt_Suc)

section \<open>Interrupt lines\<close>

text \<open>
  \<open>set_IRQline\<close> of \<open>kvm.cpp\<close> hands a line number and a level to the in-kernel interrupt
  controller and has no other effect on the program than a log line. A device operation
  therefore returns the list of calls it makes, in order; \<open>line_level\<close> is the level a line
  was last driven to.
\<close>

type_synonym irq_event = "u16 \<times> u16"

definition line_level :: "u16 \<Rightarrow> irq_event list \<Rightarrow> u16 \<Rightarrow> u16" where
  "line_level irq evs l0 = fold (\<lambda>(i, l) cur. if i = irq then l else cur) evs l0"

lemma line_level_simps [simp]:
  "line_level irq [] l = l"
  "line_level irq (e # es) l = line_level irq es (if fst e = irq then snd e else l)"
  by (simp_all add: line_level_def case_prod_beta)

lemma line_level_append [simp]:
  "line_level irq (es @ fs) l = line_level irq fs (line_level irq es l)"
  by (simp add: line_level_def)

section \<open>The device interface\<close>

text \<open>
  The virtual class \<open>IODevice\<close>: a device answers byte writes and byte reads at port
  addresses. The contract a client relies on is that every access is defined and keeps the
  device's invariant; what follows holds for every sequence of guest accesses.
\<close>

datatype port_access = PortOut io_addr u8 | PortIn io_addr

locale port_device =
  fixes wr :: "io_addr \<Rightarrow> u8 \<Rightarrow> 'd \<Rightarrow> 'd"
    and rd :: "io_addr \<Rightarrow> 'd \<Rightarrow> u8 \<times> 'd"
    and inv :: "'d \<Rightarrow> bool"
  assumes wr_inv: "inv d \<Longrightarrow> inv (wr a v d)"
    and rd_inv: "inv d \<Longrightarrow> inv (snd (rd a d))"
begin

primrec access :: "port_access \<Rightarrow> 'd \<Rightarrow> 'd" where
  "access (PortOut a v) d = wr a v d"
| "access (PortIn a) d = snd (rd a d)"

lemma access_inv: "inv d \<Longrightarrow> inv (access x d)"
  by (cases x) (simp_all add: wr_inv rd_inv)

lemma accesses_inv: "inv d \<Longrightarrow> inv (fold access xs d)"
  by (induction xs arbitrary: d) (simp_all add: access_inv)

end

section \<open>Bounded queues\<close>

text \<open>Repeating a read: the values in the order they come out, and the final state.\<close>

primrec read_n :: "nat \<Rightarrow> ('q \<Rightarrow> 'a \<times> 'q) \<Rightarrow> 'q \<Rightarrow> 'a list \<times> 'q" where
  "read_n 0 get q = ([], q)"
| "read_n (Suc n) get q =
     (let (x, q1) = get q; (xs, q2) = read_n n get q1 in (x # xs, q2))"

text \<open>
  What a client of a bounded first-in first-out buffer relies on: an insertion appends when
  there is room and is dropped otherwise, a removal returns the oldest element.
\<close>

locale bounded_fifo =
  fixes elems :: "'q \<Rightarrow> 'a list"
    and put :: "'a \<Rightarrow> 'q \<Rightarrow> 'q"
    and get :: "'q \<Rightarrow> 'a \<times> 'q"
    and ok :: "'q \<Rightarrow> bool"
    and cap :: nat
  assumes put_ok: "ok q \<Longrightarrow> ok (put x q)"
    and get_ok: "ok q \<Longrightarrow> ok (snd (get q))"
    and cap_bound: "ok q \<Longrightarrow> length (elems q) \<le> cap"
    and put_elems: "ok q \<Longrightarrow>
      elems (put x q) = (if length (elems q) < cap then elems q @ [x] else elems q)"
    and get_elems: "ok q \<Longrightarrow> elems q \<noteq> [] \<Longrightarrow>
      fst (get q) = hd (elems q) \<and> elems (snd (get q)) = tl (elems q)"
begin

lemma puts_ok: "ok q \<Longrightarrow> ok (fold put xs q)"
  by (induction xs arbitrary: q) (simp_all add: put_ok)

lemma puts_elems:
  "ok q \<Longrightarrow> elems (fold put xs q) = elems q @ take (cap - length (elems q)) xs"
proof (induction xs arbitrary: q)
  case Nil
  then show ?case by simp
next
  case (Cons x xs)
  note IH = Cons.IH [OF put_ok [OF Cons.prems], of x]
  show ?case
  proof (cases "length (elems q) < cap")
    case True
    then have "cap - length (elems q) = Suc (cap - Suc (length (elems q)))" by simp
    then show ?thesis using True IH Cons.prems by (simp add: put_elems)
  next
    case False
    then show ?thesis using IH Cons.prems by (simp add: put_elems)
  qed
qed

lemma read_n_elems:
  "ok q \<Longrightarrow> n \<le> length (elems q) \<Longrightarrow>
   fst (read_n n get q) = take n (elems q) \<and> elems (snd (read_n n get q)) = drop n (elems q)"
proof (induction n arbitrary: q)
  case 0
  then show ?case by simp
next
  case (Suc n)
  then obtain y ys where e: "elems q = y # ys" by (cases "elems q") simp_all
  then have g: "fst (get q) = y" "elems (snd (get q)) = ys"
    using get_elems [OF Suc.prems(1)] by simp_all
  with Suc e have "fst (read_n n get (snd (get q))) = take n ys \<and>
      elems (snd (read_n n get (snd (get q)))) = drop n ys"
    using Suc.IH [OF get_ok [OF Suc.prems(1)]] by simp
  then show ?case using e g by (simp add: case_prod_beta Let_def)
qed

lemma fifo_order:
  assumes "ok q" "length (elems q) + length xs \<le> cap"
  shows "fst (read_n (length (elems q) + length xs) get (fold put xs q)) = elems q @ xs"
proof -
  have "elems (fold put xs q) = elems q @ xs" using assms by (simp add: puts_elems)
  then show ?thesis using read_n_elems [OF puts_ok [OF assms(1)]] by simp
qed

end

end
