(* ===== verification/Keyboard.thy ===== *)
theory Keyboard
  imports Prelude
begin

text \<open>
  The emulated Intel 8042 keyboard controller, \<open>frontend/keyboard.h\<close> and
  \<open>frontend/keyboard.cpp\<close>: its registers, the 16-entry circular buffer between the console
  thread and the guest, and the keyboard interrupt line. Every public method runs under the
  instance mutex from its first to its last statement, so an execution with the console
  thread is an interleaving of whole method calls (\<open>kb_event\<close>, \<open>kb_step\<close>).
\<close>

section \<open>State\<close>

abbreviation INTERNAL_BUFFER_SIZE :: nat where "INTERNAL_BUFFER_SIZE \<equiv> 16"
abbreviation INT_KEYBOARD :: u16 where "INT_KEYBOARD \<equiv> 1"
abbreviation kb_RBR_addr :: io_addr where "kb_RBR_addr \<equiv> 0x60"
abbreviation kb_TBR_addr :: io_addr where "kb_TBR_addr \<equiv> 0x60"
abbreviation kb_STR_addr :: io_addr where "kb_STR_addr \<equiv> 0x64"
abbreviation kb_CMR_addr :: io_addr where "kb_CMR_addr \<equiv> 0x64"
abbreviation FI_MASK :: u8 where "FI_MASK \<equiv> 1"

text \<open>
  The three \<open>short\<close> indices only ever hold 0 to 16 (\<open>kb_ring_wf\<close> below is kept by every
  operation), so they are natural numbers here.
\<close>

record keyboard =
  kb_RBR :: u8
  kb_TBR :: u8
  kb_STR :: u8
  kb_CMR :: u8
  kb_enabled :: bool
  kb_interrupt_enabled :: bool
  kb_internal_buffer :: "u8 list"
  kb_buffer_head_pointer :: nat
  kb_buffer_tail_pointer :: nat
  kb_buffer_element_count :: nat
  kb_interrupt_raised :: bool

text \<open>
  The constructor leaves the buffer alone; the only instance, \<open>keyb\<close> of \<open>kvm.cpp\<close>, has
  static storage, so its buffer starts as zeros.
\<close>

definition keyboard_new :: keyboard where
  "keyboard_new = \<lparr>
     kb_RBR = 0, kb_TBR = 0, kb_STR = 0, kb_CMR = 0,
     kb_enabled = False, kb_interrupt_enabled = False,
     kb_internal_buffer = replicate INTERNAL_BUFFER_SIZE 0,
     kb_buffer_head_pointer = 0, kb_buffer_tail_pointer = 0, kb_buffer_element_count = 0,
     kb_interrupt_raised = False \<rparr>"

section \<open>Operations\<close>

text \<open>Each operation returns the new state and the calls of \<open>set_IRQline\<close> it makes.\<close>

definition keyboard_process_cmd :: "keyboard \<Rightarrow> keyboard \<times> irq_event list" where
  "keyboard_process_cmd kb =
     (if kb_CMR kb = 0x60 then
        (let kb1 = (if kb_TBR kb AND 0x10 \<noteq> 0 then kb\<lparr>kb_enabled := False\<rparr>
                    else kb\<lparr>kb_enabled := True\<rparr>)
         in if kb_TBR kb AND 0x01 \<noteq> 0 then
              (let kb2 = kb1\<lparr>kb_interrupt_enabled := True\<rparr>
               in if kb_buffer_element_count kb2 \<noteq> 0 \<and> \<not> kb_interrupt_raised kb2
                  then (kb2\<lparr>kb_interrupt_raised := True\<rparr>, [(INT_KEYBOARD, 1)])
                  else (kb2, []))
            else (kb1\<lparr>kb_interrupt_enabled := False\<rparr>, []))
      else (kb, []))"

definition keyboard_write_reg_byte ::
  "io_addr \<Rightarrow> u8 \<Rightarrow> keyboard \<Rightarrow> keyboard \<times> irq_event list" where
  "keyboard_write_reg_byte addr val kb =
     (if addr = kb_CMR_addr then (kb\<lparr>kb_CMR := val\<rparr>, [])
      else if addr = kb_TBR_addr then keyboard_process_cmd (kb\<lparr>kb_TBR := val\<rparr>)
      else (kb, []))"

definition keyboard_next_RBR :: "keyboard \<Rightarrow> keyboard" where
  "keyboard_next_RBR kb =
     (if kb_buffer_element_count kb \<noteq> 0 then
        kb\<lparr>kb_RBR := kb_internal_buffer kb ! kb_buffer_tail_pointer kb,
           kb_buffer_tail_pointer := (kb_buffer_tail_pointer kb + 1) mod INTERNAL_BUFFER_SIZE,
           kb_buffer_element_count := kb_buffer_element_count kb - 1\<rparr>
      else kb)"

definition keyboard_update_FI :: "bool \<Rightarrow> keyboard \<Rightarrow> keyboard \<times> irq_event list" where
  "keyboard_update_FI ins kb =
     (let (kb1, e1) = (if \<not> ins then (kb\<lparr>kb_interrupt_raised := False\<rparr>, [(INT_KEYBOARD, 0)])
                       else (kb, []));
          (kb2, e2) =
            (if kb_buffer_element_count kb1 \<noteq> 0 then
               (let kb' = kb1\<lparr>kb_STR := kb_STR kb1 OR FI_MASK\<rparr>
                in if kb_interrupt_enabled kb'
                   then (kb'\<lparr>kb_interrupt_raised := True\<rparr>, [(INT_KEYBOARD, 1)])
                   else (kb', []))
             else
               (let kb' = kb1\<lparr>kb_STR := kb_STR kb1 AND NOT FI_MASK\<rparr>
                in if kb_interrupt_raised kb'
                   then (kb'\<lparr>kb_interrupt_raised := False\<rparr>, [(INT_KEYBOARD, 0)])
                   else (kb', [])))
      in (kb2, e1 @ e2))"

definition keyboard_read_reg_byte ::
  "io_addr \<Rightarrow> keyboard \<Rightarrow> u8 \<times> keyboard \<times> irq_event list" where
  "keyboard_read_reg_byte addr kb =
     (if addr = kb_RBR_addr then
        (let kb1 = keyboard_next_RBR kb; result = kb_RBR kb1
         in (result, keyboard_update_FI False kb1))
      else if addr = kb_STR_addr then (kb_STR kb, kb, [])
      else (0, kb, []))"

definition keyboard_enqueue :: "u8 \<Rightarrow> keyboard \<Rightarrow> keyboard" where
  "keyboard_enqueue keycode kb =
     kb\<lparr>kb_internal_buffer := (kb_internal_buffer kb)[kb_buffer_head_pointer kb := keycode],
        kb_buffer_head_pointer := (kb_buffer_head_pointer kb + 1) mod INTERNAL_BUFFER_SIZE,
        kb_buffer_element_count := kb_buffer_element_count kb + 1\<rparr>"

definition keyboard_insert_keycode_event ::
  "u8 \<Rightarrow> keyboard \<Rightarrow> keyboard \<times> irq_event list" where
  "keyboard_insert_keycode_event keycode kb =
     (if \<not> kb_enabled kb then (kb, [])
      else if kb_buffer_element_count kb = INTERNAL_BUFFER_SIZE then (kb, [])
      else keyboard_update_FI True (keyboard_enqueue keycode kb))"

lemmas keyboard_defs [reg_defs] =
  keyboard_process_cmd_def keyboard_write_reg_byte_def keyboard_next_RBR_def
  keyboard_update_FI_def keyboard_read_reg_byte_def keyboard_enqueue_def
  keyboard_insert_keycode_event_def

section \<open>Invariant\<close>

definition kb_ring_wf :: "keyboard \<Rightarrow> bool" where
  "kb_ring_wf kb \<longleftrightarrow>
     length (kb_internal_buffer kb) = INTERNAL_BUFFER_SIZE \<and>
     kb_buffer_head_pointer kb < INTERNAL_BUFFER_SIZE \<and>
     kb_buffer_tail_pointer kb < INTERNAL_BUFFER_SIZE \<and>
     kb_buffer_element_count kb \<le> INTERNAL_BUFFER_SIZE \<and>
     kb_buffer_head_pointer kb =
       (kb_buffer_tail_pointer kb + kb_buffer_element_count kb) mod INTERNAL_BUFFER_SIZE"

text \<open>
  FI reports exactly a non-empty buffer; a pending interrupt means there is something to
  read, and whenever interrupts are on and there is something to read, one is pending.
\<close>

definition kb_irq_wf :: "keyboard \<Rightarrow> bool" where
  "kb_irq_wf kb \<longleftrightarrow>
     kb_STR kb = (if kb_buffer_element_count kb \<noteq> 0 then FI_MASK else 0) \<and>
     (kb_interrupt_raised kb \<longrightarrow> kb_buffer_element_count kb \<noteq> 0) \<and>
     (kb_interrupt_enabled kb \<and> kb_buffer_element_count kb \<noteq> 0 \<longrightarrow> kb_interrupt_raised kb)"

definition kb_inv :: "keyboard \<Rightarrow> bool" where
  "kb_inv kb \<longleftrightarrow> kb_ring_wf kb \<and> kb_irq_wf kb"

lemmas kb_inv_defs [inv_defs] = kb_inv_def kb_ring_wf_def kb_irq_wf_def

lemma keyboard_new_inv [simp]: "kb_inv keyboard_new"
  by (simp add: keyboard_new_def kb_inv_defs)

lemma keyboard_write_inv: "kb_inv kb \<Longrightarrow> kb_inv (fst (keyboard_write_reg_byte a v kb))"
  by (auto simp: keyboard_write_reg_byte_def keyboard_process_cmd_def kb_inv_defs Let_def)

lemma keyboard_next_RBR_wf: "kb_ring_wf kb \<Longrightarrow> kb_ring_wf (keyboard_next_RBR kb)"
  using ring_tail_step [of "kb_buffer_element_count kb" "kb_buffer_tail_pointer kb"
      INTERNAL_BUFFER_SIZE]
  by (auto simp: keyboard_next_RBR_def kb_ring_wf_def)

lemma keyboard_enqueue_wf:
  "kb_ring_wf kb \<Longrightarrow> kb_buffer_element_count kb < INTERNAL_BUFFER_SIZE \<Longrightarrow>
   kb_ring_wf (keyboard_enqueue k kb)"
  using ring_head_step [of "kb_buffer_tail_pointer kb" "kb_buffer_element_count kb"
      INTERNAL_BUFFER_SIZE]
  by (auto simp: keyboard_enqueue_def kb_ring_wf_def)

lemma enqueue_count:
  "kb_buffer_element_count (keyboard_enqueue k kb) = Suc (kb_buffer_element_count kb)"
  by (simp add: keyboard_enqueue_def)

lemma kb_ring_wf_cong:
  "kb_internal_buffer kb' = kb_internal_buffer kb \<Longrightarrow>
   kb_buffer_head_pointer kb' = kb_buffer_head_pointer kb \<Longrightarrow>
   kb_buffer_tail_pointer kb' = kb_buffer_tail_pointer kb \<Longrightarrow>
   kb_buffer_element_count kb' = kb_buffer_element_count kb \<Longrightarrow>
   kb_ring_wf kb' = kb_ring_wf kb"
  by (simp add: kb_ring_wf_def)

text \<open>The only bit of the status register that is ever set is FI.\<close>

definition kb_str_wf :: "keyboard \<Rightarrow> bool" where
  "kb_str_wf kb \<longleftrightarrow> kb_STR kb = 0 \<or> kb_STR kb = FI_MASK"

lemma kb_irq_wf_str: "kb_irq_wf kb \<Longrightarrow> kb_str_wf kb"
  by (auto simp: kb_irq_wf_def kb_str_wf_def)

lemma update_FI_ring [simp]:
  "kb_internal_buffer (fst (keyboard_update_FI b kb)) = kb_internal_buffer kb"
  "kb_buffer_head_pointer (fst (keyboard_update_FI b kb)) = kb_buffer_head_pointer kb"
  "kb_buffer_tail_pointer (fst (keyboard_update_FI b kb)) = kb_buffer_tail_pointer kb"
  "kb_buffer_element_count (fst (keyboard_update_FI b kb)) = kb_buffer_element_count kb"
  "kb_enabled (fst (keyboard_update_FI b kb)) = kb_enabled kb"
  "kb_interrupt_enabled (fst (keyboard_update_FI b kb)) = kb_interrupt_enabled kb"
  by (simp_all add: keyboard_update_FI_def Let_def)

text \<open>
  \<open>update_FI\<close> re-establishes the interrupt part of the invariant: after a read whatever the
  flag was, after an insertion because the buffer is then not empty.
\<close>

lemma update_FI_irq_wf:
  assumes "kb_str_wf kb"
    and "ins \<Longrightarrow> kb_buffer_element_count kb \<noteq> 0"
  shows "kb_irq_wf (fst (keyboard_update_FI ins kb))"
  using assms by (auto simp: keyboard_update_FI_def kb_irq_wf_def kb_str_wf_def Let_def)

lemma update_FI_inv:
  assumes "kb_ring_wf kb" "kb_str_wf kb"
    and "ins \<Longrightarrow> kb_buffer_element_count kb \<noteq> 0"
  shows "kb_inv (fst (keyboard_update_FI ins kb))"
  using assms update_FI_irq_wf [of kb ins]
  by (simp add: kb_inv_def kb_ring_wf_cong [of "fst (keyboard_update_FI ins kb)" kb])

lemma keyboard_read_inv: "kb_inv kb \<Longrightarrow> kb_inv (fst (snd (keyboard_read_reg_byte a kb)))"
proof -
  assume inv: "kb_inv kb"
  have "kb_str_wf (keyboard_next_RBR kb)"
    using inv kb_irq_wf_str [of kb] by (simp add: kb_inv_def keyboard_next_RBR_def kb_str_wf_def)
  then have "kb_inv (fst (keyboard_update_FI False (keyboard_next_RBR kb)))"
    using inv by (intro update_FI_inv) (simp_all add: keyboard_next_RBR_wf kb_inv_def)
  then show ?thesis
    using inv by (simp add: keyboard_read_reg_byte_def Let_def)
qed

lemma keyboard_insert_inv:
  assumes inv: "kb_inv kb"
  shows "kb_inv (fst (keyboard_insert_keycode_event k kb))"
proof (cases "kb_enabled kb \<and> kb_buffer_element_count kb \<noteq> INTERNAL_BUFFER_SIZE")
  case True
  then have "kb_buffer_element_count kb < INTERNAL_BUFFER_SIZE"
    using inv by (simp add: kb_inv_defs)
  moreover have "kb_str_wf (keyboard_enqueue k kb)"
    using inv kb_irq_wf_str [of kb] by (simp add: kb_inv_def keyboard_enqueue_def kb_str_wf_def)
  ultimately have "kb_inv (fst (keyboard_update_FI True (keyboard_enqueue k kb)))"
    using inv by (intro update_FI_inv) (simp_all add: keyboard_enqueue_wf kb_inv_def
        enqueue_count)
  with True show ?thesis by (simp add: keyboard_insert_keycode_event_def)
next
  case False
  with inv show ?thesis by (auto simp: keyboard_insert_keycode_event_def)
qed

section \<open>The buffer as a queue\<close>

definition kb_elems :: "keyboard \<Rightarrow> u8 list" where
  "kb_elems kb =
     map (\<lambda>i. kb_internal_buffer kb ! ((kb_buffer_tail_pointer kb + i) mod INTERNAL_BUFFER_SIZE))
       [0..<kb_buffer_element_count kb]"

lemma length_kb_elems [simp]: "length (kb_elems kb) = kb_buffer_element_count kb"
  by (simp add: kb_elems_def)

lemma kb_elems_empty_iff [simp]: "kb_elems kb = [] \<longleftrightarrow> kb_buffer_element_count kb = 0"
  by (simp add: kb_elems_def)

lemma kb_elems_cong:
  "kb_internal_buffer kb' = kb_internal_buffer kb \<Longrightarrow>
   kb_buffer_tail_pointer kb' = kb_buffer_tail_pointer kb \<Longrightarrow>
   kb_buffer_element_count kb' = kb_buffer_element_count kb \<Longrightarrow> kb_elems kb' = kb_elems kb"
  by (simp add: kb_elems_def)

lemma kb_elems_update_FI [simp]: "kb_elems (fst (keyboard_update_FI b kb)) = kb_elems kb"
  by (rule kb_elems_cong) simp_all

lemma kb_elems_enqueue:
  assumes wf: "kb_ring_wf kb" and room: "kb_buffer_element_count kb < INTERNAL_BUFFER_SIZE"
  shows "kb_elems (keyboard_enqueue k kb) = kb_elems kb @ [k]"
proof -
  let ?t = "kb_buffer_tail_pointer kb" and ?c = "kb_buffer_element_count kb"
  have head: "kb_buffer_head_pointer kb = (?t + ?c) mod INTERNAL_BUFFER_SIZE"
    and len: "length (kb_internal_buffer kb) = INTERNAL_BUFFER_SIZE"
    using wf by (simp_all add: kb_ring_wf_def)
  have "(?t + ?c) mod INTERNAL_BUFFER_SIZE \<noteq> (?t + i) mod INTERNAL_BUFFER_SIZE" if "i < ?c" for i
    using ring_slot_fresh [OF that room, of ?t] by (rule not_sym)
  then show ?thesis
    using len by (simp add: kb_elems_def keyboard_enqueue_def head)
qed

lemma kb_elems_next_RBR:
  assumes ne: "kb_buffer_element_count kb \<noteq> 0" and wf: "kb_ring_wf kb"
  shows "kb_elems kb = kb_RBR (keyboard_next_RBR kb) # kb_elems (keyboard_next_RBR kb)"
proof -
  obtain c where c: "kb_buffer_element_count kb = Suc c"
    using ne by (cases "kb_buffer_element_count kb") simp_all
  have t: "kb_buffer_tail_pointer kb mod INTERNAL_BUFFER_SIZE = kb_buffer_tail_pointer kb"
    using wf by (simp add: kb_ring_wf_def)
  have "[0..<Suc c] = 0 # [1..<Suc c]" by (simp add: upt_rec)
  then show ?thesis
    using ring_map_shift [of "kb_internal_buffer kb" "kb_buffer_tail_pointer kb" INTERNAL_BUFFER_SIZE c]
    by (simp add: kb_elems_def keyboard_next_RBR_def c t del: upt_Suc)
qed

text \<open>The two ends of the buffer, as the console thread and the guest use them.\<close>

definition kb_type :: "u8 \<Rightarrow> keyboard \<Rightarrow> keyboard" where
  "kb_type k kb = fst (keyboard_insert_keycode_event k kb)"

definition kb_fetch :: "keyboard \<Rightarrow> u8 \<times> keyboard" where
  "kb_fetch kb = (let (v, kb', _) = keyboard_read_reg_byte kb_RBR_addr kb in (v, kb'))"

lemma kb_elems_insert:
  assumes "kb_inv kb"
  shows "kb_elems (fst (keyboard_insert_keycode_event k kb)) =
    (if kb_enabled kb \<and> length (kb_elems kb) < INTERNAL_BUFFER_SIZE then kb_elems kb @ [k]
     else kb_elems kb)"
proof -
  have "kb_buffer_element_count kb \<le> INTERNAL_BUFFER_SIZE" and "kb_ring_wf kb"
    using assms by (simp_all add: kb_inv_defs)
  then show ?thesis
    by (auto simp: keyboard_insert_keycode_event_def kb_elems_enqueue)
qed

lemma kb_enabled_insert [simp]:
  "kb_enabled (fst (keyboard_insert_keycode_event k kb)) = kb_enabled kb"
  by (simp add: keyboard_insert_keycode_event_def keyboard_enqueue_def)

lemma keyboard_next_RBR_frame [simp]:
  "kb_enabled (keyboard_next_RBR kb) = kb_enabled kb"
  "kb_interrupt_enabled (keyboard_next_RBR kb) = kb_interrupt_enabled kb"
  "kb_CMR (keyboard_next_RBR kb) = kb_CMR kb"
  "kb_STR (keyboard_next_RBR kb) = kb_STR kb"
  by (simp_all add: keyboard_next_RBR_def)

lemma kb_fetch_simps:
  "fst (kb_fetch kb) = kb_RBR (keyboard_next_RBR kb)"
  "snd (kb_fetch kb) = fst (keyboard_update_FI False (keyboard_next_RBR kb))"
  by (simp_all add: kb_fetch_def keyboard_read_reg_byte_def Let_def case_prod_beta)

interpretation kbq: bounded_fifo kb_elems kb_type kb_fetch
  "\<lambda>kb. kb_inv kb \<and> kb_enabled kb" INTERNAL_BUFFER_SIZE
proof unfold_locales
  fix kb x assume ok: "kb_inv kb \<and> kb_enabled kb"
  show "kb_inv (kb_type x kb) \<and> kb_enabled (kb_type x kb)"
    using ok by (simp add: kb_type_def keyboard_insert_inv)
  show "kb_inv (snd (kb_fetch kb)) \<and> kb_enabled (snd (kb_fetch kb))"
    using ok keyboard_read_inv [of kb kb_RBR_addr]
    by (simp add: kb_fetch_simps keyboard_read_reg_byte_def Let_def)
  show "length (kb_elems kb) \<le> INTERNAL_BUFFER_SIZE"
    using ok by (simp add: kb_inv_defs)
  show "kb_elems (kb_type x kb) =
      (if length (kb_elems kb) < INTERNAL_BUFFER_SIZE then kb_elems kb @ [x] else kb_elems kb)"
    using ok by (simp only: kb_type_def kb_elems_insert) simp
  assume ne: "kb_elems kb \<noteq> []"
  then have "kb_elems kb = kb_RBR (keyboard_next_RBR kb) # kb_elems (keyboard_next_RBR kb)"
    using ok kb_elems_next_RBR [of kb] by (simp add: kb_inv_def)
  then show "fst (kb_fetch kb) = hd (kb_elems kb) \<and> kb_elems (snd (kb_fetch kb)) = tl (kb_elems kb)"
    by (simp add: kb_fetch_simps)
qed

section \<open>Interleavings of guest accesses and typed keys\<close>

datatype kb_event = GuestOut io_addr u8 | GuestIn io_addr | KeyEvent u8

text \<open>One method call: the new state, the byte returned (reads only), the interrupt calls.\<close>

fun kb_step :: "kb_event \<Rightarrow> keyboard \<Rightarrow> keyboard \<times> u8 list \<times> irq_event list" where
  "kb_step (GuestOut a v) kb = (let (kb', es) = keyboard_write_reg_byte a v kb in (kb', [], es))"
| "kb_step (GuestIn a) kb = (let (v, kb', es) = keyboard_read_reg_byte a kb in (kb', [v], es))"
| "kb_step (KeyEvent k) kb = (let (kb', es) = keyboard_insert_keycode_event k kb in (kb', [], es))"

fun kb_run :: "kb_event list \<Rightarrow> keyboard \<Rightarrow> keyboard \<times> u8 list \<times> irq_event list" where
  "kb_run [] kb = (kb, [], [])"
| "kb_run (e # evs) kb =
     (let (kb1, o1, i1) = kb_step e kb; (kb2, o2, i2) = kb_run evs kb1
      in (kb2, o1 @ o2, i1 @ i2))"

lemma kb_step_inv: "kb_inv kb \<Longrightarrow> kb_inv (fst (kb_step e kb))"
  by (cases e) (simp_all add: case_prod_beta Let_def keyboard_write_inv keyboard_read_inv
      keyboard_insert_inv)

lemma kb_run_inv: "kb_inv kb \<Longrightarrow> kb_inv (fst (kb_run evs kb))"
  by (induction evs arbitrary: kb) (simp_all add: case_prod_beta Let_def kb_step_inv)

text \<open>The level of the interrupt line follows \<open>interrupt_raised\<close> in every operation.\<close>

definition kb_line :: "keyboard \<Rightarrow> u16" where
  "kb_line kb = (if kb_interrupt_raised kb then 1 else 0)"

lemma write_line:
  "line_level INT_KEYBOARD (snd (keyboard_write_reg_byte a v kb)) (kb_line kb) =
   kb_line (fst (keyboard_write_reg_byte a v kb))"
  by (simp add: keyboard_write_reg_byte_def keyboard_process_cmd_def Let_def kb_line_def)

lemma update_FI_line:
  "line_level INT_KEYBOARD (snd (keyboard_update_FI b kb)) (kb_line kb) =
   kb_line (fst (keyboard_update_FI b kb))"
  by (simp add: keyboard_update_FI_def Let_def kb_line_def)

lemma kb_line_frame [simp]:
  "kb_line (keyboard_next_RBR kb) = kb_line kb"
  "kb_line (keyboard_enqueue k kb) = kb_line kb"
  by (simp_all add: keyboard_next_RBR_def keyboard_enqueue_def kb_line_def)

lemma read_line:
  "line_level INT_KEYBOARD (snd (snd (keyboard_read_reg_byte a kb))) (kb_line kb) =
   kb_line (fst (snd (keyboard_read_reg_byte a kb)))"
  using update_FI_line [of False "keyboard_next_RBR kb"]
  by (simp add: keyboard_read_reg_byte_def Let_def)

lemma insert_line:
  "line_level INT_KEYBOARD (snd (keyboard_insert_keycode_event k kb)) (kb_line kb) =
   kb_line (fst (keyboard_insert_keycode_event k kb))"
  using update_FI_line [of True "keyboard_enqueue k kb"]
  by (simp add: keyboard_insert_keycode_event_def)

lemma kb_step_line:
  "line_level INT_KEYBOARD (snd (snd (kb_step e kb))) (kb_line kb) = kb_line (fst (kb_step e kb))"
  by (cases e) (simp_all only: kb_step.simps case_prod_beta Let_def fst_conv snd_conv
      write_line read_line insert_line)

lemma kb_run_line:
  "line_level INT_KEYBOARD (snd (snd (kb_run evs kb))) (kb_line kb) = kb_line (fst (kb_run evs kb))"
proof (induction evs arbitrary: kb)
  case Nil
  then show ?case by simp
next
  case (Cons e evs)
  show ?case
    using Cons.IH [of "fst (kb_step e kb)"]
    by (simp only: kb_run.simps case_prod_beta Let_def fst_conv snd_conv line_level_append
        kb_step_line)
qed

section \<open>Specification: a bounded queue with an enable bit\<close>

record kb_spec =
  ks_queue :: "u8 list"
  ks_last :: u8
  ks_command :: u8
  ks_enabled :: bool
  ks_irq :: bool

definition kb_spec_init :: kb_spec where
  "kb_spec_init = \<lparr>ks_queue = [], ks_last = 0, ks_command = 0, ks_enabled = False, ks_irq = False\<rparr>"

fun kb_spec_step :: "kb_event \<Rightarrow> kb_spec \<Rightarrow> kb_spec \<times> u8 list" where
  "kb_spec_step (GuestOut a v) s =
     (if a = 0x64 then (s\<lparr>ks_command := v\<rparr>, [])
      else if a = 0x60 \<and> ks_command s = 0x60
      then (s\<lparr>ks_enabled := (v AND 0x10 = 0), ks_irq := (v AND 0x01 \<noteq> 0)\<rparr>, [])
      else (s, []))"
| "kb_spec_step (GuestIn a) s =
     (if a = 0x60 then
        (case ks_queue s of
           [] \<Rightarrow> (s, [ks_last s])
         | k # ks \<Rightarrow> (s\<lparr>ks_queue := ks, ks_last := k\<rparr>, [k]))
      else if a = 0x64 then (s, [if ks_queue s = [] then 0 else 1])
      else (s, [0]))"
| "kb_spec_step (KeyEvent k) s =
     (if ks_enabled s \<and> length (ks_queue s) < 16 then (s\<lparr>ks_queue := ks_queue s @ [k]\<rparr>, [])
      else (s, []))"

fun kb_spec_run :: "kb_event list \<Rightarrow> kb_spec \<Rightarrow> kb_spec \<times> u8 list" where
  "kb_spec_run [] s = (s, [])"
| "kb_spec_run (e # evs) s =
     (let (s1, o1) = kb_spec_step e s; (s2, o2) = kb_spec_run evs s1 in (s2, o1 @ o2))"

definition kb_abs :: "keyboard \<Rightarrow> kb_spec" where
  "kb_abs kb = \<lparr>ks_queue = kb_elems kb, ks_last = kb_RBR kb, ks_command = kb_CMR kb,
     ks_enabled = kb_enabled kb, ks_irq = kb_interrupt_enabled kb\<rparr>"

lemma kb_abs_new: "kb_abs keyboard_new = kb_spec_init"
  by (simp add: kb_abs_def keyboard_new_def kb_spec_init_def kb_elems_def)

lemma update_FI_frame [simp]:
  "kb_RBR (fst (keyboard_update_FI b kb)) = kb_RBR kb"
  "kb_CMR (fst (keyboard_update_FI b kb)) = kb_CMR kb"
  by (simp_all add: keyboard_update_FI_def Let_def)

lemma kb_abs_update_FI [simp]: "kb_abs (fst (keyboard_update_FI b kb)) = kb_abs kb"
  by (simp add: kb_abs_def)

lemma kb_abs_write:
  "kb_abs (fst (keyboard_write_reg_byte a v kb)) = fst (kb_spec_step (GuestOut a v) (kb_abs kb))"
  by (simp add: keyboard_write_reg_byte_def keyboard_process_cmd_def kb_abs_def kb_elems_def Let_def)

lemma kb_abs_read:
  assumes inv: "kb_inv kb"
  shows "kb_spec_step (GuestIn a) (kb_abs kb) =
    (let (v, kb', es) = keyboard_read_reg_byte a kb in (kb_abs kb', [v]))"
proof (cases "kb_buffer_element_count kb = 0")
  case True
  then have "kb_elems kb = []" "keyboard_next_RBR kb = kb" "kb_STR kb = 0"
    using inv by (simp_all add: keyboard_next_RBR_def kb_inv_defs)
  then show ?thesis
    by (simp add: keyboard_read_reg_byte_def Let_def case_prod_beta) (simp add: kb_abs_def)
next
  case False
  have e: "kb_elems kb = kb_RBR (keyboard_next_RBR kb) # kb_elems (keyboard_next_RBR kb)"
    using False inv by (simp add: kb_elems_next_RBR kb_inv_def)
  have "kb_STR kb = 1" using False inv by (simp add: kb_inv_defs)
  then show ?thesis
    using e by (simp add: keyboard_read_reg_byte_def Let_def case_prod_beta) (simp add: kb_abs_def)
qed

lemma kb_abs_insert:
  assumes inv: "kb_inv kb"
  shows "kb_abs (fst (keyboard_insert_keycode_event k kb)) =
    fst (kb_spec_step (KeyEvent k) (kb_abs kb))"
  using kb_elems_insert [OF inv, of k]
  by (auto simp: kb_abs_def keyboard_insert_keycode_event_def keyboard_enqueue_def
      split: if_splits)

lemma kb_step_refines:
  assumes "kb_inv kb"
  shows "kb_spec_step e (kb_abs kb) = (let (kb', out, es) = kb_step e kb in (kb_abs kb', out))"
proof (cases e)
  case (GuestOut a v)
  have "snd (kb_spec_step (GuestOut a v) (kb_abs kb)) = []" by simp
  then show ?thesis
    using GuestOut kb_abs_write [of a v kb] by (simp add: case_prod_beta Let_def prod_eq_iff)
next
  case (GuestIn a)
  then show ?thesis using kb_abs_read [OF assms, of a] by (simp add: case_prod_beta Let_def)
next
  case (KeyEvent k)
  have "snd (kb_spec_step (KeyEvent k) (kb_abs kb)) = []" by simp
  then show ?thesis
    using KeyEvent kb_abs_insert [OF assms, of k] by (simp add: case_prod_beta Let_def prod_eq_iff)
qed

lemma kb_run_refines:
  assumes "kb_inv kb"
  shows "kb_spec_run evs (kb_abs kb) = (let (kb', out, es) = kb_run evs kb in (kb_abs kb', out))"
  using assms
proof (induction evs arbitrary: kb)
  case Nil
  then show ?case by simp
next
  case (Cons e evs)
  show ?case
    using Cons.IH [OF kb_step_inv [OF Cons.prems]] kb_step_refines [OF Cons.prems]
    by (simp add: case_prod_beta Let_def del: kb_spec_step.simps kb_step.simps)
qed

section \<open>The keyboard as a port device\<close>

definition kb_out :: "io_addr \<Rightarrow> u8 \<Rightarrow> keyboard \<Rightarrow> keyboard" where
  "kb_out a v kb = fst (keyboard_write_reg_byte a v kb)"

definition kb_in :: "io_addr \<Rightarrow> keyboard \<Rightarrow> u8 \<times> keyboard" where
  "kb_in a kb = (let (v, kb', _) = keyboard_read_reg_byte a kb in (v, kb'))"

interpretation kbd: port_device kb_out kb_in kb_inv
  by unfold_locales
     (simp_all add: kb_out_def kb_in_def case_prod_beta Let_def keyboard_write_inv keyboard_read_inv)

section \<open>Properties\<close>

text \<open>
  Starting from the constructed keyboard, after any interleaving of guest reads and
  writes with key events from the console thread the keyboard is well formed: the buffer
  indices stay inside the 16-byte array and agree with the element count, the FI bit of the
  status register is set exactly when there is something to read, a raised interrupt implies
  pending data, and pending data with interrupts enabled implies a raised interrupt.
\<close>

theorem keyboard_invariant: "kb_inv (fst (kb_run evs keyboard_new))"
  by (rule kb_run_inv) simp

text \<open>
  (C28) The interrupt line seen by the interrupt controller: after any interleaving, line 1 was
  last driven to 1 exactly when the controller remembers a raised interrupt; it is low when the
  buffer is empty and high when the buffer is not empty and interrupts are enabled, so no
  keystroke is left without its interrupt.
\<close>

theorem keyboard_irq_line:
  assumes run: "kb_run evs keyboard_new = (kb, out, irqs)"
  shows "line_level INT_KEYBOARD irqs 0 = (if kb_interrupt_raised kb then 1 else 0) \<and>
    (kb_elems kb = [] \<longrightarrow> line_level INT_KEYBOARD irqs 0 = 0) \<and>
    (kb_elems kb \<noteq> [] \<and> kb_interrupt_enabled kb \<longrightarrow> line_level INT_KEYBOARD irqs 0 = 1)"
proof -
  have "kb_line keyboard_new = 0" by (simp add: kb_line_def keyboard_new_def)
  then have line: "line_level INT_KEYBOARD irqs 0 = kb_line kb"
    using kb_run_line [of evs keyboard_new] run by simp
  have "kb_irq_wf kb"
    using kb_run_inv [OF keyboard_new_inv, of evs] run by (simp add: kb_inv_def)
  then show ?thesis
    using line by (auto simp: kb_irq_wf_def kb_line_def)
qed

theorem keyboard_irq_line_witness:
  "line_level INT_KEYBOARD (snd (snd (kb_run
     [GuestOut 0x64 0x60, GuestOut 0x60 0x61, KeyEvent 0x1e, KeyEvent 0x9e, GuestIn 0x60]
     keyboard_new))) 0 = 1"
proof -
  let ?evs = "[GuestOut 0x64 0x60, GuestOut 0x60 0x61, KeyEvent 0x1e, KeyEvent 0x9e, GuestIn 0x60]"
  obtain kb out irqs where run: "kb_run ?evs keyboard_new = (kb, out, irqs)"
    by (rule prod_cases3)
  have "kb_elems (fst (kb_run ?evs keyboard_new)) \<noteq> []"
    and "kb_interrupt_enabled (fst (kb_run ?evs keyboard_new))" by code_simp+
  then have "kb_elems kb \<noteq> [] \<and> kb_interrupt_enabled kb" unfolding run by simp
  then have "line_level INT_KEYBOARD irqs 0 = 1" using keyboard_irq_line [OF run] by blast
  then show ?thesis unfolding run by simp
qed

text \<open>
  (C12) The controller refines its specification, a first-in first-out queue of at most 16
  scan codes with an enable bit: every interleaving returns the same bytes to the guest as the
  queue does and ends in the state the abstraction maps to the queue's final state. In
  particular a key is dropped exactly when the keyboard is disabled or 16 codes are waiting.
\<close>

theorem keyboard_refines_queue:
  "kb_spec_run evs kb_spec_init = (let (kb, out, irqs) = kb_run evs keyboard_new in (kb_abs kb, out))"
  using kb_run_refines [OF keyboard_new_inv, of evs] by (simp add: kb_abs_new)

text \<open>
  Round trip through the circular buffer: keys typed on an enabled keyboard that fit
  behind the codes already waiting come out of port 0x60 in typing order, after those codes,
  wherever the buffer indices stand.
\<close>

theorem keyboard_fifo:
  assumes "kb_inv kb" "kb_enabled kb"
    and "length (kb_elems kb) + length ks \<le> INTERNAL_BUFFER_SIZE"
  shows "fst (read_n (length (kb_elems kb) + length ks) kb_fetch (fold kb_type ks kb)) =
    kb_elems kb @ ks"
  using assms by (intro kbq.fifo_order) simp_all

definition kb_example :: keyboard where
  "kb_example = fst (kb_run [GuestOut 0x64 0x60, GuestOut 0x60 0x60, KeyEvent 0x10, GuestIn 0x60,
     KeyEvent 0x11] keyboard_new)"

theorem keyboard_fifo_witness:
  "fst (read_n 3 kb_fetch (fold kb_type [0x1e, 0x9e] kb_example)) = [0x11, 0x1e, 0x9e]"
proof -
  have inv: "kb_inv kb_example" unfolding kb_example_def by (rule kb_run_inv) simp
  have on: "kb_enabled kb_example" and el: "kb_elems kb_example = [0x11]" by code_simp+
  show ?thesis using keyboard_fifo [OF inv on, of "[0x1e, 0x9e]"] by (simp add: el numeral_3_eq_3)
qed

end
