(* ===== verification/SerialPort.thy ===== *)
theory SerialPort
  imports Prelude
begin

text \<open>
  The emulated UART, \<open>frontend/serial_port.h\<close> and \<open>frontend/serial_port.cpp\<close>: twelve
  byte registers at offsets 0 to 7 from a base address, and the characters written to the
  transmitter, which the port copies to the log in the order they arrive.
\<close>

section \<open>State and operations\<close>

record serial_port =
  sp_THR :: u8
  sp_RBR :: u8
  sp_DLL :: u8
  sp_IER :: u8
  sp_DLH :: u8
  sp_IIR :: u8
  sp_FCR :: u8
  sp_LCR :: u8
  sp_MCR :: u8
  sp_LSR :: u8
  sp_MSR :: u8
  sp_SR :: u8
  sp_base_addr :: io_addr
  sp_log :: "u8 list"

text \<open>The constructor; the address constants are the base plus the offsets, at 16 bits.\<close>

definition serial_port_new :: "io_addr \<Rightarrow> serial_port" where
  "serial_port_new base = \<lparr>
     sp_THR = 0, sp_RBR = 0, sp_DLL = 0, sp_IER = 0, sp_DLH = 0, sp_IIR = 0, sp_FCR = 0,
     sp_LCR = 0, sp_MCR = 0, sp_LSR = 0, sp_MSR = 0, sp_SR = 0,
     sp_base_addr = base, sp_log = [] \<rparr>"

abbreviation THR_addr :: "serial_port \<Rightarrow> u16" where "THR_addr p \<equiv> sp_base_addr p + 0"
abbreviation RBR_addr :: "serial_port \<Rightarrow> u16" where "RBR_addr p \<equiv> sp_base_addr p + 0"
abbreviation DLL_addr :: "serial_port \<Rightarrow> u16" where "DLL_addr p \<equiv> sp_base_addr p + 0"
abbreviation IER_addr :: "serial_port \<Rightarrow> u16" where "IER_addr p \<equiv> sp_base_addr p + 1"
abbreviation DLH_addr :: "serial_port \<Rightarrow> u16" where "DLH_addr p \<equiv> sp_base_addr p + 1"
abbreviation IIR_addr :: "serial_port \<Rightarrow> u16" where "IIR_addr p \<equiv> sp_base_addr p + 2"
abbreviation FCR_addr :: "serial_port \<Rightarrow> u16" where "FCR_addr p \<equiv> sp_base_addr p + 2"
abbreviation LCR_addr :: "serial_port \<Rightarrow> u16" where "LCR_addr p \<equiv> sp_base_addr p + 3"
abbreviation MCR_addr :: "serial_port \<Rightarrow> u16" where "MCR_addr p \<equiv> sp_base_addr p + 4"
abbreviation LSR_addr :: "serial_port \<Rightarrow> u16" where "LSR_addr p \<equiv> sp_base_addr p + 5"
abbreviation MSR_addr :: "serial_port \<Rightarrow> u16" where "MSR_addr p \<equiv> sp_base_addr p + 6"
abbreviation SR_addr :: "serial_port \<Rightarrow> u16" where "SR_addr p \<equiv> sp_base_addr p + 7"

text \<open>
  A write stores \<open>addr\<close>, not \<open>val\<close>, into the selected register (\<open>THR=addr\<close> and so on in
  the source), converted to a byte; only the log receives \<open>val\<close>.
\<close>

definition serial_port_write_reg_byte :: "io_addr \<Rightarrow> u8 \<Rightarrow> serial_port \<Rightarrow> serial_port" where
  "serial_port_write_reg_byte addr val p =
     (if addr = THR_addr p then p\<lparr>sp_log := sp_log p @ [val], sp_THR := ucast addr\<rparr>
      else if addr = DLL_addr p then p\<lparr>sp_DLL := ucast addr\<rparr>
      else if addr = IER_addr p then p\<lparr>sp_IER := ucast addr\<rparr>
      else if addr = DLH_addr p then p\<lparr>sp_DLH := ucast addr\<rparr>
      else if addr = FCR_addr p then p\<lparr>sp_FCR := ucast addr\<rparr>
      else if addr = LCR_addr p then p\<lparr>sp_LCR := ucast addr\<rparr>
      else if addr = MCR_addr p then p\<lparr>sp_MCR := ucast addr\<rparr>
      else if addr = SR_addr p then p\<lparr>sp_SR := ucast addr\<rparr>
      else p)"

definition serial_port_read_reg_byte :: "io_addr \<Rightarrow> serial_port \<Rightarrow> u8 \<times> serial_port" where
  "serial_port_read_reg_byte addr p =
     (if addr = RBR_addr p then (sp_RBR p, p)
      else if addr = DLL_addr p then (sp_DLL p, p)
      else if addr = IER_addr p then (sp_IER p, p)
      else if addr = DLH_addr p then (sp_DLH p, p)
      else if addr = IIR_addr p then (sp_IIR p, p)
      else if addr = LCR_addr p then (sp_LCR p, p)
      else if addr = MCR_addr p then (sp_MCR p, p)
      else if addr = LSR_addr p then
        (let p1 = p\<lparr>sp_LSR := sp_LSR p OR 0x20\<rparr> in (sp_LSR p1, p1))
      else if addr = MSR_addr p then (sp_MSR p, p)
      else if addr = SR_addr p then (sp_SR p, p)
      else (0, p))"

lemmas serial_port_defs [reg_defs] =
  serial_port_write_reg_byte_def serial_port_read_reg_byte_def

section \<open>Invariant\<close>

text \<open>
  What holds of a port that was created at \<open>base\<close>: the base never moves, the receiver is
  always empty (nothing ever fills it), the line status has at most the transmitter bit, and
  every writable register holds zero or the low byte of its own address.
\<close>

definition sp_inv :: "io_addr \<Rightarrow> serial_port \<Rightarrow> bool" where
  "sp_inv base p \<longleftrightarrow>
     sp_base_addr p = base \<and> sp_RBR p = 0 \<and> sp_IIR p = 0 \<and> sp_MSR p = 0 \<and>
     sp_DLL p = 0 \<and> sp_DLH p = 0 \<and> sp_LSR p \<in> {0, 0x20} \<and>
     sp_IER p \<in> {0, ucast (base + 1)} \<and> sp_LCR p \<in> {0, ucast (base + 3)} \<and>
     sp_MCR p \<in> {0, ucast (base + 4)} \<and> sp_SR p \<in> {0, ucast (base + 7)}"

lemma sp_inv_new: "sp_inv base (serial_port_new base)"
  by (simp add: sp_inv_def serial_port_new_def)

lemma sp_inv_write: "sp_inv base p \<Longrightarrow> sp_inv base (serial_port_write_reg_byte a v p)"
  by (simp add: sp_inv_def serial_port_write_reg_byte_def)

lemma sp_inv_read: "sp_inv base p \<Longrightarrow> sp_inv base (snd (serial_port_read_reg_byte a p))"
  by (auto simp: sp_inv_def serial_port_read_reg_byte_def Let_def)

interpretation com: port_device serial_port_write_reg_byte serial_port_read_reg_byte "sp_inv base"
  for base
  by unfold_locales (simp_all add: sp_inv_write sp_inv_read)

section \<open>The transmitted text\<close>

fun sp_access :: "port_access \<Rightarrow> serial_port \<Rightarrow> serial_port" where
  "sp_access (PortOut a v) p = serial_port_write_reg_byte a v p"
| "sp_access (PortIn a) p = snd (serial_port_read_reg_byte a p)"

text \<open>The bytes of a sequence of accesses that are writes to the given port.\<close>

fun sent_to :: "io_addr \<Rightarrow> port_access list \<Rightarrow> u8 list" where
  "sent_to b [] = []"
| "sent_to b (PortOut a v # xs) = (if a = b then v # sent_to b xs else sent_to b xs)"
| "sent_to b (PortIn a # xs) = sent_to b xs"

lemma sp_access_eq: "sp_access = com.access"
proof (intro ext)
  show "sp_access x p = com.access x p" for x p by (cases x) simp_all
qed

lemma sp_access_base [simp]: "sp_base_addr (sp_access x p) = sp_base_addr p"
  by (cases x) (simp_all add: serial_port_defs Let_def)

lemma sp_access_log:
  "sp_log (sp_access x p) = sp_log p @ sent_to (sp_base_addr p) [x]"
  by (cases x) (simp_all add: serial_port_defs Let_def)

lemma sent_to_Cons: "sent_to b (x # xs) = sent_to b [x] @ sent_to b xs"
  by (cases x) simp_all

lemma sp_accesses_log:
  "sp_log (fold sp_access xs p) = sp_log p @ sent_to (sp_base_addr p) xs"
proof (induction xs arbitrary: p)
  case Nil
  then show ?case by simp
next
  case (Cons x xs)
  then show ?case by (simp add: sp_access_log sent_to_Cons [of _ x xs])
qed

section \<open>Properties\<close>

text \<open>
  Serial output is faithful: after any sequence of guest accesses to a new port, the log
  holds exactly the bytes the guest wrote to the transmitter register at the base address, in
  order, and nothing else.
\<close>

theorem serial_log_is_output:
  "sp_log (fold sp_access xs (serial_port_new base)) = sent_to base xs"
  by (simp add: sp_accesses_log) (simp add: serial_port_new_def)

text \<open>
  The port always reports an empty transmitter: whatever the guest did before, reading
  the line status register returns 0x20, and the receiver register always reads 0.
\<close>

theorem serial_status:
  "fst (serial_port_read_reg_byte (base + 5) (fold sp_access xs (serial_port_new base))) = 0x20 \<and>
   fst (serial_port_read_reg_byte base (fold sp_access xs (serial_port_new base))) = 0"
proof -
  have "sp_inv base (fold sp_access xs (serial_port_new base))"
    unfolding sp_access_eq by (intro com.accesses_inv sp_inv_new)
  then show ?thesis
    by (auto simp: sp_inv_def serial_port_read_reg_byte_def Let_def)
qed

text \<open>
  Register writes lose their value: the line control register, written with any byte,
  reads back as the low byte of its own port address, because the write stores the address
  instead of the value. The same holds of the interrupt enable, modem control and scratch
  registers.
\<close>

theorem serial_write_stores_address:
  "fst (serial_port_read_reg_byte (sp_base_addr p + 3) (serial_port_write_reg_byte (sp_base_addr p + 3) v p)) =
     ucast (sp_base_addr p + 3) \<and>
   fst (serial_port_read_reg_byte (sp_base_addr p + 1) (serial_port_write_reg_byte (sp_base_addr p + 1) v p)) =
     ucast (sp_base_addr p + 1) \<and>
   fst (serial_port_read_reg_byte (sp_base_addr p + 4) (serial_port_write_reg_byte (sp_base_addr p + 4) v p)) =
     ucast (sp_base_addr p + 4) \<and>
   fst (serial_port_read_reg_byte (sp_base_addr p + 7) (serial_port_write_reg_byte (sp_base_addr p + 7) v p)) =
     ucast (sp_base_addr p + 7)"
  by (simp add: serial_port_defs)

end
