(* ===== verification/VgaController.thy ===== *)
theory VgaController
  imports Prelude
begin

text \<open>
  The text-mode VGA controller, \<open>frontend/vgaController.h\<close> and
  \<open>frontend/vgaController.cpp\<close>: an index register, a data register, and the cursor position
  they give access to. The methods run under the instance mutex.
\<close>

section \<open>State and operations\<close>

abbreviation vga_IND_addr :: io_addr where "vga_IND_addr \<equiv> 0x03D4"
abbreviation vga_DAT_addr :: io_addr where "vga_DAT_addr \<equiv> 0x03D5"
abbreviation CUR_HIGH_ind :: u8 where "CUR_HIGH_ind \<equiv> 0x0e"
abbreviation CUR_LOW_ind :: u8 where "CUR_LOW_ind \<equiv> 0x0f"

text \<open>\<open>_memoryStart\<close> is the offset of the video memory in guest memory, once it is set.\<close>

record vga_controller =
  vga_IND :: u8
  vga_DAT :: u8
  vga_CUR_HIGH :: u8
  vga_CUR_LOW :: u8
  vga_memoryStart :: "nat option"

definition vga_new :: vga_controller where
  "vga_new = \<lparr>vga_IND = 0, vga_DAT = 0, vga_CUR_HIGH = 0, vga_CUR_LOW = 0,
     vga_memoryStart = None\<rparr>"

definition vga_write_reg_byte :: "io_addr \<Rightarrow> u8 \<Rightarrow> vga_controller \<Rightarrow> vga_controller" where
  "vga_write_reg_byte addr val g =
     (if addr = vga_IND_addr then g\<lparr>vga_IND := val\<rparr>
      else if addr = vga_DAT_addr then
        (let g1 = g\<lparr>vga_DAT := val\<rparr>
         in if vga_IND g1 = CUR_HIGH_ind then g1\<lparr>vga_CUR_HIGH := vga_DAT g1\<rparr>
            else if vga_IND g1 = CUR_LOW_ind then g1\<lparr>vga_CUR_LOW := vga_DAT g1\<rparr>
            else g1)
      else g)"

definition vga_read_reg_byte :: "io_addr \<Rightarrow> vga_controller \<Rightarrow> u8 \<times> vga_controller" where
  "vga_read_reg_byte addr g =
     (if addr = vga_IND_addr then (vga_IND g, g)
      else if addr = vga_DAT_addr then
        (if vga_IND g = CUR_HIGH_ind then
           (let g1 = g\<lparr>vga_DAT := vga_CUR_HIGH g\<rparr> in (vga_DAT g1, g1))
         else if vga_IND g = CUR_LOW_ind then
           (let g1 = g\<lparr>vga_DAT := vga_CUR_LOW g\<rparr> in (vga_DAT g1, g1))
         else (0, g))
      else (0, g))"

text \<open>The shift and the sum are computed at \<open>int\<close> and converted back to 16 bits.\<close>

definition vga_cursorPosition :: "vga_controller \<Rightarrow> u16" where
  "vga_cursorPosition g = push_bit 8 (ucast (vga_CUR_HIGH g)) + ucast (vga_CUR_LOW g)"

definition vga_setVMem :: "nat \<Rightarrow> vga_controller \<Rightarrow> vga_controller" where
  "vga_setVMem mem g = g\<lparr>vga_memoryStart := Some mem\<rparr>"

definition vga_getVMem :: "vga_controller \<Rightarrow> nat option" where
  "vga_getVMem g = vga_memoryStart g"

lemmas vga_defs [reg_defs] = vga_write_reg_byte_def vga_read_reg_byte_def vga_cursorPosition_def

section \<open>Specification: an indexed register file\<close>

text \<open>
  Seen by a driver the controller is a memory of two cursor bytes selected by the index
  register; a write to any other index is lost.
\<close>

fun vga_access :: "port_access \<Rightarrow> vga_controller \<Rightarrow> vga_controller" where
  "vga_access (PortOut a v) g = vga_write_reg_byte a v g"
| "vga_access (PortIn a) g = snd (vga_read_reg_byte a g)"

interpretation vgad: port_device vga_write_reg_byte vga_read_reg_byte
  "\<lambda>g. vga_memoryStart g = m" for m
  by unfold_locales (simp_all add: vga_write_reg_byte_def vga_read_reg_byte_def Let_def)

lemma vga_access_eq: "vga_access = vgad.access"
proof (intro ext)
  show "vga_access x g = vgad.access x g" for x g by (cases x) simp_all
qed

text \<open>The driver's sequence for one cursor byte, as in the guest library.\<close>

definition vga_select :: "u8 \<Rightarrow> u8 \<Rightarrow> port_access list" where
  "vga_select ind v = [PortOut vga_IND_addr ind, PortOut vga_DAT_addr v]"

definition vga_read_ind :: "u8 \<Rightarrow> vga_controller \<Rightarrow> u8" where
  "vga_read_ind ind g = fst (vga_read_reg_byte vga_DAT_addr (vga_write_reg_byte vga_IND_addr ind g))"

lemma unat_cursor:
  "unat (vga_cursorPosition g) = 256 * unat (vga_CUR_HIGH g) + unat (vga_CUR_LOW g)"
proof -
  have h: "unat (vga_CUR_HIGH g) < 256" "unat (vga_CUR_LOW g) < 256" by (rule unat_u8_less)+
  have "unat (push_bit 8 (ucast (vga_CUR_HIGH g)) :: u16) = 256 * unat (vga_CUR_HIGH g)"
    using h by (simp add: push_bit_eq_mult unat_word_ariths unsigned_ucast_eq take_bit_eq_mod)
  then show ?thesis
    using h by (simp add: vga_cursorPosition_def unat_word_ariths unsigned_ucast_eq take_bit_eq_mod)
qed

section \<open>Properties\<close>

text \<open>
  Cursor round trip: after the driver writes the two cursor bytes through the index and
  data ports, in either order and from any state, the position the console output thread
  reads is \<open>256 * hi + lo\<close>, and both bytes read back through the data port.
\<close>

theorem vga_cursor_roundtrip:
  "(let g1 = fold vga_access (vga_select CUR_HIGH_ind hi @ vga_select CUR_LOW_ind lo) g in
      unat (vga_cursorPosition g1) = 256 * unat hi + unat lo \<and>
      vga_read_ind CUR_HIGH_ind g1 = hi \<and> vga_read_ind CUR_LOW_ind g1 = lo) \<and>
   (let g2 = fold vga_access (vga_select CUR_LOW_ind lo @ vga_select CUR_HIGH_ind hi) g in
      unat (vga_cursorPosition g2) = 256 * unat hi + unat lo \<and>
      vga_read_ind CUR_HIGH_ind g2 = hi \<and> vga_read_ind CUR_LOW_ind g2 = lo)"
  by (simp add: unat_cursor vga_select_def vga_read_ind_def vga_write_reg_byte_def
      vga_read_reg_byte_def Let_def)

text \<open>
  Reads have no visible effect and the video memory stays attached: no sequence of guest
  accesses changes the video memory pointer, and a read leaves the cursor position, the index
  and every later read unchanged.
\<close>

theorem vga_reads_are_pure:
  "vga_getVMem (fold vga_access xs (vga_setVMem m g)) = Some m \<and>
   vga_cursorPosition (snd (vga_read_reg_byte a g)) = vga_cursorPosition g \<and>
   fst (vga_read_reg_byte b (snd (vga_read_reg_byte a g))) = fst (vga_read_reg_byte b g)"
proof -
  have "vga_memoryStart (fold vgad.access xs (vga_setVMem m g)) = Some m"
    by (rule vgad.accesses_inv) (simp add: vga_setVMem_def)
  then have "vga_getVMem (fold vga_access xs (vga_setVMem m g)) = Some m"
    by (simp add: vga_access_eq vga_getVMem_def)
  then show ?thesis
    by (simp add: vga_read_reg_byte_def vga_cursorPosition_def Let_def)
qed

end
