(* ===== verification/DiskManager.thy ===== *)
theory DiskManager
  imports Prelude
begin

text \<open>
  The disk image backend, \<open>backend/DiskManager.h\<close> and \<open>backend/DiskManager.cpp\<close>: blocks of
  512 bytes in the host file \<open>disk.bin\<close>. The host file is part of the state; what
  \<open>std::fstream\<close> does with it (open, size, positioned read and write) is written out.
\<close>

section \<open>State\<close>

abbreviation BLOCK_SIZE_BYTE :: nat where "BLOCK_SIZE_BYTE \<equiv> 512"

datatype disk_status = NO_ERRORS | OUT_OF_BOUND | FILE_ERROR_OPEN | FILE_ERROR_SIZE

record disk_manager =
  dm_disk_size :: u64

text \<open>The file: absent or its bytes, and whether this process may open it to read and to write.\<close>

record host_file =
  hf_contents :: "u8 list option"
  hf_readable :: bool
  hf_writable :: bool

section \<open>Operations\<close>

text \<open>
  \<open>check_consistency\<close>: a stream that failed to open reports position \<open>-1\<close>, which becomes
  the largest 64-bit value.
\<close>

definition hf_tellg_end :: "host_file \<Rightarrow> u64" where
  "hf_tellg_end f =
     (case hf_contents f of
        Some c \<Rightarrow> if hf_readable f then of_nat (length c) else - 1
      | None \<Rightarrow> - 1)"

definition check_consistency :: "disk_manager \<Rightarrow> host_file \<Rightarrow> bool" where
  "check_consistency dm f \<longleftrightarrow> hf_tellg_end f = dm_disk_size dm"

text \<open>
  \<open>build_disk\<close> writes an uninitialised buffer (\<open>junk\<close>) once per block. The counter is an
  \<open>int\<close>: stepping it past \<open>INT_MAX\<close> is undefined.
\<close>

function build_loop :: "nat \<Rightarrow> nat \<Rightarrow> u8 list \<Rightarrow> u8 list \<Rightarrow> u8 list res" where
  "build_loop i sz junk acc =
     (if i < sz then
        (if i + BLOCK_SIZE_BYTE \<ge> 2 ^ 31 then Inl SignedOverflow
         else build_loop (i + BLOCK_SIZE_BYTE) sz junk (acc @ junk))
      else Inr acc)"
  by pat_completeness auto
termination
  by (relation "measure (\<lambda>(i, sz, junk, acc). sz - i)") auto

declare build_loop.simps [simp del]

definition build_disk :: "u8 list \<Rightarrow> disk_manager \<Rightarrow> host_file \<Rightarrow> host_file res" where
  "build_disk junk dm f =
     bind_res (build_loop 0 (unat (dm_disk_size dm)) junk [])
       (\<lambda>bytes. Inr (if hf_writable f then f\<lparr>hf_contents := Some bytes\<rparr> else f))"

text \<open>
  The constructor. \<open>blocks_number*BLOCK_SIZE_BYTE\<close> is a product of 32-bit unsigned values
  and is widened afterwards.
\<close>

definition DiskManager_new :: "u8 list \<Rightarrow> u32 \<Rightarrow> host_file \<Rightarrow> (disk_manager \<times> host_file) res" where
  "DiskManager_new junk blocks_number f =
     (let dm = \<lparr>dm_disk_size = ucast (blocks_number * 512)\<rparr>
      in if \<not> check_consistency dm f
         then bind_res (build_disk junk dm f) (\<lambda>f1. Inr (dm, f1))
         else Inr (dm, f))"

text \<open>\<open>block_index * BLOCK_SIZE_BYTE\<close>, likewise a 32-bit product stored in 64 bits.\<close>

definition block_address :: "u32 \<Rightarrow> u64" where
  "block_address block_index = ucast (block_index * 512)"

definition DiskManager_read ::
  "disk_manager \<Rightarrow> u8 list \<Rightarrow> u32 \<Rightarrow> host_file \<Rightarrow> disk_status \<times> u8 list" where
  "DiskManager_read dm buffer block_index f =
     (if block_address block_index \<ge> dm_disk_size dm then (OUT_OF_BOUND, buffer)
      else if \<not> check_consistency dm f then (FILE_ERROR_SIZE, buffer)
      else
        (case hf_contents f of
           None \<Rightarrow> (FILE_ERROR_OPEN, buffer)
         | Some c \<Rightarrow>
             if \<not> hf_readable f then (FILE_ERROR_OPEN, buffer)
             else
               (let got = get_bytes (unat (block_address block_index)) BLOCK_SIZE_BYTE c;
                    buffer1 = got @ drop (length got) buffer
                in if \<not> check_consistency dm f then (FILE_ERROR_SIZE, buffer1)
                   else (NO_ERRORS, buffer1))))"

definition DiskManager_write ::
  "disk_manager \<Rightarrow> u8 list \<Rightarrow> u32 \<Rightarrow> host_file \<Rightarrow> disk_status \<times> host_file" where
  "DiskManager_write dm buffer block_index f =
     (if block_address block_index \<ge> dm_disk_size dm then (OUT_OF_BOUND, f)
      else if \<not> check_consistency dm f then (FILE_ERROR_SIZE, f)
      else
        (case hf_contents f of
           None \<Rightarrow> (FILE_ERROR_OPEN, f)
         | Some c \<Rightarrow>
             if \<not> (hf_readable f \<and> hf_writable f) then (FILE_ERROR_OPEN, f)
             else
               (let f1 = f\<lparr>hf_contents := Some (put_bytes (unat (block_address block_index))
                            (take BLOCK_SIZE_BYTE buffer) c)\<rparr>
                in if \<not> check_consistency dm f1 then (FILE_ERROR_SIZE, f1)
                   else (NO_ERRORS, f1))))"

section \<open>Well-formed disks\<close>

text \<open>A disk of \<open>nb\<close> blocks: the manager's size and the file agree, and the 32-bit
  products do not wrap.\<close>

definition disk_of :: "nat \<Rightarrow> disk_manager" where
  "disk_of nb = \<lparr>dm_disk_size = of_nat (512 * nb)\<rparr>"

definition disk_ok :: "nat \<Rightarrow> host_file \<Rightarrow> bool" where
  "disk_ok nb f \<longleftrightarrow>
     (\<exists>c. hf_contents f = Some c \<and> length c = 512 * nb) \<and>
     hf_readable f \<and> hf_writable f \<and> nb < 2 ^ 23"

definition file_block :: "nat \<Rightarrow> host_file \<Rightarrow> u8 list" where
  "file_block n f = get_bytes (512 * n) 512 (the (hf_contents f))"

lemma disk_okE [elim?]:
  assumes "disk_ok nb f"
  obtains c where "hf_contents f = Some c" "length c = 512 * nb" "hf_readable f"
    "hf_writable f" "nb < 2 ^ 23"
  using assms by (auto simp: disk_ok_def)

lemma unat_of_nat_small_u64: "n < 2 ^ 64 \<Longrightarrow> unat (of_nat n :: u64) = n"
  by (simp add: unat_of_nat)

lemma unat_disk_size: "nb < 2 ^ 23 \<Longrightarrow> unat (dm_disk_size (disk_of nb)) = 512 * nb"
  unfolding disk_of_def by (simp only: disk_manager.select_convs) (rule unat_of_nat_small_u64, simp)

lemma unat_block_address:
  assumes "n < 2 ^ 23"
  shows "unat (block_address (of_nat n)) = 512 * n"
proof -
  have "(of_nat n * 512 :: u32) = of_nat (512 * n)" by simp
  then have "unat (of_nat n * 512 :: u32) = 512 * n"
    using assms by (simp only: unat_of_nat) simp
  then show ?thesis
    using assms by (simp add: block_address_def unsigned_ucast_eq take_bit_nat_eq_self)
qed

lemma check_consistency_ok: "disk_ok nb f \<Longrightarrow> check_consistency (disk_of nb) f"
  by (auto simp: disk_ok_def check_consistency_def hf_tellg_end_def disk_of_def)

lemma address_in_disk:
  assumes "n < 2 ^ 23" "nb < 2 ^ 23"
  shows "block_address (of_nat n) \<ge> dm_disk_size (disk_of nb) \<longleftrightarrow> nb \<le> n"
  using assms by (simp add: word_le_nat_alt unat_disk_size unat_block_address)

lemma DiskManager_read_ok:
  assumes "disk_ok nb f" "n < nb" "length buffer = 512"
  shows "DiskManager_read (disk_of nb) buffer (of_nat n) f = (NO_ERRORS, file_block n f)"
proof -
  obtain c where c: "hf_contents f = Some c" "length c = 512 * nb" "hf_readable f" "nb < 2 ^ 23"
    using assms(1) by (rule disk_okE)
  have n: "n < 2 ^ 23" using assms(2) c(4) by simp
  have "length (get_bytes (512 * n) 512 c) = 512"
    using assms(2) c(2) by (intro length_get_bytes) simp
  then show ?thesis
    using assms c n check_consistency_ok [OF assms(1)]
    by (simp add: DiskManager_read_def address_in_disk unat_block_address file_block_def Let_def)
qed

text \<open>The state after a successful write of block \<open>n\<close>.\<close>

definition file_put :: "u8 list \<Rightarrow> nat \<Rightarrow> host_file \<Rightarrow> host_file" where
  "file_put b n f = f\<lparr>hf_contents := Some (put_bytes (512 * n) b (the (hf_contents f)))\<rparr>"

lemma file_put_ok:
  assumes "disk_ok nb f" "n < nb" "length b = 512"
  shows "disk_ok nb (file_put b n f)"
  using assms by (auto simp: disk_ok_def file_put_def length_put_bytes)

lemma DiskManager_write_ok:
  assumes "disk_ok nb f" "n < nb" "length b = 512"
  shows "DiskManager_write (disk_of nb) b (of_nat n) f = (NO_ERRORS, file_put b n f)"
proof -
  obtain c where c: "hf_contents f = Some c" "length c = 512 * nb" "hf_readable f" "hf_writable f"
    "nb < 2 ^ 23" using assms(1) by (rule disk_okE)
  have n: "n < 2 ^ 23" using assms(2) c(5) by simp
  show ?thesis
    using assms c n check_consistency_ok [OF assms(1)] check_consistency_ok [OF file_put_ok [OF assms]]
    by (simp add: DiskManager_write_def address_in_disk unat_block_address file_put_def Let_def)
qed

lemma file_block_put_same:
  assumes "disk_ok nb f" "n < nb" "length b = 512"
  shows "file_block n (file_put b n f) = b"
  using assms get_put_same [of "512 * n" b "the (hf_contents f)"]
  by (auto simp: disk_ok_def file_block_def file_put_def)

lemma file_block_put_other:
  assumes "disk_ok nb f" "n < nb" "m < nb" "m \<noteq> n" "length b = 512"
  shows "file_block m (file_put b n f) = file_block m f"
proof -
  obtain c where c: "hf_contents f = Some c" "length c = 512 * nb" using assms(1) by (rule disk_okE)
  have "512 * m + 512 \<le> 512 * n \<or> 512 * n + 512 \<le> 512 * m" using assms(4) by linarith
  then have "get_bytes (512 * m) 512 (put_bytes (512 * n) b c) = get_bytes (512 * m) 512 c"
    using assms c by (intro get_put_disjoint) simp_all
  then show ?thesis using c by (simp add: file_block_def file_put_def)
qed

section \<open>The interface of a block store\<close>

text \<open>
  What the hard disk relies on: a block that was written is read back, other blocks keep
  their contents, and a write keeps the store well formed. The client's lemma is about a run
  of consecutive blocks, the shape of a multi-sector transfer.
\<close>

locale block_store =
  fixes rd :: "nat \<Rightarrow> 's \<Rightarrow> 'b"
    and wr :: "'b \<Rightarrow> nat \<Rightarrow> 's \<Rightarrow> 's"
    and ok :: "'s \<Rightarrow> bool"
    and blk :: "'b \<Rightarrow> bool"
    and nblocks :: nat
  assumes wr_ok: "ok s \<Longrightarrow> n < nblocks \<Longrightarrow> blk b \<Longrightarrow> ok (wr b n s)"
    and rd_same: "ok s \<Longrightarrow> n < nblocks \<Longrightarrow> blk b \<Longrightarrow> rd n (wr b n s) = b"
    and rd_other: "ok s \<Longrightarrow> n < nblocks \<Longrightarrow> m < nblocks \<Longrightarrow> m \<noteq> n \<Longrightarrow> blk b \<Longrightarrow> rd m (wr b n s) = rd m s"
begin

primrec wr_run :: "'b list \<Rightarrow> nat \<Rightarrow> 's \<Rightarrow> 's" where
  "wr_run [] n s = s"
| "wr_run (b # bs) n s = wr_run bs (Suc n) (wr b n s)"

lemma wr_run_ok:
  "ok s \<Longrightarrow> n + length bs \<le> nblocks \<Longrightarrow> list_all blk bs \<Longrightarrow> ok (wr_run bs n s)"
  by (induction bs arbitrary: n s) (simp_all add: wr_ok)

lemma wr_run_rd:
  "ok s \<Longrightarrow> n + length bs \<le> nblocks \<Longrightarrow> list_all blk bs \<Longrightarrow> m < nblocks \<Longrightarrow>
   rd m (wr_run bs n s) = (if n \<le> m \<and> m < n + length bs then bs ! (m - n) else rd m s)"
proof (induction bs arbitrary: n s)
  case Nil
  then show ?case by auto
next
  case (Cons b bs)
  have ok: "ok (wr b n s)" using Cons.prems by (simp add: wr_ok)
  have rest: "rd m (wr_run bs (Suc n) (wr b n s)) =
      (if Suc n \<le> m \<and> m < Suc n + length bs then bs ! (m - Suc n) else rd m (wr b n s))"
    using Cons.prems by (intro Cons.IH ok) simp_all
  have "rd m (wr b n s) = (if m = n then b else rd m s)"
    using Cons.prems by (simp add: rd_same rd_other)
  moreover have "(b # bs) ! (m - n) = bs ! (m - Suc n)" if "n < m"
    using that by (simp add: nth_Cons')
  ultimately show ?case using rest by auto
qed

end

interpretation disk: block_store file_block file_put "disk_ok nb" "\<lambda>b. length b = 512" nb for nb
  by unfold_locales (simp_all add: file_put_ok file_block_put_same file_block_put_other)

section \<open>Construction\<close>

lemma build_loop_blocks:
  assumes "sz = i + 512 * k" "sz < 2 ^ 31"
  shows "build_loop i sz junk acc = Inr (acc @ concat (replicate k junk))"
  using assms
proof (induction k arbitrary: i acc)
  case 0
  then show ?case by (simp add: build_loop.simps)
next
  case (Suc k)
  have "build_loop i sz junk acc = build_loop (i + 512) sz junk (acc @ junk)"
    using Suc.prems by (subst build_loop.simps) simp
  also have "\<dots> = Inr ((acc @ junk) @ concat (replicate k junk))"
    using Suc.prems by (intro Suc.IH) simp_all
  finally show ?case by simp
qed

lemma DiskManager_new_disk_of:
  assumes "nb < 2 ^ 23"
  shows "\<lparr>dm_disk_size = ucast (of_nat nb * 512 :: u32)\<rparr> = disk_of nb"
proof -
  have "unat (ucast (of_nat nb * 512 :: u32) :: u64) = 512 * nb"
    using unat_block_address [OF assms] by (simp add: block_address_def)
  moreover have "unat (of_nat (512 * nb) :: u64) = 512 * nb"
    using assms by (intro unat_of_nat_small_u64) simp
  ultimately show ?thesis by (simp add: disk_of_def word_unat_eq_iff)
qed

section \<open>Properties\<close>

text \<open>
  (C34) Write then read: on a well-formed disk, writing a 512-byte block succeeds and keeps the
  disk well formed; reading the same block returns the data, reading any other block of the
  disk returns what it held before.
\<close>

theorem disk_write_read:
  assumes "disk_ok nb f" "n < nb" "m < nb" "length b = 512" "length buffer = 512"
    and "DiskManager_write (disk_of nb) b (of_nat n) f = (st, f')"
  shows "st = NO_ERRORS \<and> disk_ok nb f' \<and>
    DiskManager_read (disk_of nb) buffer (of_nat m) f' =
      (NO_ERRORS, if m = n then b else file_block m f)"
proof -
  have st: "st = NO_ERRORS" and f': "f' = file_put b n f"
    using assms DiskManager_write_ok [of nb f n b] by simp_all
  have ok: "disk_ok nb f'" using assms f' by (simp add: disk.wr_ok)
  then have "DiskManager_read (disk_of nb) buffer (of_nat m) f' = (NO_ERRORS, file_block m f')"
    using assms by (intro DiskManager_read_ok)
  moreover have "file_block m f' = (if m = n then b else file_block m f)"
    using assms f' by (simp add: disk.rd_same disk.rd_other)
  ultimately show ?thesis using st ok by simp
qed

definition small_file :: host_file where
  "small_file = \<lparr>hf_contents = Some (replicate 1024 7), hf_readable = True, hf_writable = True\<rparr>"

theorem disk_write_read_witness:
  "DiskManager_read (disk_of 2) (replicate 512 0) (of_nat 1)
     (snd (DiskManager_write (disk_of 2) (replicate 512 9) (of_nat 1) small_file)) =
   (NO_ERRORS, replicate 512 9)"
proof -
  have ok: "disk_ok 2 small_file" by (simp add: disk_ok_def small_file_def)
  have lt: "(1::nat) < 2" by simp
  show ?thesis
    using disk_write_read [OF ok lt lt length_replicate length_replicate surjective_pairing]
    by simp
qed

lemma constructed_size:
  assumes "DiskManager_new junk nb f0 = Inr (dm, f1)"
  shows "dm_disk_size dm \<noteq> - 1"
proof
  have dm: "dm_disk_size dm = ucast (nb * 512)"
    using assms by (auto simp: DiskManager_new_def Let_def split: if_splits)
  assume "dm_disk_size dm = - 1"
  then have "unat (ucast (nb * 512) :: u64) = unat (- 1 :: u64)" using dm by simp
  moreover have "unat (ucast (nb * 512) :: u64) < 2 ^ 32"
    using unsigned_less [where w = "nb * 512" and 'a = nat]
    by (simp add: unsigned_ucast_eq take_bit_nat_eq_self)
  ultimately show False by (simp add: unsigned_minus_1_eq_mask mask_eq_exp_minus_1)
qed

text \<open>
  Errors have no effect: a write that does not return \<open>NO_ERRORS\<close> leaves the file as it
  was unless the size check after the write fails; a read never returns the open error, because
  the consistency check before it already needs the file to open; an index whose byte address
  lies outside the disk is always reported.
\<close>

theorem disk_errors:
  assumes "DiskManager_new junk nb f0 = Inr (dm, f1)"
  shows "(block_address i \<ge> dm_disk_size dm \<longrightarrow>
      DiskManager_read dm buf i f = (OUT_OF_BOUND, buf) \<and>
      DiskManager_write dm buf i f = (OUT_OF_BOUND, f)) \<and>
   fst (DiskManager_read dm buf i f) \<noteq> FILE_ERROR_OPEN \<and>
   (fst (DiskManager_write dm buf i f) = FILE_ERROR_OPEN \<longrightarrow>
      \<not> hf_writable f \<and> snd (DiskManager_write dm buf i f) = f) \<and>
   (\<not> check_consistency dm f \<longrightarrow> snd (DiskManager_write dm buf i f) = f \<and>
      snd (DiskManager_read dm buf i f) = buf)"
proof -
  have "hf_contents f \<noteq> None \<and> hf_readable f" if "check_consistency dm f"
  proof -
    have "hf_tellg_end f \<noteq> - 1"
      using that constructed_size [OF assms] by (simp add: check_consistency_def)
    then show ?thesis by (auto simp: hf_tellg_end_def split: option.splits if_splits)
  qed
  then show ?thesis
    by (auto simp: DiskManager_read_def DiskManager_write_def Let_def split: option.splits)
qed

theorem disk_errors_witness:
  "fst (DiskManager_write (disk_of 2) (replicate 512 9) 0 (small_file\<lparr>hf_writable := False\<rparr>)) =
     FILE_ERROR_OPEN \<and>
   DiskManager_read (disk_of 2) [] 2 small_file = (OUT_OF_BOUND, [])"
proof -
  have new: "DiskManager_new [] 2 small_file = Inr (disk_of 2, small_file)"
    by (simp add: DiskManager_new_def check_consistency_def hf_tellg_end_def small_file_def
        disk_of_def Let_def)
  have "block_address 2 \<ge> dm_disk_size (disk_of 2)" by (simp add: block_address_def disk_of_def)
  moreover have "fst (DiskManager_write (disk_of 2) (replicate 512 9) 0
      (small_file\<lparr>hf_writable := False\<rparr>)) = FILE_ERROR_OPEN"
    by (simp add: DiskManager_write_def block_address_def disk_of_def small_file_def
        check_consistency_def hf_tellg_end_def)
  ultimately show ?thesis using disk_errors [OF new] by blast
qed

text \<open>
  (C35) The constructor leaves a usable disk: for fewer than 2^22 blocks and a host file that
  may be opened for reading and writing, construction finishes and the file has exactly the
  requested number of 512-byte blocks, whether it was missing, of the wrong size, or already
  right (in which case it is not touched).
\<close>

theorem disk_construction:
  assumes "nb < 2 ^ 22" "length junk = 512" "hf_readable f" "hf_writable f"
    and host: "\<And>c. hf_contents f = Some c \<Longrightarrow> length c < 2 ^ 63"
  shows "\<exists>f'. DiskManager_new junk (of_nat nb) f = Inr (disk_of nb, f') \<and> disk_ok nb f' \<and>
    (disk_ok nb f \<longrightarrow> f' = f)"
proof (cases "check_consistency (disk_of nb) f")
  case True
  have "unat (dm_disk_size (disk_of nb)) = 512 * nb" using assms(1) by (simp add: unat_disk_size)
  then have u: "unat (hf_tellg_end f) = 512 * nb" using True by (simp add: check_consistency_def)
  then have "hf_tellg_end f \<noteq> - 1" using assms(1) by (auto simp: unsigned_minus_1_eq_mask mask_eq_exp_minus_1)
  then obtain c where c: "hf_contents f = Some c" "hf_tellg_end f = of_nat (length c)"
    by (auto simp: hf_tellg_end_def split: option.splits if_splits)
  then have "length c = 512 * nb" using u host [OF c(1)] by (simp add: unat_of_nat_small_u64)
  then have "disk_ok nb f" using c assms by (simp add: disk_ok_def)
  then show ?thesis
    using True assms(1) by (simp add: DiskManager_new_def DiskManager_new_disk_of Let_def)
next
  case False
  then have nok: "\<not> disk_ok nb f" using check_consistency_ok by blast
  let ?f = "f\<lparr>hf_contents := Some (concat (replicate nb junk))\<rparr>"
  have "build_loop 0 (512 * nb) junk [] = Inr (concat (replicate nb junk))"
    using build_loop_blocks [of "512 * nb" 0 nb junk "[]"] assms(1) by simp
  moreover have "unat (dm_disk_size (disk_of nb)) = 512 * nb"
    using assms(1) by (simp add: unat_disk_size)
  ultimately have "build_disk junk (disk_of nb) f = Inr ?f"
    using assms by (simp add: build_disk_def)
  moreover have "disk_ok nb ?f"
    using assms by (simp add: disk_ok_def length_concat sum_list_replicate)
  ultimately show ?thesis
    using False nok assms(1) by (simp add: DiskManager_new_def DiskManager_new_disk_of Let_def)
qed

definition no_file :: host_file where
  "no_file = \<lparr>hf_contents = None, hf_readable = True, hf_writable = True\<rparr>"

theorem disk_construction_witness:
  "\<exists>f'. DiskManager_new (replicate 512 5) 4 no_file = Inr (disk_of 4, f') \<and> disk_ok 4 f'"
  using disk_construction [of 4 "replicate 512 5" no_file] by (auto simp: no_file_def)

text \<open>
  Block addresses wrap at 32 bits: contrary to the comment that the product is extended
  to 64 bits, an index and the same index plus 2^23 name the same bytes of the image, for
  reading and for writing, so an access far beyond the end of a disk is not out of bounds but
  aliases an existing block.
\<close>

theorem disk_address_wraps:
  "DiskManager_read dm buf (i + 2 ^ 23) f = DiskManager_read dm buf i f \<and>
   DiskManager_write dm buf (i + 2 ^ 23) f = DiskManager_write dm buf i f"
proof -
  have "(2 ^ 23 * 512 :: u32) = 0" by simp
  then have "(i + 2 ^ 23) * 512 = i * 512" by (simp only: distrib_right) simp
  then have "block_address (i + 2 ^ 23) = block_address i" by (simp only: block_address_def)
  then show ?thesis by (simp only: DiskManager_read_def DiskManager_write_def)
qed

end
