(* ===== verification/HardDisk.thy ===== *)
theory HardDisk
  imports DiskManager
begin

text \<open>
  The emulated IDE hard disk, \<open>frontend/HardDisk.h\<close> and \<open>frontend/HardDisk.cpp\<close>: its task
  file, the 512-byte sector buffer that the data register fills and drains one 16-bit word at
  a time, and the interrupt line 14. The image behind it is the disk manager and its host
  file, which are fields of the state.
\<close>

section \<open>State\<close>

abbreviation INT_IDE_HDD :: u16 where "INT_IDE_HDD \<equiv> 14"
abbreviation BR_addr :: io_addr where "BR_addr \<equiv> 0x01F0"
abbreviation ERR_addr :: io_addr where "ERR_addr \<equiv> 0x01F1"
abbreviation SCR_addr :: io_addr where "SCR_addr \<equiv> 0x01F2"
abbreviation SNR_addr :: io_addr where "SNR_addr \<equiv> 0x01F3"
abbreviation CNL_addr :: io_addr where "CNL_addr \<equiv> 0x01F4"
abbreviation CNH_addr :: io_addr where "CNH_addr \<equiv> 0x01F5"
abbreviation HND_addr :: io_addr where "HND_addr \<equiv> 0x01F6"
abbreviation CMD_addr :: io_addr where "CMD_addr \<equiv> 0x01F7"
abbreviation STS_addr :: io_addr where "STS_addr \<equiv> 0x01F7"
abbreviation DCR_addr :: io_addr where "DCR_addr \<equiv> 0x03F6"
abbreviation ASR_addr :: io_addr where "ASR_addr \<equiv> 0x03F6"
abbreviation DAR_addr :: io_addr where "DAR_addr \<equiv> 0x03F7"
abbreviation BUSY_MASK :: u8 where "BUSY_MASK \<equiv> 0x80"
abbreviation DRQ_MASK :: u8 where "DRQ_MASK \<equiv> 0x08"

text \<open>
  \<open>new_buffer\<close> is null or points to the start of \<open>internal_buffer\<close> (\<open>hd_new_buffer\<close> says
  which); nothing else is ever stored in it. The \<open>int\<close> counters are natural numbers.
\<close>

record hard_disk =
  hd_BR :: u16
  hd_SCR :: u8
  hd_SNR :: u8
  hd_CNH :: u8
  hd_CNL :: u8
  hd_HND :: u8
  hd_ERR :: u8
  hd_STS :: u8
  hd_CMD :: u8
  hd_DCR :: u8
  hd_DAR :: u8
  hd_ASR :: u8
  hd_interrupt_enabled :: bool
  hd_internal_buffer :: "u8 list"
  hd_new_buffer :: bool
  hd_current_position :: nat
  hd_sector_numbers_cmd :: nat
  hd_current_sector_number :: nat
  hd_lba :: u32
  hd_num_sector_hdd :: u32
  hd_disk_manager :: disk_manager
  hd_file :: host_file
  hd_interrupt_raised :: bool

text \<open>The constructor, for the static instance \<open>hdd\<close> of \<open>kvm.cpp\<close>.\<close>

definition HardDisk_new :: "u8 list \<Rightarrow> u32 \<Rightarrow> host_file \<Rightarrow> hard_disk res" where
  "HardDisk_new junk num_sector f =
     bind_res (DiskManager_new junk num_sector f) (\<lambda>(dm, f1). Inr \<lparr>
       hd_BR = 0, hd_SCR = 0, hd_SNR = 0, hd_CNH = 0, hd_CNL = 0, hd_HND = 0, hd_ERR = 0,
       hd_STS = 0, hd_CMD = 0, hd_DCR = 0x02, hd_DAR = 0, hd_ASR = 0,
       hd_interrupt_enabled = False, hd_internal_buffer = replicate BLOCK_SIZE_BYTE 0,
       hd_new_buffer = False, hd_current_position = 0, hd_sector_numbers_cmd = 0,
       hd_current_sector_number = 0, hd_lba = 0, hd_num_sector_hdd = num_sector,
       hd_disk_manager = dm, hd_file = f1, hd_interrupt_raised = False \<rparr>)"

section \<open>Operations\<close>

definition compute_lba :: "hard_disk \<Rightarrow> u32" where
  "compute_lba d =
     (push_bit 24 (ucast (hd_HND d)) + push_bit 16 (ucast (hd_CNH d)) +
      push_bit 8 (ucast (hd_CNL d)) + ucast (hd_SNR d)) AND 0x0FFFFFFF"

text \<open>
  The status of \<open>disk_manager.read\<close> is ignored; the sector counter is incremented after its
  value was added to the block address.
\<close>

definition read_from_backend :: "hard_disk \<Rightarrow> hard_disk \<times> irq_event list" where
  "read_from_backend d =
     (let d1 = d\<lparr>hd_internal_buffer :=
                    snd (DiskManager_read (hd_disk_manager d) (hd_internal_buffer d)
                      (hd_lba d + of_nat (hd_current_sector_number d)) (hd_file d)),
                   hd_current_sector_number := hd_current_sector_number d + 1\<rparr>
      in if hd_interrupt_enabled d1
         then (d1\<lparr>hd_interrupt_raised := True\<rparr>, [(INT_IDE_HDD, 1)])
         else (d1, []))"

definition HardDisk_process_cmd :: "hard_disk \<Rightarrow> hard_disk \<times> irq_event list" where
  "HardDisk_process_cmd d =
     (let (d1, es) =
        (if hd_CMD d = 0x30 then
           (d\<lparr>hd_STS := (hd_STS d OR DRQ_MASK) AND NOT BUSY_MASK\<rparr>, [])
         else if hd_CMD d = 0x20 then
           read_from_backend (d\<lparr>hd_STS := (hd_STS d AND NOT BUSY_MASK) OR DRQ_MASK\<rparr>)
         else (d, []))
      in (d1\<lparr>hd_lba := compute_lba d1, hd_sector_numbers_cmd := unat (hd_SCR d1)\<rparr>, es))"

definition HardDisk_write_reg_byte ::
  "io_addr \<Rightarrow> u8 \<Rightarrow> hard_disk \<Rightarrow> hard_disk \<times> irq_event list" where
  "HardDisk_write_reg_byte addr val d =
     (if addr = SCR_addr then (d\<lparr>hd_SCR := val\<rparr>, [])
      else if addr = SNR_addr then (d\<lparr>hd_SNR := val\<rparr>, [])
      else if addr = CNH_addr then (d\<lparr>hd_CNH := val\<rparr>, [])
      else if addr = CNL_addr then (d\<lparr>hd_CNL := val\<rparr>, [])
      else if addr = HND_addr then (d\<lparr>hd_HND := val\<rparr>, [])
      else if addr = CMD_addr then HardDisk_process_cmd (d\<lparr>hd_CMD := val\<rparr>)
      else if addr = DCR_addr then
        (if val = 0x02 then
           (d\<lparr>hd_DCR := val, hd_interrupt_enabled := False, hd_interrupt_raised := False\<rparr>, [])
         else if val = 0x00 then
           (d\<lparr>hd_DCR := val, hd_interrupt_enabled := True\<rparr>, [])
         else
           (d\<lparr>hd_DCR := 0x02, hd_interrupt_enabled := False, hd_interrupt_raised := False\<rparr>, []))
      else (d, []))"

definition HardDisk_read_reg_byte ::
  "io_addr \<Rightarrow> hard_disk \<Rightarrow> u8 \<times> hard_disk \<times> irq_event list" where
  "HardDisk_read_reg_byte addr d =
     (if addr = ERR_addr then (hd_ERR d, d, [])
      else if addr = SCR_addr then (hd_SCR d, d, [])
      else if addr = SNR_addr then (hd_SNR d, d, [])
      else if addr = CNH_addr then (hd_CNH d, d, [])
      else if addr = CNL_addr then (hd_CNL d, d, [])
      else if addr = STS_addr then
        (if hd_interrupt_raised d
         then (hd_STS d, d\<lparr>hd_interrupt_raised := False\<rparr>, [(INT_IDE_HDD, 0)])
         else (hd_STS d, d, []))
      else if addr = ASR_addr then (hd_ASR d, d, [])
      else if addr = DAR_addr then (hd_DAR d, d, [])
      else (0, d, []))"

text \<open>
  The data register. Both transfers index arrays with \<open>current_position\<close>: the write as
  bytes of the sector buffer, the read as 16-bit words through \<open>new_buffer\<close>, which is only
  set when the position is 0.
\<close>

definition write_BR_register :: "u16 \<Rightarrow> hard_disk \<Rightarrow> (hard_disk \<times> irq_event list) res" where
  "write_BR_register val d =
     (let pos = hd_current_position d
      in if length (hd_internal_buffer d) \<le> pos + 1 then Inl OutOfBounds
         else
           (let d1 = d\<lparr>hd_BR := val, hd_STS := hd_STS d OR BUSY_MASK,
                        hd_internal_buffer :=
                          ((hd_internal_buffer d)[pos := ucast (val AND 0x00FF)])
                            [pos + 1 := ucast (drop_bit 8 val)],
                        hd_current_position := pos + 2\<rparr>
            in if hd_current_position d1 \<ge> 511 then
                 (let d2 = d1\<lparr>hd_current_position := 0,
                        hd_file := snd (DiskManager_write (hd_disk_manager d1)
                          (hd_internal_buffer d1)
                          (hd_lba d1 + of_nat (hd_current_sector_number d1)) (hd_file d1)),
                        hd_current_sector_number := hd_current_sector_number d1 + 1,
                        hd_STS := (hd_STS d1 AND NOT BUSY_MASK) OR DRQ_MASK\<rparr>;
                      d3 = (if hd_sector_numbers_cmd d2 = hd_current_sector_number d2
                             then d2\<lparr>hd_STS := hd_STS d2 AND NOT DRQ_MASK\<rparr> else d2)
                  in if hd_interrupt_enabled d3
                     then Inr (d3\<lparr>hd_interrupt_raised := True\<rparr>, [(INT_IDE_HDD, 1)])
                     else Inr (d3, []))
               else Inr (d1, [])))"

definition read_BR_register :: "hard_disk \<Rightarrow> (u16 \<times> hard_disk \<times> irq_event list) res" where
  "read_BR_register d =
     (let d1 = d\<lparr>hd_STS := hd_STS d OR BUSY_MASK,
                   hd_new_buffer := (if hd_current_position d = 0 then True else hd_new_buffer d)\<rparr>;
          pos = hd_current_position d1
      in if \<not> hd_new_buffer d1 then Inl NullDeref
         else if length (hd_internal_buffer d1) \<le> 2 * pos + 1 then Inl OutOfBounds
         else
           (let d2 = d1\<lparr>hd_BR := of_nat (le_val (get_bytes (2 * pos) 2 (hd_internal_buffer d1))),
                         hd_current_position := pos + 1\<rparr>
            in if hd_current_position d2 \<ge> BLOCK_SIZE_BYTE div 2 then
                 (let d3 = d2\<lparr>hd_STS := (hd_STS d2 AND NOT BUSY_MASK) OR DRQ_MASK,
                               hd_current_position := 0\<rparr>
                  in if hd_sector_numbers_cmd d3 = hd_current_sector_number d3
                     then Inr (hd_BR d3, d3\<lparr>hd_STS := hd_STS d3 AND NOT DRQ_MASK\<rparr>, [])
                     else (let (d4, es) = read_from_backend d3 in Inr (hd_BR d4, d4, es)))
               else Inr (hd_BR d2, d2, [])))"

definition HardDisk_write_reg_word ::
  "io_addr \<Rightarrow> u16 \<Rightarrow> hard_disk \<Rightarrow> (hard_disk \<times> irq_event list) res" where
  "HardDisk_write_reg_word addr val d =
     (if addr = BR_addr then write_BR_register val d else Inr (d, []))"

definition HardDisk_read_reg_word ::
  "io_addr \<Rightarrow> hard_disk \<Rightarrow> (u16 \<times> hard_disk \<times> irq_event list) res" where
  "HardDisk_read_reg_word addr d =
     (if addr = BR_addr then read_BR_register d else Inr (0, d, []))"

lemmas HardDisk_reg_defs [reg_defs] =
  HardDisk_write_reg_byte_def HardDisk_read_reg_byte_def HardDisk_write_reg_word_def
  HardDisk_read_reg_word_def HardDisk_process_cmd_def read_from_backend_def

section \<open>Guest accesses\<close>

datatype hd_access =
    OutB io_addr u8 | InB io_addr | OutW io_addr u16 | InW io_addr

text \<open>One access: the new state, the value returned (reads only), the interrupt calls.\<close>

fun hd_step :: "hd_access \<Rightarrow> hard_disk \<Rightarrow> (hard_disk \<times> u16 list \<times> irq_event list) res" where
  "hd_step (OutB a v) d = (let (d', es) = HardDisk_write_reg_byte a v d in Inr (d', [], es))"
| "hd_step (InB a) d =
     (let (v, d', es) = HardDisk_read_reg_byte a d in Inr (d', [ucast v], es))"
| "hd_step (OutW a v) d =
     bind_res (HardDisk_write_reg_word a v d) (\<lambda>(d', es). Inr (d', [], es))"
| "hd_step (InW a) d =
     bind_res (HardDisk_read_reg_word a d) (\<lambda>(v, d', es). Inr (d', [v], es))"

fun hd_run :: "hd_access list \<Rightarrow> hard_disk \<Rightarrow> (hard_disk \<times> u16 list \<times> irq_event list) res" where
  "hd_run [] d = Inr (d, [], [])"
| "hd_run (x # xs) d = then_run (hd_step x d) (hd_run xs)"

lemma hd_run_append: "hd_run (xs @ ys) d = then_run (hd_run xs d) (hd_run ys)"
proof (induction xs arbitrary: d)
  case Nil
  then show ?case by simp
next
  case (Cons x xs)
  have "hd_run (xs @ ys) = (\<lambda>d. then_run (hd_run xs d) (hd_run ys))" by (rule ext) (rule Cons.IH)
  then show ?case by (simp add: then_run_assoc)
qed

section \<open>Invariant\<close>

text \<open>Only the busy and the data-request bits of the status are ever set.\<close>

definition sts_wf :: "u8 \<Rightarrow> bool" where
  "sts_wf s \<longleftrightarrow> s \<in> {0, 0x08, 0x80, 0x88}"

definition hd_inv :: "hard_disk \<Rightarrow> bool" where
  "hd_inv d \<longleftrightarrow> length (hd_internal_buffer d) = BLOCK_SIZE_BYTE \<and>
     hd_current_position d \<le> 510 \<and> sts_wf (hd_STS d)"

text \<open>The masks appear as \<open>- 129\<close> and \<open>- 9\<close>, the simplifier's form of \<open>NOT 0x80\<close> and \<open>NOT 0x08\<close>.\<close>

lemma sts_wf_closed [simp]:
  "sts_wf s \<Longrightarrow> sts_wf (s OR BUSY_MASK)"
  "sts_wf s \<Longrightarrow> sts_wf (s OR DRQ_MASK)"
  "sts_wf s \<Longrightarrow> sts_wf (s AND - 129)"
  "sts_wf s \<Longrightarrow> sts_wf (s AND - 9)"
  by (auto simp: sts_wf_def)

lemma length_DiskManager_read:
  assumes "length buf = 512"
  shows "length (snd (DiskManager_read dm buf i f)) = 512"
proof -
  have "length (get_bytes a 512 c) \<le> 512" for a and c :: "u8 list" by (simp add: get_bytes_def)
  then show ?thesis
    using assms by (auto simp: DiskManager_read_def Let_def split: option.splits)
qed

lemma read_from_backend_inv: "hd_inv d \<Longrightarrow> hd_inv (fst (read_from_backend d))"
  by (simp add: hd_inv_def read_from_backend_def Let_def length_DiskManager_read)

lemma process_cmd_inv: "hd_inv d \<Longrightarrow> hd_inv (fst (HardDisk_process_cmd d))"
  using read_from_backend_inv [of "d\<lparr>hd_STS := (hd_STS d AND NOT BUSY_MASK) OR DRQ_MASK\<rparr>"]
  by (simp add: hd_inv_def HardDisk_process_cmd_def case_prod_beta Let_def)

lemma write_reg_byte_inv: "hd_inv d \<Longrightarrow> hd_inv (fst (HardDisk_write_reg_byte a v d))"
  using process_cmd_inv [of "d\<lparr>hd_CMD := v\<rparr>"]
  by (simp add: HardDisk_write_reg_byte_def hd_inv_def)

lemma read_reg_byte_inv: "hd_inv d \<Longrightarrow> hd_inv (fst (snd (HardDisk_read_reg_byte a d)))"
  by (simp add: HardDisk_read_reg_byte_def hd_inv_def)

lemma write_BR_defined:
  assumes "hd_inv d"
  shows "\<exists>d' es. write_BR_register v d = Inr (d', es) \<and> hd_inv d'"
  using assms by (simp add: write_BR_register_def hd_inv_def Let_def)

lemma read_from_backend_frame:
  assumes "read_from_backend d = (d', es)"
  shows "hd_current_position d' = hd_current_position d"
    and "length (hd_internal_buffer d) = 512 \<Longrightarrow> length (hd_internal_buffer d') = 512"
    and "hd_STS d' = hd_STS d"
  using assms
  by (auto simp: read_from_backend_def Let_def length_DiskManager_read split: if_splits)

lemma read_BR_inv:
  assumes "hd_inv d" "read_BR_register d = Inr (w, d', es)"
  shows "hd_inv d'"
  using assms
  by (auto simp: read_BR_register_def hd_inv_def Let_def split: if_splits prod.splits
      dest: read_from_backend_frame)

lemma hd_step_inv: "hd_inv d \<Longrightarrow> hd_step x d = Inr (d', vs, es) \<Longrightarrow> hd_inv d'"
proof (cases x)
  case (OutW a v)
  assume "hd_inv d" "hd_step x d = Inr (d', vs, es)"
  then show ?thesis
    using OutW write_BR_defined [of d v]
    by (auto simp: HardDisk_write_reg_word_def split: if_splits)
next
  case (InW a)
  assume "hd_inv d" "hd_step x d = Inr (d', vs, es)"
  then show ?thesis
    using InW by (auto simp: HardDisk_read_reg_word_def split: if_splits dest: read_BR_inv)
next
  case (OutB a v)
  assume "hd_inv d" "hd_step x d = Inr (d', vs, es)"
  then show ?thesis
    using OutB write_reg_byte_inv [of d a v] by (simp add: case_prod_beta Let_def)
next
  case (InB a)
  assume "hd_inv d" "hd_step x d = Inr (d', vs, es)"
  then show ?thesis
    using InB read_reg_byte_inv [of d a] by (simp add: case_prod_beta Let_def)
qed

lemma hd_run_inv: "hd_inv d \<Longrightarrow> hd_run xs d = Inr (d', vs, es) \<Longrightarrow> hd_inv d'"
  by (induction xs arbitrary: d vs es) (auto simp: then_run_eq_Inr dest: hd_step_inv)

section \<open>Sector transfers\<close>

subsection \<open>Words and bytes\<close>

definition word_bytes :: "u16 \<Rightarrow> u8 list" where
  "word_bytes w = [ucast (w AND 0x00FF), ucast (drop_bit 8 w)]"

definition sector_bytes :: "u16 list \<Rightarrow> u8 list" where
  "sector_bytes ws = concat (map word_bytes ws)"

definition sector_words :: "u8 list \<Rightarrow> u16 list" where
  "sector_words bs = map (\<lambda>i. of_nat (le_val (get_bytes (2 * i) 2 bs))) [0..<length bs div 2]"

lemma length_sector_bytes [simp]: "length (sector_bytes ws) = 2 * length ws"
  by (induction ws) (simp_all add: sector_bytes_def word_bytes_def)

lemma sector_bytes_simps [simp]:
  "sector_bytes [] = []"
  "sector_bytes (w # ws) = word_bytes w @ sector_bytes ws"
  "sector_bytes (vs @ ws) = sector_bytes vs @ sector_bytes ws"
  by (simp_all add: sector_bytes_def)

lemma le_val_word_bytes: "le_val (word_bytes w) = unat w"
proof -
  have "w AND 0x00FF = take_bit 8 w" by (simp add: take_bit_eq_mask mask_eq_exp_minus_1)
  then have "unat (w AND 0x00FF) = unat w mod 256"
    by (simp add: take_bit_eq_mod unat_mod_distrib)
  then have lo: "unat (ucast (w AND 0x00FF) :: u8) = unat w mod 256"
    by (simp add: unsigned_ucast_eq take_bit_eq_mod)
  have "unat w < 65536" using unsigned_less [where w = w and 'a = nat] by simp
  then have hi: "unat (ucast (drop_bit 8 w) :: u8) = unat w div 256"
    by (simp add: unsigned_ucast_eq take_bit_eq_mod drop_bit_eq_div unat_div_distrib)
  show ?thesis by (simp add: word_bytes_def lo hi)
qed

lemma sector_words_bytes: "sector_words (sector_bytes ws) = ws"
proof (rule nth_equalityI)
  show len: "length (sector_words (sector_bytes ws)) = length ws" by (simp add: sector_words_def)
  fix i assume "i < length (sector_words (sector_bytes ws))"
  then have i: "i < length ws" using len by simp
  have "sector_bytes ws = sector_bytes (take i ws) @ word_bytes (ws ! i) @ sector_bytes (drop (Suc i) ws)"
    by (subst id_take_nth_drop [OF i]) simp
  then have "get_bytes (2 * i) 2 (sector_bytes ws) = word_bytes (ws ! i)"
    using i by (simp add: get_bytes_def word_bytes_def)
  then show "sector_words (sector_bytes ws) ! i = ws ! i"
    using i by (simp add: sector_words_def le_val_word_bytes)
qed

subsection \<open>Writing a sector\<close>

lemma write_words_prefix:
  assumes "hd_current_position d = 2 * j" "j + length ws < 256" "length (hd_internal_buffer d) = 512"
  shows "\<exists>B br. hd_run (map (OutW BR_addr) ws) d =
      Inr (d\<lparr>hd_BR := br, hd_STS := (if ws = [] then hd_STS d else hd_STS d OR BUSY_MASK),
             hd_internal_buffer := B, hd_current_position := 2 * (j + length ws)\<rparr>, [], []) \<and>
    length B = 512 \<and> take (2 * (j + length ws)) B = take (2 * j) (hd_internal_buffer d) @ sector_bytes ws"
  using assms
proof (induction ws arbitrary: d j)
  case Nil
  have "d\<lparr>hd_BR := hd_BR d, hd_STS := hd_STS d, hd_internal_buffer := hd_internal_buffer d,
      hd_current_position := 2 * j\<rparr> = d" using Nil.prems by simp
  then show ?case using Nil.prems
    by (intro exI [of _ "hd_internal_buffer d"] exI [of _ "hd_BR d"]) simp
next
  case (Cons w ws)
  let ?B = "(hd_internal_buffer d)[2 * j := ucast (w AND 0x00FF), Suc (2 * j) := ucast (drop_bit 8 w)]"
  let ?d = "d\<lparr>hd_BR := w, hd_STS := hd_STS d OR BUSY_MASK, hd_internal_buffer := ?B,
    hd_current_position := 2 * (j + 1)\<rparr>"
  have step: "hd_step (OutW BR_addr w) d = Inr (?d, [], [])"
    using Cons.prems by (simp add: HardDisk_write_reg_word_def write_BR_register_def Let_def)
  have pre: "take (2 * (j + 1)) ?B = take (2 * j) (hd_internal_buffer d) @ word_bytes w"
    using take_update_pair [of "2 * j" "hd_internal_buffer d"] Cons.prems
    by (simp add: word_bytes_def)
  obtain B br where run: "hd_run (map (OutW BR_addr) ws) ?d =
      Inr (?d\<lparr>hd_BR := br, hd_STS := (if ws = [] then hd_STS ?d else hd_STS ?d OR BUSY_MASK),
             hd_internal_buffer := B, hd_current_position := 2 * (j + 1 + length ws)\<rparr>, [], [])"
    and B: "length B = 512" "take (2 * (j + 1 + length ws)) B =
      take (2 * (j + 1)) (hd_internal_buffer ?d) @ sector_bytes ws"
    using Cons.IH [of ?d "j + 1"] Cons.prems by auto
  have "hd_run (map (OutW BR_addr) (w # ws)) d =
      Inr (d\<lparr>hd_BR := br, hd_STS := hd_STS d OR BUSY_MASK,
             hd_internal_buffer := B, hd_current_position := 2 * (j + length (w # ws))\<rparr>, [], [])"
    using run by (simp add: step or.assoc del: hd_step.simps)
  moreover have "take (2 * (j + length (w # ws))) B =
      take (2 * j) (hd_internal_buffer d) @ sector_bytes (w # ws)"
    using B(2) pre by simp
  ultimately show ?case using B(1) by auto
qed

text \<open>The status at the end of a sector, from the status at its start.\<close>

definition sector_status :: "bool \<Rightarrow> u8 \<Rightarrow> u8" where
  "sector_status fin s =
     (let s1 = ((s OR BUSY_MASK) AND NOT BUSY_MASK) OR DRQ_MASK
      in if fin then s1 AND NOT DRQ_MASK else s1)"

lemma sector_status_wf: "sts_wf s \<Longrightarrow> sector_status fin s AND 0x88 = (if fin then 0 else 0x08)"
  by (auto simp: sector_status_def sts_wf_def)

text \<open>The state after a whole sector was written from position 0, and its interrupt calls.\<close>

definition sector_written :: "u16 list \<Rightarrow> hard_disk \<Rightarrow> hard_disk" where
  "sector_written ws d =
     d\<lparr>hd_BR := last ws,
       hd_STS := sector_status (hd_sector_numbers_cmd d = hd_current_sector_number d + 1) (hd_STS d),
       hd_internal_buffer := sector_bytes ws, hd_current_position := 0,
       hd_file := snd (DiskManager_write (hd_disk_manager d) (sector_bytes ws)
         (hd_lba d + of_nat (hd_current_sector_number d)) (hd_file d)),
       hd_current_sector_number := hd_current_sector_number d + 1,
       hd_interrupt_raised := (hd_interrupt_enabled d \<or> hd_interrupt_raised d)\<rparr>"

lemma write_last_word:
  assumes "hd_current_position d = 510" "length (hd_internal_buffer d) = 512"
    "take 510 (hd_internal_buffer d) = sector_bytes ws" "length ws = 255"
  shows "hd_step (OutW BR_addr w) d =
    Inr (sector_written (ws @ [w]) d, [], if hd_interrupt_enabled d then [(INT_IDE_HDD, 1)] else [])"
proof -
  have "(hd_internal_buffer d)[510 := ucast (w AND 0x00FF), 511 := ucast (drop_bit 8 w)] =
      take 512 ((hd_internal_buffer d)[510 := ucast (w AND 0x00FF), 511 := ucast (drop_bit 8 w)])"
    using assms(2) by simp
  also have "\<dots> = sector_bytes (ws @ [w])"
    using take_update_pair [of 510 "hd_internal_buffer d"] assms by (simp add: word_bytes_def)
  finally have B: "(hd_internal_buffer d)[510 := ucast (w AND 0x00FF), 511 := ucast (drop_bit 8 w)] =
      sector_bytes (ws @ [w])" .
  show ?thesis
    using assms(1,2)
    by (simp add: HardDisk_write_reg_word_def write_BR_register_def sector_written_def
        sector_status_def Let_def B del: sector_bytes_simps)
qed

lemma write_sector:
  assumes "hd_current_position d = 0" "length (hd_internal_buffer d) = 512" "length ws = 256"
  shows "hd_run (map (OutW BR_addr) ws) d =
    Inr (sector_written ws d, [], if hd_interrupt_enabled d then [(INT_IDE_HDD, 1)] else [])"
proof -
  obtain vs w where ws: "ws = vs @ [w]" and vs: "length vs = 255"
    using assms(3) by (cases ws rule: rev_cases) simp_all
  have "vs \<noteq> []" using vs by auto
  then obtain B br where run: "hd_run (map (OutW BR_addr) vs) d =
      Inr (d\<lparr>hd_BR := br, hd_STS := hd_STS d OR BUSY_MASK,
             hd_internal_buffer := B, hd_current_position := 510\<rparr>, [], [])"
    and B: "length B = 512" "take 510 B = sector_bytes vs"
    using write_words_prefix [of d 0 vs] assms(1,2) vs by auto
  let ?d = "d\<lparr>hd_BR := br, hd_STS := hd_STS d OR BUSY_MASK,
    hd_internal_buffer := B, hd_current_position := 510\<rparr>"
  have last: "hd_run [OutW BR_addr w] ?d =
      Inr (sector_written (vs @ [w]) ?d, [], if hd_interrupt_enabled d then [(INT_IDE_HDD, 1)] else [])"
    using write_last_word [of ?d vs w] B vs by (simp add: then_run_def del: hd_step.simps)
  moreover have "sector_written (vs @ [w]) ?d = sector_written (vs @ [w]) d"
    by (simp add: sector_written_def sector_status_def or.assoc)
  ultimately show ?thesis by (simp add: ws hd_run_append run del: hd_run.simps)
qed

lemma sector_written_fields [simp]:
  "hd_current_position (sector_written ws d) = 0"
  "hd_current_sector_number (sector_written ws d) = hd_current_sector_number d + 1"
  "hd_lba (sector_written ws d) = hd_lba d"
  "hd_disk_manager (sector_written ws d) = hd_disk_manager d"
  "hd_sector_numbers_cmd (sector_written ws d) = hd_sector_numbers_cmd d"
  "hd_interrupt_enabled (sector_written ws d) = hd_interrupt_enabled d"
  "length (hd_internal_buffer (sector_written ws d)) = 2 * length ws"
  by (simp_all add: sector_written_def)

lemma sector_written_file:
  assumes "hd_disk_manager d = disk_of nb" "disk_ok nb (hd_file d)" "length ws = 256"
    "unat (hd_lba d) + hd_current_sector_number d < nb"
  shows "hd_file (sector_written ws d) =
    file_put (sector_bytes ws) (unat (hd_lba d) + hd_current_sector_number d) (hd_file d)"
proof -
  have "hd_lba d + of_nat (hd_current_sector_number d) =
      of_nat (unat (hd_lba d) + hd_current_sector_number d)" by simp
  then show ?thesis
    using assms DiskManager_write_ok [of nb "hd_file d" _ "sector_bytes ws"]
    by (simp add: sector_written_def del: of_nat_add)
qed

text \<open>A run of sectors lands in consecutive blocks, from the block the command points at.\<close>

lemma write_sectors:
  assumes "hd_current_position d = 0" "length (hd_internal_buffer d) = 512"
    "hd_disk_manager d = disk_of nb" "disk_ok nb (hd_file d)" "sts_wf (hd_STS d)"
    "\<forall>ws\<in>set secs. length ws = 256"
    "unat (hd_lba d) + hd_current_sector_number d + length secs \<le> nb"
  shows "\<exists>d' es. hd_run (map (OutW BR_addr) (concat secs)) d = Inr (d', [], es) \<and>
    hd_file d' = disk.wr_run (map sector_bytes secs)
      (unat (hd_lba d) + hd_current_sector_number d) (hd_file d) \<and>
    hd_current_sector_number d' = hd_current_sector_number d + length secs \<and>
    hd_current_position d' = 0 \<and>
    (secs \<noteq> [] \<longrightarrow> hd_STS d' AND 0x88 =
       (if hd_sector_numbers_cmd d = hd_current_sector_number d + length secs then 0 else 0x08)) \<and>
    es = (if hd_interrupt_enabled d then replicate (length secs) (INT_IDE_HDD, 1) else [])"
  using assms
proof (induction secs arbitrary: d)
  case Nil
  then show ?case by simp
next
  case (Cons ws secs)
  let ?d = "sector_written ws d"
  have sec: "hd_run (map (OutW BR_addr) ws) d =
      Inr (?d, [], if hd_interrupt_enabled d then [(INT_IDE_HDD, 1)] else [])"
    using Cons.prems by (intro write_sector) simp_all
  have fl: "hd_file ?d = file_put (sector_bytes ws)
      (unat (hd_lba d) + hd_current_sector_number d) (hd_file d)"
    using Cons.prems by (intro sector_written_file [of d nb]) simp_all
  then have ok: "disk_ok nb (hd_file ?d)" using Cons.prems by (simp add: file_put_ok)
  have sts: "hd_STS ?d = sector_status (hd_sector_numbers_cmd d = hd_current_sector_number d + 1) (hd_STS d)"
    by (simp add: sector_written_def)
  then have "sts_wf (hd_STS ?d)" using Cons.prems(5) by (simp add: sector_status_def Let_def)
  then obtain d' es where d': "hd_run (map (OutW BR_addr) (concat secs)) ?d = Inr (d', [], es)"
    "hd_file d' = disk.wr_run (map sector_bytes secs)
      (unat (hd_lba d) + (hd_current_sector_number d + 1)) (hd_file ?d)"
    "hd_current_sector_number d' = hd_current_sector_number d + 1 + length secs"
    "hd_current_position d' = 0"
    "secs \<noteq> [] \<longrightarrow> hd_STS d' AND 0x88 =
       (if hd_sector_numbers_cmd d = hd_current_sector_number d + 1 + length secs then 0 else 0x08)"
    "es = (if hd_interrupt_enabled d then replicate (length secs) (INT_IDE_HDD, 1) else [])"
    using Cons.IH [of ?d] Cons.prems ok by auto
  have "secs = [] \<longrightarrow> d' = ?d" using d'(1) by auto
  then show ?case
    using d' sec fl sts sector_status_wf [OF Cons.prems(5)]
    by (cases "secs = []") (simp_all add: hd_run_append then_run_def)
qed

text \<open>Data writes never change where the disk is or what it was asked.\<close>

lemma hd_run_data_frame:
  assumes "hd_run (map (OutW BR_addr) ws) d = Inr (d', vs, es)"
  shows "hd_lba d' = hd_lba d" and "hd_disk_manager d' = hd_disk_manager d"
  using assms
  by (induction ws arbitrary: d vs es)
     (auto simp: then_run_eq_Inr HardDisk_write_reg_word_def write_BR_register_def Let_def
       split: if_splits)

subsection \<open>Reading a sector\<close>

lemma read_words_prefix:
  assumes "hd_current_position d = j" "j + k < 256" "length (hd_internal_buffer d) = 512"
    "j \<noteq> 0 \<Longrightarrow> hd_new_buffer d"
  shows "\<exists>br. hd_run (replicate k (InW BR_addr)) d =
      Inr (d\<lparr>hd_BR := br, hd_STS := (if k = 0 then hd_STS d else hd_STS d OR BUSY_MASK),
             hd_new_buffer := (k \<noteq> 0 \<or> hd_new_buffer d), hd_current_position := j + k\<rparr>,
           take k (drop j (sector_words (hd_internal_buffer d))), [])"
  using assms
proof (induction k arbitrary: d j)
  case 0
  have "d\<lparr>hd_BR := hd_BR d, hd_STS := hd_STS d, hd_new_buffer := hd_new_buffer d,
      hd_current_position := j\<rparr> = d" using "0.prems" by simp
  then show ?case using "0.prems" by (intro exI [of _ "hd_BR d"]) simp
next
  case (Suc k)
  let ?w = "sector_words (hd_internal_buffer d) ! j"
  let ?d = "d\<lparr>hd_BR := ?w, hd_STS := hd_STS d OR BUSY_MASK, hd_new_buffer := True,
    hd_current_position := j + 1\<rparr>"
  have w: "?w = of_nat (le_val (get_bytes (2 * j) 2 (hd_internal_buffer d)))"
    using Suc.prems by (simp add: sector_words_def)
  have step: "hd_step (InW BR_addr) d = Inr (?d, [?w], [])"
    using Suc.prems w
    by (cases "j = 0") (simp_all add: HardDisk_read_reg_word_def read_BR_register_def Let_def)
  obtain br where run: "hd_run (replicate k (InW BR_addr)) ?d =
      Inr (?d\<lparr>hd_BR := br, hd_STS := (if k = 0 then hd_STS ?d else hd_STS ?d OR BUSY_MASK),
             hd_new_buffer := (k \<noteq> 0 \<or> hd_new_buffer ?d), hd_current_position := j + 1 + k\<rparr>,
           take k (drop (j + 1) (sector_words (hd_internal_buffer d))), [])"
    using Suc.IH [of ?d "j + 1"] Suc.prems by auto
  have "length (sector_words (hd_internal_buffer d)) = 256"
    using Suc.prems by (simp add: sector_words_def)
  then have "drop j (sector_words (hd_internal_buffer d)) =
      ?w # drop (j + 1) (sector_words (hd_internal_buffer d))"
    using Suc.prems by (simp add: Cons_nth_drop_Suc)
  then show ?case
    using run
    by (intro exI [of _ br]) (simp add: step then_run_def or.assoc del: hd_step.simps)
qed

text \<open>The state when the last word of a sector has been read: either the transfer is over, or
  the next sector has been loaded.\<close>

definition sector_read :: "hard_disk \<Rightarrow> hard_disk" where
  "sector_read d = d\<lparr>hd_BR := last (sector_words (hd_internal_buffer d)),
     hd_STS := ((hd_STS d OR BUSY_MASK) AND NOT BUSY_MASK) OR DRQ_MASK,
     hd_new_buffer := True, hd_current_position := 0\<rparr>"

lemma read_sector:
  assumes "hd_current_position d = 0" "length (hd_internal_buffer d) = 512"
  shows "hd_run (replicate 256 (InW BR_addr)) d =
    (if hd_sector_numbers_cmd d = hd_current_sector_number d
     then Inr ((sector_read d)\<lparr>hd_STS := sector_status True (hd_STS d)\<rparr>,
            sector_words (hd_internal_buffer d), [])
     else (let (d', es) = read_from_backend (sector_read d)
           in Inr (d', sector_words (hd_internal_buffer d), es)))"
proof -
  obtain br where run: "hd_run (replicate 255 (InW BR_addr)) d =
      Inr (d\<lparr>hd_BR := br, hd_STS := hd_STS d OR BUSY_MASK, hd_new_buffer := True,
             hd_current_position := 255\<rparr>, take 255 (sector_words (hd_internal_buffer d)), [])"
    (is "_ = Inr (?d, _, _)")
    using read_words_prefix [of d 0 255] assms by auto
  have len: "length (sector_words (hd_internal_buffer d)) = 256"
    using assms by (simp add: sector_words_def)
  then have ne: "sector_words (hd_internal_buffer d) \<noteq> []" by auto
  have "butlast (sector_words (hd_internal_buffer d)) = take 255 (sector_words (hd_internal_buffer d))"
    by (simp add: butlast_conv_take len)
  then have split: "take 255 (sector_words (hd_internal_buffer d)) @
      [last (sector_words (hd_internal_buffer d))] = sector_words (hd_internal_buffer d)"
    using append_butlast_last_id [OF ne] by simp
  have w: "last (sector_words (hd_internal_buffer d)) =
      of_nat (le_val (get_bytes 510 2 (hd_internal_buffer d)))"
    using len assms(2) by (simp add: last_conv_nth sector_words_def)
  have step: "hd_step (InW BR_addr) ?d =
    (if hd_sector_numbers_cmd d = hd_current_sector_number d
     then Inr ((sector_read d)\<lparr>hd_STS := sector_status True (hd_STS d)\<rparr>,
            [last (sector_words (hd_internal_buffer d))], [])
     else (let (d', es) = read_from_backend (sector_read d)
           in Inr (d', [last (sector_words (hd_internal_buffer d))], es)))"
    using assms
    by (simp add: HardDisk_read_reg_word_def read_BR_register_def sector_read_def sector_status_def
        w or.assoc Let_def case_prod_beta read_from_backend_def)
  have rep: "replicate 256 (InW BR_addr) = replicate 255 (InW BR_addr) @ [InW BR_addr]"
    using replicate_add [of 255 1 "InW BR_addr"] by simp
  show ?thesis
    unfolding rep hd_run_append run
    by (simp add: then_run_def step split case_prod_beta Let_def del: hd_step.simps)
qed

text \<open>A run of sectors: the one in the buffer, then the following blocks up to the count of the
  command.\<close>

lemma read_sectors:
  assumes "hd_current_position d = 0" "length (hd_internal_buffer d) = 512"
    "hd_disk_manager d = disk_of nb" "disk_ok nb (hd_file d)" "sts_wf (hd_STS d)"
    "hd_sector_numbers_cmd d = hd_current_sector_number d + k"
    "unat (hd_lba d) + hd_sector_numbers_cmd d \<le> nb"
  shows "\<exists>d'. hd_run (replicate (256 * (k + 1)) (InW BR_addr)) d =
      Inr (d', sector_words (hd_internal_buffer d) @
        concat (map (\<lambda>i. sector_words (file_block i (hd_file d)))
          [unat (hd_lba d) + hd_current_sector_number d ..<unat (hd_lba d) + hd_sector_numbers_cmd d]),
        if hd_interrupt_enabled d then replicate k (INT_IDE_HDD, 1) else []) \<and>
    hd_current_sector_number d' = hd_sector_numbers_cmd d \<and> hd_current_position d' = 0 \<and>
    hd_STS d' AND 0x88 = 0 \<and> hd_file d' = hd_file d \<and> hd_lba d' = hd_lba d"
  using assms
proof (induction k arbitrary: d)
  case 0
  then show ?case
    using read_sector [of d] sector_status_wf [of "hd_STS d" True] by (simp add: sector_read_def)
next
  case (Suc k)
  let ?n = "unat (hd_lba d) + hd_current_sector_number d"
  define d0 where "d0 = fst (read_from_backend (sector_read d))"
  let ?ev = "if hd_interrupt_enabled d then [(INT_IDE_HDD, 1)] else []"
  have lba: "hd_lba d + of_nat (hd_current_sector_number d) = of_nat ?n" by simp
  have rfb: "read_from_backend (sector_read d) = (d0, ?ev)"
    by (simp add: d0_def read_from_backend_def sector_read_def Let_def)
  have first: "hd_run (replicate 256 (InW BR_addr)) d =
      Inr (d0, sector_words (hd_internal_buffer d), ?ev)"
    using read_sector [of d] Suc.prems by (simp add: rfb)
  have buf: "hd_internal_buffer d0 = file_block ?n (hd_file d)"
    using Suc.prems DiskManager_read_ok [of nb "hd_file d" ?n "hd_internal_buffer d"]
    by (simp add: d0_def read_from_backend_def sector_read_def Let_def lba del: of_nat_add)
  have fields: "hd_current_position d0 = 0" "hd_disk_manager d0 = disk_of nb"
    "hd_file d0 = hd_file d" "hd_lba d0 = hd_lba d"
    "hd_sector_numbers_cmd d0 = hd_sector_numbers_cmd d"
    "hd_current_sector_number d0 = Suc (hd_current_sector_number d)"
    "hd_interrupt_enabled d0 = hd_interrupt_enabled d"
    "hd_STS d0 = ((hd_STS d OR BUSY_MASK) AND NOT BUSY_MASK) OR DRQ_MASK"
    using Suc.prems by (simp_all add: d0_def read_from_backend_def sector_read_def Let_def)
  have "length (hd_internal_buffer d0) = 512"
    by (simp add: d0_def read_from_backend_def sector_read_def Let_def length_DiskManager_read Suc.prems)
  then obtain d' where d': "hd_run (replicate (256 * (k + 1)) (InW BR_addr)) d0 =
      Inr (d', sector_words (hd_internal_buffer d0) @
        concat (map (\<lambda>i. sector_words (file_block i (hd_file d)))
          [Suc ?n ..<unat (hd_lba d) + hd_sector_numbers_cmd d]),
        if hd_interrupt_enabled d then replicate k (INT_IDE_HDD, 1) else [])"
    "hd_current_sector_number d' = hd_sector_numbers_cmd d" "hd_current_position d' = 0"
    "hd_STS d' AND 0x88 = 0" "hd_file d' = hd_file d" "hd_lba d' = hd_lba d"
    using Suc.IH [of d0] Suc.prems fields by auto
  have rep: "replicate (256 * (Suc k + 1)) (InW BR_addr) =
      replicate 256 (InW BR_addr) @ replicate (256 * (k + 1)) (InW BR_addr)"
    by (simp only: replicate_add [symmetric]) simp
  have "[?n ..<unat (hd_lba d) + hd_sector_numbers_cmd d] =
      ?n # [Suc ?n ..<unat (hd_lba d) + hd_sector_numbers_cmd d]"
    using Suc.prems by (simp add: upt_conv_Cons)
  then show ?case
    unfolding rep hd_run_append first
    using d' buf by (simp add: then_run_def)
qed

subsection \<open>Programming the task file\<close>

lemma nibble_mod:
  assumes "r < 2 ^ 24"
  shows "(h * 2 ^ 24 + r) mod 2 ^ 28 = (h mod 16) * 2 ^ 24 + (r :: nat)"
proof -
  have "(2 ^ 28 :: nat) = 2 ^ 24 * 16" by simp
  then show ?thesis using assms mod_mult2_eq [of "h * 2 ^ 24 + r" "2 ^ 24" 16] by simp
qed

lemma compute_lba_unat:
  "unat (compute_lba d) =
     (unat (hd_HND d) mod 16) * 2 ^ 24 + unat (hd_CNH d) * 2 ^ 16 + unat (hd_CNL d) * 2 ^ 8 +
     unat (hd_SNR d)"
proof -
  let ?s = "push_bit 24 (ucast (hd_HND d)) + push_bit 16 (ucast (hd_CNH d)) +
      push_bit 8 (ucast (hd_CNL d)) + ucast (hd_SNR d) :: u32"
  have up: "unat (ucast (b :: u8) :: u32) = unat b" for b
    using unat_u8_less [of b] by (simp add: unsigned_ucast_eq take_bit_nat_eq_self)
  have "compute_lba d = take_bit 28 ?s"
    by (simp add: compute_lba_def take_bit_eq_mask mask_eq_exp_minus_1)
  then have "unat (compute_lba d) = unat ?s mod 2 ^ 28"
    by (simp add: take_bit_eq_mod unat_mod_distrib)
  also have "unat ?s = unat (hd_HND d) * 2 ^ 24 + unat (hd_CNH d) * 2 ^ 16 +
      unat (hd_CNL d) * 2 ^ 8 + unat (hd_SNR d)"
    using unat_u8_less [of "hd_HND d"] unat_u8_less [of "hd_CNH d"] unat_u8_less [of "hd_CNL d"]
      unat_u8_less [of "hd_SNR d"]
    by (simp add: push_bit_eq_mult unat_word_ariths up)
  finally show ?thesis
    using nibble_mod [of "unat (hd_CNH d) * 2 ^ 16 + unat (hd_CNL d) * 2 ^ 8 + unat (hd_SNR d)"
        "unat (hd_HND d)"]
      unat_u8_less [of "hd_CNH d"] unat_u8_less [of "hd_CNL d"] unat_u8_less [of "hd_SNR d"]
    by (simp add: add.assoc)
qed

text \<open>The register writes of a driver that starts command \<open>cmd\<close> for \<open>n\<close> sectors from block
  \<open>l\<close>, in LBA mode on the master disk.\<close>

definition task_file :: "u8 \<Rightarrow> u32 \<Rightarrow> u8 \<Rightarrow> hd_access list" where
  "task_file n l cmd =
     [OutB SCR_addr n, OutB SNR_addr (ucast l), OutB CNL_addr (ucast (drop_bit 8 l)),
      OutB CNH_addr (ucast (drop_bit 16 l)),
      OutB HND_addr ((ucast (drop_bit 24 l) AND 0x0F) OR 0xE0), OutB CMD_addr cmd]"

definition task_regs :: "u8 \<Rightarrow> u32 \<Rightarrow> u8 \<Rightarrow> hard_disk \<Rightarrow> hard_disk" where
  "task_regs n l cmd d = d\<lparr>hd_SCR := n, hd_SNR := ucast l, hd_CNL := ucast (drop_bit 8 l),
     hd_CNH := ucast (drop_bit 16 l), hd_HND := (ucast (drop_bit 24 l) AND 0x0F) OR 0xE0,
     hd_CMD := cmd\<rparr>"

lemma task_file_run:
  "hd_run (task_file n l cmd) d =
     Inr (fst (HardDisk_process_cmd (task_regs n l cmd d)), [],
          snd (HardDisk_process_cmd (task_regs n l cmd d)))"
  by (simp add: task_file_def task_regs_def HardDisk_write_reg_byte_def then_run_def case_prod_beta)

lemma base256_digits:
  "n div 2 ^ 24 * 2 ^ 24 + n div 2 ^ 16 mod 256 * 2 ^ 16 + n div 2 ^ 8 mod 256 * 2 ^ 8 + n mod 256
    = (n :: nat)"
proof -
  define p q r where "p = n div 256" and "q = p div 256" and "r = q div 256"
  have "n div 2 ^ 8 = p" "n div 2 ^ 16 = q" "n div 2 ^ 24 = r"
    by (simp_all add: p_def q_def r_def div_mult2_eq [symmetric])
  moreover have "p * 256 + n mod 256 = n" "q * 256 + p mod 256 = p" "r * 256 + q mod 256 = q"
    unfolding p_def q_def r_def by (rule div_mult_mod_eq)+
  ultimately show ?thesis by (simp only:) simp
qed

lemma byte_of_word32:
  "unat (ucast (drop_bit k (l :: u32)) :: u8) = unat l div 2 ^ k mod 256"
proof -
  have "unat (drop_bit k l) = unat l div 2 ^ k"
    using unsigned_less [where w = l and 'a = nat]
    unfolding unsigned_drop_bit_eq by (simp add: drop_bit_eq_div take_bit_nat_eq_self)
  then show ?thesis by (simp only: unsigned_ucast_eq take_bit_eq_mod) simp
qed

lemma compute_lba_task_regs:
  assumes "unat l < 2 ^ 28"
  shows "compute_lba (task_regs n l cmd d) = l"
proof -
  let ?h = "ucast (drop_bit 24 l) :: u8"
  have "take_bit 4 ((?h AND 0x0F) OR 0xE0) = take_bit 4 ?h"
    by (simp add: take_bit_or take_bit_and) (simp add: take_bit_eq_mask mask_eq_exp_minus_1)
  then have "unat ((?h AND 0x0F) OR 0xE0) mod 2 ^ 4 = unat ?h mod 2 ^ 4"
    by (simp only: take_bit_eq_mod [symmetric] unsigned_take_bit_eq [symmetric])
  then have "unat ((?h AND 0x0F) OR 0xE0) mod 16 = unat l div 2 ^ 24"
    using assms by (simp add: byte_of_word32)
  then have "unat (compute_lba (task_regs n l cmd d)) =
      unat l div 2 ^ 24 * 2 ^ 24 + unat l div 2 ^ 16 mod 256 * 2 ^ 16 +
      unat l div 2 ^ 8 mod 256 * 2 ^ 8 + unat l mod 256"
    using byte_of_word32 [of 0 l]
    by (simp add: compute_lba_unat task_regs_def byte_of_word32)
  also have "\<dots> = unat l" by (simp only: base256_digits)
  finally show ?thesis by (simp add: word_unat_eq_iff)
qed

text \<open>The two commands, on a state whose data register is at the start of a sector.\<close>

lemma write_command_state:
  assumes "unat l < 2 ^ 28"
  shows "hd_run (task_file n l 0x30) d =
    Inr ((task_regs n l 0x30 d)\<lparr>hd_STS := (hd_STS d OR DRQ_MASK) AND NOT BUSY_MASK,
           hd_lba := l, hd_sector_numbers_cmd := unat n\<rparr>, [], [])"
proof -
  let ?d = "(task_regs n l 0x30 d)\<lparr>hd_STS := (hd_STS d OR DRQ_MASK) AND NOT BUSY_MASK\<rparr>"
  have "compute_lba ?d = compute_lba (task_regs n l 0x30 d)" by (simp add: compute_lba_def)
  then have "compute_lba ?d = l" using compute_lba_task_regs [OF assms] by simp
  moreover have "hd_CMD (task_regs n l 0x30 d) = 0x30" "hd_SCR ?d = n"
    "hd_STS (task_regs n l 0x30 d) = hd_STS d"
    by (simp_all add: task_regs_def)
  ultimately show ?thesis by (simp add: task_file_run HardDisk_process_cmd_def)
qed

lemma read_command_state:
  assumes "unat l < 2 ^ 28" "hd_disk_manager d = disk_of nb" "disk_ok nb (hd_file d)"
    "length (hd_internal_buffer d) = 512"
    "unat (hd_lba d) + hd_current_sector_number d < nb"
  shows "\<exists>d'. hd_run (task_file n l 0x20) d =
      Inr (d', [], if hd_interrupt_enabled d then [(INT_IDE_HDD, 1)] else []) \<and>
    hd_internal_buffer d' = file_block (unat (hd_lba d) + hd_current_sector_number d) (hd_file d) \<and>
    hd_lba d' = l \<and> hd_sector_numbers_cmd d' = unat n \<and>
    hd_current_sector_number d' = hd_current_sector_number d + 1 \<and>
    hd_current_position d' = hd_current_position d \<and> hd_file d' = hd_file d \<and>
    hd_disk_manager d' = disk_of nb \<and> hd_interrupt_enabled d' = hd_interrupt_enabled d \<and>
    hd_STS d' = (hd_STS d AND NOT BUSY_MASK) OR DRQ_MASK"
proof -
  let ?t = "(task_regs n l 0x20 d)\<lparr>hd_STS := (hd_STS d AND NOT BUSY_MASK) OR DRQ_MASK\<rparr>"
  let ?r = "fst (read_from_backend ?t)"
  let ?n = "unat (hd_lba d) + hd_current_sector_number d"
  have t: "hd_CMD (task_regs n l 0x20 d) = 0x20" "hd_STS (task_regs n l 0x20 d) = hd_STS d"
    by (simp_all add: task_regs_def)
  have "compute_lba ?r = compute_lba (task_regs n l 0x20 d)"
    by (simp add: compute_lba_def read_from_backend_def Let_def)
  then have lba: "compute_lba ?r = l" using compute_lba_task_regs [OF assms(1)] by simp
  have "hd_lba d + of_nat (hd_current_sector_number d) = of_nat ?n" by simp
  then have "snd (DiskManager_read (disk_of nb) (hd_internal_buffer d)
      (hd_lba d + of_nat (hd_current_sector_number d)) (hd_file d)) = file_block ?n (hd_file d)"
    using DiskManager_read_ok [of nb "hd_file d" ?n "hd_internal_buffer d"] assms
    by (simp del: of_nat_add)
  then have buf: "hd_internal_buffer ?r = file_block ?n (hd_file d)"
    using assms(2) by (simp add: read_from_backend_def task_regs_def Let_def)
  have run: "hd_run (task_file n l 0x20) d =
      Inr (?r\<lparr>hd_lba := l, hd_sector_numbers_cmd := unat n\<rparr>, [], snd (read_from_backend ?t))"
    using lba
    by (simp add: task_file_run HardDisk_process_cmd_def t case_prod_beta)
       (simp add: task_regs_def read_from_backend_def Let_def)
  show ?thesis
    using buf assms(2)
    by (intro exI [of _ "?r\<lparr>hd_lba := l, hd_sector_numbers_cmd := unat n\<rparr>"])
       (simp add: run, simp add: task_regs_def read_from_backend_def Let_def)
qed

section \<open>The interrupt line\<close>

definition hd_line :: "hard_disk \<Rightarrow> u16" where
  "hd_line d = (if hd_interrupt_raised d then 1 else 0)"

fun disables :: "hd_access \<Rightarrow> bool" where
  "disables (OutB a v) = (a = DCR_addr \<and> v \<noteq> 0x00)"
| "disables _ = False"

lemma read_from_backend_line:
  "read_from_backend d = (d', es) \<Longrightarrow> line_level INT_IDE_HDD es (hd_line d) = hd_line d'"
  by (auto simp: read_from_backend_def hd_line_def Let_def split: if_splits)

lemma hd_line_update [simp]:
  "hd_line (d\<lparr>hd_STS := s\<rparr>) = hd_line d"
  "hd_line (d\<lparr>hd_lba := l\<rparr>) = hd_line d"
  "hd_line (d\<lparr>hd_sector_numbers_cmd := n\<rparr>) = hd_line d"
  "hd_line (d\<lparr>hd_current_position := n\<rparr>) = hd_line d"
  "hd_line (d\<lparr>hd_BR := w\<rparr>) = hd_line d"
  "hd_line (d\<lparr>hd_new_buffer := b\<rparr>) = hd_line d"
  "hd_line (d\<lparr>hd_CMD := c\<rparr>) = hd_line d"
  by (simp_all add: hd_line_def)

lemma process_cmd_line:
  assumes "HardDisk_process_cmd d = (d', es)"
  shows "line_level INT_IDE_HDD es (hd_line d) = hd_line d'"
  using assms
    read_from_backend_line [OF surjective_pairing,
      of "d\<lparr>hd_STS := (hd_STS d AND NOT BUSY_MASK) OR DRQ_MASK\<rparr>"]
  by (auto simp: HardDisk_process_cmd_def case_prod_beta split: if_splits)

lemma read_BR_line:
  assumes "read_BR_register d = Inr (w, d', es)"
  shows "line_level INT_IDE_HDD es (hd_line d) = hd_line d'"
  using assms
  by (auto simp: read_BR_register_def Let_def split: if_splits prod.splits
      dest!: read_from_backend_line)

lemma hd_step_line:
  assumes "hd_step x d = Inr (d', vs, es)" "\<not> disables x"
  shows "line_level INT_IDE_HDD es (hd_line d) = hd_line d'"
proof (cases x)
  case (OutB a v)
  then show ?thesis
    using assms process_cmd_line [OF surjective_pairing, of "d\<lparr>hd_CMD := v\<rparr>"]
    by (auto simp: HardDisk_write_reg_byte_def case_prod_beta hd_line_def split: if_splits)
next
  case (InB a)
  then show ?thesis
    using assms by (auto simp: HardDisk_read_reg_byte_def hd_line_def split: if_splits)
next
  case (OutW a v)
  then show ?thesis
    using assms
    by (auto simp: HardDisk_write_reg_word_def write_BR_register_def hd_line_def Let_def
        split: if_splits)
next
  case (InW a)
  then show ?thesis
    using assms by (auto simp: HardDisk_read_reg_word_def split: if_splits dest: read_BR_line)
qed

lemma hd_run_line:
  "hd_run xs d = Inr (d', vs, es) \<Longrightarrow> \<not> list_ex disables xs \<Longrightarrow>
   line_level INT_IDE_HDD es (hd_line d) = hd_line d'"
  by (induction xs arbitrary: d vs es)
     (auto simp: then_run_eq_Inr simp del: hd_step.simps dest!: hd_step_line)

section \<open>The byte registers as a port device\<close>

definition hd_out :: "io_addr \<Rightarrow> u8 \<Rightarrow> hard_disk \<Rightarrow> hard_disk" where
  "hd_out a v d = fst (HardDisk_write_reg_byte a v d)"

definition hd_in :: "io_addr \<Rightarrow> hard_disk \<Rightarrow> u8 \<times> hard_disk" where
  "hd_in a d = (let (v, d', _) = HardDisk_read_reg_byte a d in (v, d'))"

interpretation hdd: port_device hd_out hd_in hd_inv
  by unfold_locales
     (simp_all add: hd_out_def hd_in_def case_prod_beta Let_def write_reg_byte_inv read_reg_byte_inv)

section \<open>Properties\<close>

lemma HardDisk_new_inv: "HardDisk_new junk n f = Inr d \<Longrightarrow> hd_inv d \<and> hd_line d = 0"
  by (auto simp: HardDisk_new_def hd_inv_def sts_wf_def hd_line_def)


definition two_blocks :: host_file where
  "two_blocks = \<lparr>hf_contents = Some (replicate 512 7 @ replicate 512 9), hf_readable = True,
     hf_writable = True\<rparr>"

definition small_disk :: hard_disk where
  "small_disk = \<lparr>hd_BR = 0, hd_SCR = 0, hd_SNR = 0, hd_CNH = 0, hd_CNL = 0, hd_HND = 0, hd_ERR = 0,
       hd_STS = 0, hd_CMD = 0, hd_DCR = 0x02, hd_DAR = 0, hd_ASR = 0,
       hd_interrupt_enabled = False, hd_internal_buffer = replicate BLOCK_SIZE_BYTE 0,
       hd_new_buffer = False, hd_current_position = 0, hd_sector_numbers_cmd = 0,
       hd_current_sector_number = 0, hd_lba = 0, hd_num_sector_hdd = 2,
       hd_disk_manager = disk_of 2, hd_file = two_blocks, hd_interrupt_raised = False \<rparr>"

lemma small_disk_new: "HardDisk_new [] 2 two_blocks = Inr small_disk"
  by (simp add: HardDisk_new_def DiskManager_new_def check_consistency_def hf_tellg_end_def
      two_blocks_def small_disk_def disk_of_def Let_def)

lemma two_blocks_ok: "disk_ok 2 two_blocks"
  by (simp add: disk_ok_def two_blocks_def)

lemma small_disk_fields:
  "hd_inv small_disk" "hd_disk_manager small_disk = disk_of 2" "hd_file small_disk = two_blocks"
  "hd_current_position small_disk = 0" "hd_current_sector_number small_disk = 0"
  "hd_lba small_disk = 0" "hd_interrupt_enabled small_disk = False"
  by (simp_all add: small_disk_def hd_inv_def sts_wf_def)


text \<open>
  (C8) The write command: programming the task file for block \<open>l\<close> and writing whole sectors to
  the data register stores exactly those sectors, in order, in the consecutive blocks that start
  at \<open>l\<close> plus the number of sectors transferred since power-on, and changes no other block. At
  the end the disk is not busy, and requests more data unless the command's sector count equals
  the sectors transferred since power-on. One interrupt is raised per sector if enabled. For the
  first command after power-on this is the ATA command; a later one is displaced.
\<close>

theorem hd_write_command:
  assumes "hd_inv d" "hd_current_position d = 0" "hd_disk_manager d = disk_of nb"
    "disk_ok nb (hd_file d)" "secs \<noteq> []" "\<forall>ws\<in>set secs. length ws = 256"
    "unat l + hd_current_sector_number d + length secs \<le> nb"
  shows "\<exists>d' es. hd_run (task_file n l 0x30 @ map (OutW BR_addr) (concat secs)) d = Inr (d', [], es) \<and>
    disk_ok nb (hd_file d') \<and>
    (\<forall>m<nb. file_block m (hd_file d') =
       (let b = unat l + hd_current_sector_number d
        in if b \<le> m \<and> m < b + length secs then sector_bytes (secs ! (m - b))
           else file_block m (hd_file d))) \<and>
    hd_STS d' AND 0x88 = (if unat n = hd_current_sector_number d + length secs then 0 else 0x08) \<and>
    es = (if hd_interrupt_enabled d then replicate (length secs) (INT_IDE_HDD, 1) else [])"
proof -
  let ?b = "unat l + hd_current_sector_number d"
  let ?d = "(task_regs n l 0x30 d)\<lparr>hd_STS := (hd_STS d OR DRQ_MASK) AND NOT BUSY_MASK,
           hd_lba := l, hd_sector_numbers_cmd := unat n\<rparr>"
  have "unat l < 2 ^ 28" using assms(4,7) by (simp add: disk_ok_def)
  then have cmd: "hd_run (task_file n l 0x30) d = Inr (?d, [], [])" by (rule write_command_state)
  have fields: "hd_current_position ?d = 0" "length (hd_internal_buffer ?d) = 512"
    "hd_disk_manager ?d = disk_of nb" "hd_file ?d = hd_file d" "hd_lba ?d = l"
    "hd_current_sector_number ?d = hd_current_sector_number d"
    "hd_interrupt_enabled ?d = hd_interrupt_enabled d" "sts_wf (hd_STS ?d)"
    using assms(1-3) by (simp_all add: task_regs_def hd_inv_def)
  obtain d' where d': "hd_run (map (OutW BR_addr) (concat secs)) ?d = Inr (d', [],
      if hd_interrupt_enabled d then replicate (length secs) (INT_IDE_HDD, 1) else [])"
    "hd_file d' = disk.wr_run (map sector_bytes secs) ?b (hd_file d)"
    "hd_STS d' AND 0x88 = (if unat n = hd_current_sector_number d + length secs then 0 else 0x08)"
    using write_sectors [of ?d nb secs] assms fields by auto
  have blk: "list_all (\<lambda>b. length b = 512) (map sector_bytes secs)"
    using assms(6) by (simp add: list_all_iff)
  have "file_block m (hd_file d') = (if ?b \<le> m \<and> m < ?b + length secs
      then sector_bytes (secs ! (m - ?b)) else file_block m (hd_file d))" if "m < nb" for m
    using disk.wr_run_rd [OF assms(4) _ blk that, of ?b] assms(7) d'(2) by auto
  moreover have "disk_ok nb (hd_file d')"
    using disk.wr_run_ok [OF assms(4) _ blk, of ?b] assms(7) d'(2) by simp
  ultimately show ?thesis
    using d' by (simp add: hd_run_append cmd then_run_def Let_def)
qed

theorem hd_write_command_witness:
  "\<exists>d' es. hd_run (task_file 1 1 0x30 @ map (OutW BR_addr) (concat [replicate 256 0xABCD])) small_disk
       = Inr (d', [], es) \<and>
     file_block 1 (hd_file d') = sector_bytes (replicate 256 0xABCD) \<and> hd_STS d' AND 0x88 = 0"
proof -
  obtain d' es where d': "hd_run (task_file 1 1 0x30 @
        map (OutW BR_addr) (concat [replicate 256 0xABCD])) small_disk = Inr (d', [], es)"
    "\<forall>m<2. file_block m (hd_file d') = (let b = unat (1 :: u32) + hd_current_sector_number small_disk
        in if b \<le> m \<and> m < b + length [replicate 256 (0xABCD :: u16)]
           then sector_bytes ([replicate 256 0xABCD] ! (m - b))
           else file_block m (hd_file small_disk))"
    "hd_STS d' AND 0x88 = (if unat (1 :: u8) = hd_current_sector_number small_disk +
        length [replicate 256 (0xABCD :: u16)] then 0 else 0x08)"
    using hd_write_command [of small_disk 2 "[replicate 256 0xABCD]" 1 1]
    by (auto simp add: small_disk_fields two_blocks_ok simp del: concat.simps map_append)
  then show ?thesis by (auto simp add: small_disk_fields simp del: concat.simps)
qed

text \<open>
  (C9) The read command: after programming the task file for \<open>n\<close> sectors from block \<open>l\<close>, with
  \<open>c\<close> sectors transferred since power-on and \<open>k + 1 = n - c\<close> still to come, the data register
  delivers \<open>k + 1\<close> sectors and then stops requesting. All but the first come from the blocks
  \<open>l + c + 1\<close>, \<open>l + c + 2\<close>, and so on. The first one was loaded before the new address took
  effect: it is the block addressed by the previous command (block 0 after power-on), displaced
  by \<open>c\<close>. So the data is the one asked for only if \<open>c\<close> is 0 and the previous command addressed
  \<open>l\<close> too. The image is not changed.
\<close>

theorem hd_read_command:
  assumes "hd_inv d" "hd_current_position d = 0" "hd_disk_manager d = disk_of nb"
    "disk_ok nb (hd_file d)" "unat n = hd_current_sector_number d + k + 1"
    "unat l + unat n \<le> nb" "unat (hd_lba d) + hd_current_sector_number d < nb"
  shows "\<exists>d'. hd_run (task_file n l 0x20 @ replicate (256 * (k + 1)) (InW BR_addr)) d =
      Inr (d',
        sector_words (file_block (unat (hd_lba d) + hd_current_sector_number d) (hd_file d)) @
        concat (map (\<lambda>i. sector_words (file_block i (hd_file d)))
          [unat l + hd_current_sector_number d + 1 ..< unat l + unat n]),
        if hd_interrupt_enabled d then replicate (k + 1) (INT_IDE_HDD, 1) else []) \<and>
    hd_STS d' AND 0x88 = 0 \<and> hd_file d' = hd_file d \<and> hd_lba d' = l"
proof -
  have "unat l < 2 ^ 28" using assms(4,6) by (simp add: disk_ok_def)
  then obtain d1 where cmd: "hd_run (task_file n l 0x20) d =
        Inr (d1, [], if hd_interrupt_enabled d then [(INT_IDE_HDD, 1)] else [])"
    and d1: "hd_internal_buffer d1 =
        file_block (unat (hd_lba d) + hd_current_sector_number d) (hd_file d)"
      "hd_lba d1 = l" "hd_sector_numbers_cmd d1 = unat n"
      "hd_current_sector_number d1 = hd_current_sector_number d + 1"
      "hd_current_position d1 = 0" "hd_file d1 = hd_file d" "hd_disk_manager d1 = disk_of nb"
      "hd_interrupt_enabled d1 = hd_interrupt_enabled d" "hd_STS d1 = (hd_STS d AND NOT BUSY_MASK) OR DRQ_MASK"
    using read_command_state [of l d nb n] assms by (auto simp: hd_inv_def)
  have inv: "hd_inv d1" using hd_run_inv [OF assms(1) cmd] .
  then obtain d' where "hd_run (replicate (256 * (k + 1)) (InW BR_addr)) d1 =
      Inr (d', sector_words (hd_internal_buffer d1) @
        concat (map (\<lambda>i. sector_words (file_block i (hd_file d)))
          [unat l + (hd_current_sector_number d + 1) ..< unat l + unat n]),
        if hd_interrupt_enabled d then replicate k (INT_IDE_HDD, 1) else [])"
    "hd_STS d' AND 0x88 = 0" "hd_file d' = hd_file d" "hd_lba d' = l"
    using read_sectors [of d1 nb k] d1 assms by (auto simp: hd_inv_def)
  then show ?thesis
    unfolding hd_run_append cmd using d1(1) by (auto simp: then_run_def)
qed

theorem hd_read_command_witness:
  "\<exists>d'. hd_run (task_file 1 1 0x20 @ replicate (256 * (0 + 1)) (InW BR_addr)) small_disk =
      Inr (d', sector_words (file_block 0 two_blocks), []) \<and>
    file_block 0 two_blocks \<noteq> file_block 1 two_blocks"
proof -
  have "file_block 0 two_blocks ! 0 = 7" "file_block 1 two_blocks ! 0 = 9"
    by (simp_all add: file_block_def two_blocks_def get_bytes_def)
  then have "file_block 0 two_blocks \<noteq> file_block 1 two_blocks" by auto
  then show ?thesis
    using hd_read_command [of small_disk 2 1 0 1]
    by (auto simp add: small_disk_fields two_blocks_ok simp del: replicate.simps)
qed

text \<open>
  The sector counter survives a command: after a first command of \<open>n\<close> sectors has been
  completed, reading the blocks just written back with a second command for the same sectors
  returns, as its first sector, block \<open>l + n\<close>, which the first command did not write.
\<close>

theorem hd_counter_not_reset:
  assumes "hd_inv d" "hd_current_position d = 0" "hd_disk_manager d = disk_of nb"
    "disk_ok nb (hd_file d)" "hd_current_sector_number d = 0" "secs \<noteq> []"
    "\<forall>ws\<in>set secs. length ws = 256" "unat l + length secs < nb"
  shows "\<exists>d' es. hd_run (task_file n l 0x30 @ map (OutW BR_addr) (concat secs) @
      task_file n l 0x20) d = Inr (d', [], es) \<and>
    hd_internal_buffer d' = file_block (unat l + length secs) (hd_file d)"
proof -
  let ?d = "(task_regs n l 0x30 d)\<lparr>hd_STS := (hd_STS d OR DRQ_MASK) AND NOT BUSY_MASK,
           hd_lba := l, hd_sector_numbers_cmd := unat n\<rparr>"
  have l: "unat l < 2 ^ 28" using assms(4,8) by (simp add: disk_ok_def)
  then have cmd: "hd_run (task_file n l 0x30) d = Inr (?d, [], [])" by (rule write_command_state)
  have fields: "hd_current_position ?d = 0" "length (hd_internal_buffer ?d) = 512"
    "hd_disk_manager ?d = disk_of nb" "hd_file ?d = hd_file d" "hd_lba ?d = l"
    "hd_current_sector_number ?d = 0" "sts_wf (hd_STS ?d)" "hd_inv ?d"
    using assms(1-3,5) by (simp_all add: task_regs_def hd_inv_def)
  obtain d1 es where d1: "hd_run (map (OutW BR_addr) (concat secs)) ?d = Inr (d1, [], es)"
    "hd_file d1 = disk.wr_run (map sector_bytes secs) (unat l) (hd_file d)"
    "hd_current_sector_number d1 = length secs"
    using write_sectors [of ?d nb secs] assms fields by auto
  have keep: "hd_lba d1 = l" "hd_disk_manager d1 = disk_of nb"
    using hd_run_data_frame [OF d1(1)] fields by simp_all
  have blk: "list_all (\<lambda>b. length b = 512) (map sector_bytes secs)"
    using assms(7) by (simp add: list_all_iff)
  have ok: "disk_ok nb (hd_file d1)"
    using disk.wr_run_ok [OF assms(4) _ blk, of "unat l"] assms(8) d1(2) by simp
  have "length (hd_internal_buffer d1) = 512"
    using hd_run_inv [OF fields(8) d1(1)] by (simp add: hd_inv_def)
  then obtain d2 where d2: "hd_run (task_file n l 0x20) d1 =
        Inr (d2, [], if hd_interrupt_enabled d1 then [(INT_IDE_HDD, 1)] else [])"
      "hd_internal_buffer d2 = file_block (unat l + length secs) (hd_file d1)"
    using read_command_state [of l d1 nb n] l ok keep d1(3) assms(8) by auto
  have "file_block (unat l + length secs) (hd_file d1) = file_block (unat l + length secs) (hd_file d)"
    using disk.wr_run_rd [OF assms(4) _ blk assms(8), of "unat l"] assms(8) d1(2) by simp
  then show ?thesis
    using d2 d1(1) by (simp add: hd_run_append cmd then_run_def)
qed

theorem hd_counter_not_reset_witness:
  "\<exists>d' es. hd_run (task_file 1 0 0x30 @ map (OutW BR_addr) (concat [replicate 256 0xABCD]) @
      task_file 1 0 0x20) small_disk = Inr (d', [], es) \<and>
    hd_internal_buffer d' = file_block 1 two_blocks"
  using hd_counter_not_reset [of small_disk 2 "[replicate 256 0xABCD]" 0 1]
  by (auto simp add: small_disk_fields two_blocks_ok simp del: concat.simps map_append)

text \<open>
  The interrupt line of the disk: as long as the guest does not disable the disk's
  interrupts, line 14 was last driven to 1 exactly when the disk remembers a raised interrupt,
  and reading the status register then drives it low. Disabling interrupts forgets a raised
  interrupt without driving the line low: no later status read lowers it.
\<close>

theorem hd_irq_line:
  assumes "HardDisk_new junk n f = Inr d0" "hd_run xs d0 = Inr (d, vs, es)"
    "\<not> list_ex disables xs"
  shows "line_level INT_IDE_HDD es 0 = (if hd_interrupt_raised d then 1 else 0) \<and>
    hd_run [InB STS_addr] d = Inr (d\<lparr>hd_interrupt_raised := False\<rparr>, [ucast (hd_STS d)],
      if hd_interrupt_raised d then [(INT_IDE_HDD, 0)] else []) \<and>
    hd_run [OutB DCR_addr 0x02, InB STS_addr] d =
      Inr (d\<lparr>hd_DCR := 0x02, hd_interrupt_enabled := False, hd_interrupt_raised := False\<rparr>,
           [ucast (hd_STS d)], [])"
proof -
  have "line_level INT_IDE_HDD es 0 = hd_line d"
    using hd_run_line [OF assms(2,3)] HardDisk_new_inv [OF assms(1)] by simp
  moreover have "\<not> hd_interrupt_raised d \<Longrightarrow> d\<lparr>hd_interrupt_raised := False\<rparr> = d" by simp
  ultimately show ?thesis
    by (simp add: hd_line_def HardDisk_read_reg_byte_def HardDisk_write_reg_byte_def then_run_def)
qed

theorem hd_irq_line_witness:
  "\<exists>d vs es. hd_run [OutB DCR_addr 0, OutB CMD_addr 0x20] small_disk = Inr (d, vs, es) \<and>
     line_level INT_IDE_HDD es 0 = 1"
proof -
  let ?xs = "[OutB DCR_addr 0, OutB CMD_addr 0x20]"
  have "\<exists>d vs es. hd_run ?xs small_disk = Inr (d, vs, es) \<and> hd_interrupt_raised d"
    by (simp add: HardDisk_write_reg_byte_def HardDisk_process_cmd_def read_from_backend_def
        then_run_def Let_def)
  then obtain d vs es where run: "hd_run ?xs small_disk = Inr (d, vs, es)" and r: "hd_interrupt_raised d"
    by blast
  have "\<not> list_ex disables ?xs" by simp
  then have "line_level INT_IDE_HDD es 0 = 1"
    using hd_irq_line [OF small_disk_new run] r by simp
  then show ?thesis using run by blast
qed

end
