(* ===== verification/PciDevice.thy ===== *)
theory PciDevice
  imports Prelude
begin

text \<open>
  PCI functions, \<open>frontend/PCIDevice.h\<close> and \<open>frontend/PCIDevice.cpp\<close>: the packed structure
  \<open>deviceRegisters\<close> is kept as the 192 bytes it occupies, because the configuration accesses
  address it as bytes, words and double words at arbitrary offsets. The accessors of the
  vendor, device and class codes and of the base address registers read and write the byte
  ranges of their fields.
\<close>

section \<open>The configuration space\<close>

record pci_device =
  pd_registers :: "u8 list"

abbreviation PCI_REGS_SIZE :: nat where "PCI_REGS_SIZE \<equiv> 192"

definition pci_wf :: "pci_device \<Rightarrow> bool" where
  "pci_wf p \<longleftrightarrow> length (pd_registers p) = PCI_REGS_SIZE"

text \<open>A field of \<open>n\<close> bytes at a byte offset, little endian as on the host.\<close>

definition field_get :: "nat \<Rightarrow> nat \<Rightarrow> pci_device \<Rightarrow> nat" where
  "field_get off n p = le_val (get_bytes off n (pd_registers p))"

definition field_put :: "nat \<Rightarrow> nat \<Rightarrow> nat \<Rightarrow> pci_device \<Rightarrow> pci_device" where
  "field_put off n v p = p\<lparr>pd_registers := put_bytes off (le_bytes n v) (pd_registers p)\<rparr>"

text \<open>Offsets: \<open>vendorID\<close> 0, \<open>deviceID\<close> 2, \<open>classCode\<close> 9 to 11, \<open>BAR[i]\<close> 16 + 4 i.\<close>

definition getVendorID :: "pci_device \<Rightarrow> u16" where
  "getVendorID p = of_nat (field_get 0 2 p)"

definition getDeviceID :: "pci_device \<Rightarrow> u16" where
  "getDeviceID p = of_nat (field_get 2 2 p)"

definition getClassCode :: "pci_device \<Rightarrow> u32" where
  "getClassCode p =
     of_nat (field_get 9 1 p) OR push_bit 8 (of_nat (field_get 10 1 p)) OR
     push_bit 16 (of_nat (field_get 11 1 p))"

definition getBar :: "u8 \<Rightarrow> pci_device \<Rightarrow> u32" where
  "getBar index p = (if index > 5 then - 1 else of_nat (field_get (16 + 4 * unat index) 4 p))"

definition setBar :: "u32 \<Rightarrow> u8 \<Rightarrow> pci_device \<Rightarrow> pci_device" where
  "setBar v index p = (if index > 5 then p else field_put (16 + 4 * unat index) 4 (unat v) p)"

text \<open>The two constructors, on the memory \<open>p0\<close> the object is built in.\<close>

definition clear_bars :: "pci_device \<Rightarrow> pci_device" where
  "clear_bars p = fold (\<lambda>i. field_put (16 + 4 * i) 4 0) [0..<6] p"

definition PCIDevice_new :: "u16 \<Rightarrow> u16 \<Rightarrow> pci_device \<Rightarrow> pci_device" where
  "PCIDevice_new vid did p0 =
     clear_bars (field_put 2 2 (unat did) (field_put 0 2 (unat vid) p0))"

definition PCIDevice_new_class :: "u16 \<Rightarrow> u16 \<Rightarrow> u32 \<Rightarrow> pci_device \<Rightarrow> pci_device" where
  "PCIDevice_new_class vid did cc p0 =
     clear_bars
       (field_put 11 1 (unat (ucast (drop_bit 16 cc) :: u8))
         (field_put 10 1 (unat (ucast (drop_bit 8 cc) :: u8))
           (field_put 9 1 (unat (ucast cc :: u8))
             (field_put 2 2 (unat did) (field_put 0 2 (unat vid) p0)))))"

text \<open>
  The configuration accesses. The guard computes \<open>offset + n\<close> in 32 bits; the access itself
  adds the 32-bit offset to a 64-bit pointer, so an offset that wraps in the guard lands far
  outside the structure.
\<close>

definition write_reg_byte_PCI :: "u32 \<Rightarrow> u8 \<Rightarrow> pci_device \<Rightarrow> pci_device res" where
  "write_reg_byte_PCI offset val p =
     (if unat (offset + 1) > PCI_REGS_SIZE then Inr p
      else if unat offset + 1 > PCI_REGS_SIZE then Inl OutOfBounds
      else Inr (field_put (unat offset) 1 (unat val) p))"

definition write_reg_word_PCI :: "u32 \<Rightarrow> u16 \<Rightarrow> pci_device \<Rightarrow> pci_device res" where
  "write_reg_word_PCI offset val p =
     (if unat (offset + 2) > PCI_REGS_SIZE then Inr p
      else if unat offset + 2 > PCI_REGS_SIZE then Inl OutOfBounds
      else Inr (field_put (unat offset) 2 (unat val) p))"

definition write_reg_long_PCI :: "u32 \<Rightarrow> u32 \<Rightarrow> pci_device \<Rightarrow> pci_device res" where
  "write_reg_long_PCI offset val p =
     (if unat (offset + 4) > PCI_REGS_SIZE then Inr p
      else if unat offset + 4 > PCI_REGS_SIZE then Inl OutOfBounds
      else Inr (field_put (unat offset) 4 (unat val) p))"

definition read_reg_byte_PCI :: "u32 \<Rightarrow> pci_device \<Rightarrow> u8 res" where
  "read_reg_byte_PCI offset p =
     (if unat (offset + 1) > PCI_REGS_SIZE then Inr 0
      else if unat offset + 1 > PCI_REGS_SIZE then Inl OutOfBounds
      else Inr (of_nat (field_get (unat offset) 1 p)))"

definition read_reg_word_PCI :: "u32 \<Rightarrow> pci_device \<Rightarrow> u16 res" where
  "read_reg_word_PCI offset p =
     (if unat (offset + 2) > PCI_REGS_SIZE then Inr 0
      else if unat offset + 2 > PCI_REGS_SIZE then Inl OutOfBounds
      else Inr (of_nat (field_get (unat offset) 2 p)))"

definition read_reg_long_PCI :: "u32 \<Rightarrow> pci_device \<Rightarrow> u32 res" where
  "read_reg_long_PCI offset p =
     (if unat (offset + 4) > PCI_REGS_SIZE then Inr 0
      else if unat offset + 4 > PCI_REGS_SIZE then Inl OutOfBounds
      else Inr (of_nat (field_get (unat offset) 4 p)))"

lemmas config_defs =
  write_reg_byte_PCI_def write_reg_word_PCI_def write_reg_long_PCI_def
  read_reg_byte_PCI_def read_reg_word_PCI_def read_reg_long_PCI_def

section \<open>Fields\<close>

lemma field_put_wf [simp]: "off + n \<le> 192 \<Longrightarrow> pci_wf p \<Longrightarrow> pci_wf (field_put off n v p)"
  by (simp add: pci_wf_def field_put_def range_simps)

lemma field_get_put_same:
  assumes "pci_wf p" "off + n \<le> 192"
  shows "field_get off n (field_put off n v p) = v mod 256 ^ n"
  using assms get_put_same [of off "le_bytes n v" "pd_registers p"]
  by (simp add: pci_wf_def field_get_def field_put_def le_val_le_bytes)

lemma field_get_put_other:
  assumes "pci_wf p" "off + n \<le> 192" "off' + m \<le> 192" "off' + m \<le> off \<or> off + n \<le> off'"
  shows "field_get off' m (field_put off n v p) = field_get off' m p"
  using assms get_put_disjoint [of off "le_bytes n v" "pd_registers p" off' m]
  by (simp add: pci_wf_def field_get_def field_put_def)

lemma clear_bars_fields:
  assumes "pci_wf p"
  shows "pci_wf (clear_bars p)"
    and "i < 6 \<Longrightarrow> field_get (16 + 4 * i) 4 (clear_bars p) = 0"
    and "off + n \<le> 16 \<Longrightarrow> field_get off n (clear_bars p) = field_get off n p"
proof -
  have step: "pci_wf (fold (\<lambda>i. field_put (16 + 4 * i) 4 0) [0..<k] p) \<and>
      (\<forall>i<k. field_get (16 + 4 * i) 4 (fold (\<lambda>i. field_put (16 + 4 * i) 4 0) [0..<k] p) = 0) \<and>
      (off + n \<le> 16 \<longrightarrow> field_get off n (fold (\<lambda>i. field_put (16 + 4 * i) 4 0) [0..<k] p) =
        field_get off n p)" if "k \<le> 6" for k off n
    using that
  proof (induction k)
    case 0
    then show ?case using assms by simp
  next
    case (Suc k)
    have "field_get (16 + 4 * i) 4 (field_put (16 + 4 * k) 4 0 q) =
        (if i = k then 0 else field_get (16 + 4 * i) 4 q)" if "pci_wf q" "i \<le> k" for i q
      using that Suc.prems by (auto simp: field_get_put_same field_get_put_other)
    then show ?case
      using Suc by (auto simp: field_get_put_other less_Suc_eq)
  qed
  show "pci_wf (clear_bars p)" using step [of 6] by (simp add: clear_bars_def)
  show "i < 6 \<Longrightarrow> field_get (16 + 4 * i) 4 (clear_bars p) = 0"
    using step [of 6] by (simp add: clear_bars_def)
  show "off + n \<le> 16 \<Longrightarrow> field_get off n (clear_bars p) = field_get off n p"
    using step [of 6 off n] by (simp add: clear_bars_def)
qed

section \<open>The contract of a configuration access\<close>

text \<open>
  What the bus relies on, for each of the three widths: an access whose last byte is not past
  the end of the 32-bit offset space is defined; inside the structure a read returns what was
  last written there and a write does not touch disjoint fields; outside, a write is ignored
  and a read returns 0.
\<close>

locale config_register =
  fixes n :: nat
    and wr :: "u32 \<Rightarrow> 'v :: zero \<Rightarrow> pci_device \<Rightarrow> pci_device res"
    and rd :: "u32 \<Rightarrow> pci_device \<Rightarrow> 'v res"
  assumes width: "0 < n" "n \<le> 4"
    and wr_inside: "pci_wf p \<Longrightarrow> unat off + n \<le> 192 \<Longrightarrow>
        \<exists>p'. wr off v p = Inr p' \<and> pci_wf p' \<and> rd off p' = Inr v \<and>
          (\<forall>off' m. off' + m \<le> 192 \<longrightarrow> off' + m \<le> unat off \<or> unat off + n \<le> off' \<longrightarrow>
             field_get off' m p' = field_get off' m p)"
    and rd_field: "unat off + n \<le> 192 \<Longrightarrow>
        field_get (unat off) n p = field_get (unat off) n p' \<Longrightarrow> rd off p = rd off p'"
    and outside: "192 < unat off + n \<Longrightarrow> unat off < 2 ^ 32 - 4 \<Longrightarrow> wr off v p = Inr p \<and> rd off p = Inr 0"
begin

lemma wr_defined:
  assumes "pci_wf p" "unat off < 2 ^ 32 - 4"
  shows "\<exists>p'. wr off v p = Inr p' \<and> pci_wf p'"
  using wr_inside [of p off v] outside [of off v p] assms by (cases "unat off + n \<le> 192") auto

lemma wr_rd_other:
  assumes "pci_wf p" "unat off + n \<le> 192" "unat off' + n \<le> 192"
    "unat off' + n \<le> unat off \<or> unat off + n \<le> unat off'" "wr off v p = Inr p'"
  shows "rd off' p' = rd off' p"
proof -
  have "field_get (unat off') n p' = field_get (unat off') n p"
    using wr_inside [of p off v] assms by auto
  then show ?thesis using rd_field assms(3) by blast
qed

text \<open>A sequence of writes at pairwise disjoint offsets: every value can be read back.\<close>

primrec wr_list :: "(u32 \<times> 'v) list \<Rightarrow> pci_device \<Rightarrow> pci_device res" where
  "wr_list [] p = Inr p"
| "wr_list (x # xs) p = bind_res (wr (fst x) (snd x) p) (wr_list xs)"

definition apart :: "u32 \<Rightarrow> u32 \<Rightarrow> bool" where
  "apart o1 o2 \<longleftrightarrow> unat o1 + n \<le> unat o2 \<or> unat o2 + n \<le> unat o1"

lemma wr_list_other:
  assumes "pci_wf p" "unat off + n \<le> 192" "\<forall>x\<in>set xs. unat (fst x) + n \<le> 192 \<and> apart off (fst x)"
  shows "\<exists>p'. wr_list xs p = Inr p' \<and> pci_wf p' \<and> rd off p' = rd off p"
  using assms
proof (induction xs arbitrary: p)
  case Nil
  then show ?case by simp
next
  case (Cons x xs)
  obtain p1 where p1: "wr (fst x) (snd x) p = Inr p1" "pci_wf p1"
    using wr_inside [of p "fst x" "snd x"] Cons.prems by auto
  moreover have "rd off p1 = rd off p"
    using wr_rd_other [of p "fst x" off "snd x" p1] p1 Cons.prems by (auto simp: apart_def)
  ultimately show ?case using Cons.IH [of p1] Cons.prems by auto
qed

lemma wr_list_rd:
  assumes "pci_wf p" "\<forall>x\<in>set xs. unat (fst x) + n \<le> 192"
    "pairwise (\<lambda>x y. apart (fst x) (fst y)) (set xs)" "distinct xs"
  shows "\<exists>p'. wr_list xs p = Inr p' \<and> pci_wf p' \<and> (\<forall>x\<in>set xs. rd (fst x) p' = Inr (snd x))"
  using assms
proof (induction xs arbitrary: p)
  case Nil
  then show ?case by simp
next
  case (Cons x xs)
  obtain p1 where p1: "wr (fst x) (snd x) p = Inr p1" "pci_wf p1" "rd (fst x) p1 = Inr (snd x)"
    using wr_inside [of p "fst x" "snd x"] Cons.prems by auto
  have ap: "\<forall>y\<in>set xs. unat (fst y) + n \<le> 192 \<and> apart (fst x) (fst y)"
    using Cons.prems by (auto simp: pairwise_def)
  obtain p2 where p2: "wr_list xs p1 = Inr p2" "pci_wf p2" "rd (fst x) p2 = rd (fst x) p1"
    using wr_list_other [OF p1(2) _ ap] Cons.prems by auto
  then have "\<forall>y\<in>set xs. rd (fst y) p2 = Inr (snd y)"
    using Cons.IH [OF p1(2)] Cons.prems by (auto simp: pairwise_insert)
  then show ?case using p1 p2 by simp
qed

end

lemma unat_guard:
  assumes "n \<le> 4" "unat (off :: u32) < 2 ^ 32 - 4"
  shows "unat (off + of_nat n) = unat off + n"
  using assms by (simp add: unat_word_ariths unat_of_nat)

lemma unat_in_range: "unat (off :: u32) + n \<le> 192 \<Longrightarrow> unat off < 2 ^ 32 - 4"
  by simp

interpretation cfg_byte: config_register 1 write_reg_byte_PCI read_reg_byte_PCI
proof unfold_locales
  fix p :: pci_device and off :: u32 and v :: u8
  assume "pci_wf p" "unat off + 1 \<le> 192"
  then show "\<exists>p'. write_reg_byte_PCI off v p = Inr p' \<and> pci_wf p' \<and> read_reg_byte_PCI off p' = Inr v \<and>
      (\<forall>off' m. off' + m \<le> 192 \<longrightarrow> off' + m \<le> unat off \<or> unat off + 1 \<le> off' \<longrightarrow>
         field_get off' m p' = field_get off' m p)"
    using unat_guard [of 1 off] unat_u8_less [of v]
    by (auto simp: config_defs field_get_put_same field_get_put_other)
next
  fix off :: u32 and v :: u8 and p
  assume "192 < unat off + 1" "unat off < 2 ^ 32 - 4"
  then show "write_reg_byte_PCI off v p = Inr p \<and> read_reg_byte_PCI off p = Inr 0"
    using unat_guard [of 1 off] by (simp add: config_defs)
qed (simp_all add: config_defs)

interpretation cfg_word: config_register 2 write_reg_word_PCI read_reg_word_PCI
proof unfold_locales
  fix p :: pci_device and off :: u32 and v :: u16
  assume "pci_wf p" "unat off + 2 \<le> 192"
  then show "\<exists>p'. write_reg_word_PCI off v p = Inr p' \<and> pci_wf p' \<and> read_reg_word_PCI off p' = Inr v \<and>
      (\<forall>off' m. off' + m \<le> 192 \<longrightarrow> off' + m \<le> unat off \<or> unat off + 2 \<le> off' \<longrightarrow>
         field_get off' m p' = field_get off' m p)"
    using unat_guard [of 2 off] unsigned_less [where w = v and 'a = nat]
    by (auto simp: config_defs field_get_put_same field_get_put_other)
next
  fix off :: u32 and v :: u16 and p
  assume "192 < unat off + 2" "unat off < 2 ^ 32 - 4"
  then show "write_reg_word_PCI off v p = Inr p \<and> read_reg_word_PCI off p = Inr 0"
    using unat_guard [of 2 off] by (simp add: config_defs)
qed (simp_all add: config_defs)

interpretation cfg_long: config_register 4 write_reg_long_PCI read_reg_long_PCI
proof unfold_locales
  fix p :: pci_device and off :: u32 and v :: u32
  assume "pci_wf p" "unat off + 4 \<le> 192"
  then show "\<exists>p'. write_reg_long_PCI off v p = Inr p' \<and> pci_wf p' \<and> read_reg_long_PCI off p' = Inr v \<and>
      (\<forall>off' m. off' + m \<le> 192 \<longrightarrow> off' + m \<le> unat off \<or> unat off + 4 \<le> off' \<longrightarrow>
         field_get off' m p' = field_get off' m p)"
    using unat_guard [of 4 off] unsigned_less [where w = v and 'a = nat]
    by (auto simp: config_defs field_get_put_same field_get_put_other)
next
  fix off :: u32 and v :: u32 and p
  assume "192 < unat off + 4" "unat off < 2 ^ 32 - 4"
  then show "write_reg_long_PCI off v p = Inr p \<and> read_reg_long_PCI off p = Inr 0"
    using unat_guard [of 4 off] by (simp add: config_defs)
qed (simp_all add: config_defs)

section \<open>Identification and base addresses\<close>

lemma getBar_setBar:
  assumes "pci_wf p" "i \<le> 5" "j \<le> 5"
  shows "getBar j (setBar v i p) = (if j = i then v else getBar j p)"
proof (cases "j = i")
  case True
  have i: "unat i \<le> 5" "\<not> 5 < i" using assms(2) by (simp_all add: word_le_nat_alt word_less_nat_alt)
  have "unat v < 256 ^ 4" using unsigned_less [where w = v and 'a = nat] by simp
  then show ?thesis
    using True assms i field_get_put_same [of p "16 + 4 * unat i" 4 "unat v"]
    by (simp add: getBar_def setBar_def)
next
  case False
  then have ne: "unat j \<noteq> unat i" by (simp add: word_unat_eq_iff)
  have i: "unat i \<le> 5" "unat j \<le> 5" "\<not> 5 < i" "\<not> 5 < j"
    using assms by (simp_all add: word_le_nat_alt word_less_nat_alt)
  then have "16 + 4 * unat j + 4 \<le> 16 + 4 * unat i \<or> 16 + 4 * unat i + 4 \<le> 16 + 4 * unat j"
    using ne by linarith
  then show ?thesis
    using False assms i field_get_put_other [of p "16 + 4 * unat i" 4 "16 + 4 * unat j" 4 "unat v"]
    by (simp add: getBar_def setBar_def)
qed

lemma setBar_fields:
  assumes "pci_wf p" "i \<le> 5"
  shows "pci_wf (setBar v i p)"
    and "off + n \<le> 16 \<Longrightarrow> field_get off n (setBar v i p) = field_get off n p"
proof -
  have i: "unat i \<le> 5" using assms(2) by (simp add: word_le_nat_alt)
  show "pci_wf (setBar v i p)" using assms i by (simp add: setBar_def)
  show "off + n \<le> 16 \<Longrightarrow> field_get off n (setBar v i p) = field_get off n p"
    using assms i field_get_put_other [of p "16 + 4 * unat i" 4 off n "unat v"]
    by (simp add: setBar_def)
qed

lemma PCIDevice_new_class_fields:
  assumes "pci_wf p0"
  shows "pci_wf (PCIDevice_new_class vid did cc p0)"
    and "getVendorID (PCIDevice_new_class vid did cc p0) = vid"
    and "getDeviceID (PCIDevice_new_class vid did cc p0) = did"
    and "i < 6 \<Longrightarrow> field_get (16 + 4 * i) 4 (PCIDevice_new_class vid did cc p0) = 0"
  using assms unsigned_less [where w = vid and 'a = nat] unsigned_less [where w = did and 'a = nat]
  by (simp_all add: PCIDevice_new_class_def clear_bars_fields getVendorID_def getDeviceID_def
      field_get_put_same field_get_put_other)

lemma getClassCode_new:
  assumes "pci_wf p0" "unat cc < 2 ^ 24"
  shows "getClassCode (PCIDevice_new_class vid did cc p0) = cc"
proof -
  let ?p = "PCIDevice_new_class vid did cc p0"
  have lt: "unat (ucast w :: u8) < 256 ^ 1" for w :: u32 using unat_u8_less by simp
  have f: "field_get 9 1 ?p = unat (ucast cc :: u8)"
    "field_get 10 1 ?p = unat (ucast (drop_bit 8 cc) :: u8)"
    "field_get 11 1 ?p = unat (ucast (drop_bit 16 cc) :: u8)"
    using assms(1) lt
    by (simp_all add: PCIDevice_new_class_def clear_bars_fields field_get_put_same field_get_put_other)
  show ?thesis
    unfolding getClassCode_def f
  proof (rule bit_word_eqI)
    fix n assume "n < LENGTH(32)"
    have high: "\<not> bit cc n" if "24 \<le> n"
    proof -
      have "unat cc < 2 ^ n" using assms(2) that power_increasing [of 24 n "2 :: nat"] by linarith
      then have "\<not> bit (unat cc) n" by (simp add: bit_iff_odd)
      then show ?thesis by (simp add: bit_unsigned_iff)
    qed
    show "bit (of_nat (unat (ucast cc :: u8)) OR
        push_bit 8 (of_nat (unat (ucast (drop_bit 8 cc) :: u8))) OR
        push_bit 16 (of_nat (unat (ucast (drop_bit 16 cc) :: u8))) :: u32) n = bit cc n"
      using \<open>n < LENGTH(32)\<close> high
      by (cases "16 \<le> n"; cases "24 \<le> n") (auto simp: bit_or_iff bit_push_bit_iff bit_ucast_iff bit_drop_bit_eq)
  qed
qed

section \<open>Properties\<close>

text \<open>
  Configuration space accesses of a PCI function are safe and consistent, in each width:
  for every offset below 2^32 - 4 an access is defined and keeps the 192-byte structure; inside
  it, any set of values written at disjoint offsets is read back unchanged; beyond its end
  writes are dropped and reads return 0.
\<close>

theorem pci_config_space:
  assumes "pci_wf p" "unat off < 2 ^ 32 - 4"
  shows "(\<exists>p1 p2 p4. write_reg_byte_PCI off vb p = Inr p1 \<and> write_reg_word_PCI off vw p = Inr p2 \<and>
      write_reg_long_PCI off vl p = Inr p4 \<and> pci_wf p1 \<and> pci_wf p2 \<and> pci_wf p4 \<and>
      read_reg_byte_PCI off p1 = Inr (if unat off + 1 \<le> 192 then vb else 0) \<and>
      read_reg_word_PCI off p2 = Inr (if unat off + 2 \<le> 192 then vw else 0) \<and>
      read_reg_long_PCI off p4 = Inr (if unat off + 4 \<le> 192 then vl else 0)) \<and>
    (\<forall>xs. (\<forall>x\<in>set xs. unat (fst x) + 4 \<le> 192) \<and> distinct xs \<and>
        pairwise (\<lambda>x y. unat (fst x) + 4 \<le> unat (fst y) \<or> unat (fst y) + 4 \<le> unat (fst x)) (set xs) \<longrightarrow>
       (\<exists>p'. fold (\<lambda>x r. bind_res r (write_reg_long_PCI (fst x) (snd x))) xs (Inr p) = Inr p' \<and>
          (\<forall>x\<in>set xs. read_reg_long_PCI (fst x) p' = Inr (snd x))))"
proof -
  have fold: "fold (\<lambda>x r. bind_res r (write_reg_long_PCI (fst x) (snd x))) xs r =
      bind_res r (cfg_long.wr_list xs)" for xs r
    by (induction xs arbitrary: r) (auto simp: bind_res_def split: sum.splits)
  have b: "\<exists>p1. write_reg_byte_PCI off vb p = Inr p1 \<and> pci_wf p1 \<and>
      read_reg_byte_PCI off p1 = Inr (if unat off + 1 \<le> 192 then vb else 0)"
    using cfg_byte.wr_inside [of p off vb] cfg_byte.outside [of off vb p] assms
    by (cases "unat off + 1 \<le> 192") auto
  have w: "\<exists>p1. write_reg_word_PCI off vw p = Inr p1 \<and> pci_wf p1 \<and>
      read_reg_word_PCI off p1 = Inr (if unat off + 2 \<le> 192 then vw else 0)"
    using cfg_word.wr_inside [of p off vw] cfg_word.outside [of off vw p] assms
    by (cases "unat off + 2 \<le> 192") auto
  have l: "\<exists>p1. write_reg_long_PCI off vl p = Inr p1 \<and> pci_wf p1 \<and>
      read_reg_long_PCI off p1 = Inr (if unat off + 4 \<le> 192 then vl else 0)"
    using cfg_long.wr_inside [of p off vl] cfg_long.outside [of off vl p] assms
    by (cases "unat off + 4 \<le> 192") auto
  have "\<exists>p'. fold (\<lambda>x r. bind_res r (write_reg_long_PCI (fst x) (snd x))) xs (Inr p) = Inr p' \<and>
      (\<forall>x\<in>set xs. read_reg_long_PCI (fst x) p' = Inr (snd x))"
    if "\<forall>x\<in>set xs. unat (fst x) + 4 \<le> 192" "distinct xs"
      "pairwise (\<lambda>x y. unat (fst x) + 4 \<le> unat (fst y) \<or> unat (fst y) + 4 \<le> unat (fst x)) (set xs)"
    for xs
    using cfg_long.wr_list_rd [OF assms(1), of xs] that
    by (auto simp: fold cfg_long.apart_def)
  then show ?thesis using b w l by blast
qed

definition blank_device :: pci_device where
  "blank_device = \<lparr>pd_registers = replicate 192 0\<rparr>"

lemma blank_device_wf: "pci_wf blank_device"
  by (simp add: pci_wf_def blank_device_def)

theorem pci_config_space_witness:
  "\<exists>p4. write_reg_long_PCI 0x10 0xC000 blank_device = Inr p4 \<and> read_reg_long_PCI 0x10 p4 = Inr 0xC000"
  using pci_config_space [where p = blank_device and off = "0x10" and vb = 0 and vw = 0 and vl = "0xC000"] by (auto simp: blank_device_wf)

end
