(* ===== verification/PciHost.thy ===== *)
theory PciHost
  imports PciDevice
begin

text \<open>
  The PCI host bridge, \<open>frontend/pci_host.h\<close> and \<open>frontend/pci_host.cpp\<close>, with the two functions
  \<open>kvm.cpp\<close> plugs into it, \<open>frontend/PCI_ATA.cpp\<close> (constructor) and \<open>frontend/PCI_APIC.cpp\<close>. The
  bridge holds pointers to devices that the rest of the program reaches too; a pointer is an
  index into the list of devices, which is passed beside the state of the bridge.
\<close>

section \<open>State\<close>

abbreviation CAP_addr :: io_addr where "CAP_addr \<equiv> 0x0CF8"
abbreviation CDP_addr :: io_addr where "CDP_addr \<equiv> 0x0CFC"
abbreviation N_DEVICES :: nat where "N_DEVICES \<equiv> 32"

text \<open>The members \<open>enabled\<close> and \<open>interrupt_enabled\<close> are never read or written.\<close>

record pci_host =
  ph_CAP :: u32
  ph_CDP :: u32
  ph_device_number :: u32
  ph_bus_number :: u32
  ph_function_number :: u32
  ph_offset_number :: u32
  ph_devices :: "nat option list"
  ph_connected :: nat

type_synonym pci_bus = "pci_host \<times> pci_device list"

section \<open>Construction\<close>

text \<open>The first loop copies the non-null pointers to the front of \<open>devices\<close>.\<close>

definition attach :: "nat option \<Rightarrow> nat option list \<times> nat \<Rightarrow> nat option list \<times> nat" where
  "attach c s = (case c of None \<Rightarrow> s | Some i \<Rightarrow> ((fst s)[snd s := Some i], snd s + 1))"

definition init_bar :: "nat option \<Rightarrow> pci_device list \<Rightarrow> pci_device list" where
  "init_bar c ds =
     (case c of None \<Rightarrow> ds
      | Some i \<Rightarrow>
          if getClassCode (ds ! i) = 0x010100
          then ds[i := setBar 0x03F6 1 (setBar 0x01F0 0 (ds ! i))] else ds)"

text \<open>
  The object is allocated with \<open>new\<close>, so the four numbers decoded from the address register
  hold whatever the memory held (\<open>junk\<close>) until the register is written. The log lines after
  the loops read through \<open>devices[0]\<close> and \<open>devices[1]\<close> whenever one device is connected.
\<close>

definition pci_host_new ::
  "u32 \<times> u32 \<times> u32 \<times> u32 \<Rightarrow> nat option list \<Rightarrow> pci_device list \<Rightarrow> pci_bus res" where
  "pci_host_new junk conn ds =
     (let (devs, n) = fold attach conn (replicate N_DEVICES None, 0);
          ds1 = fold init_bar (take n devs) ds;
          (jd, jb, jf, joff) = junk
      in if n > 0 \<and> devs ! 1 = None then Inl NullDeref
         else Inr (\<lparr>ph_CAP = 0, ph_CDP = 0, ph_device_number = jd, ph_bus_number = jb,
                     ph_function_number = jf, ph_offset_number = joff,
                     ph_devices = devs, ph_connected = n\<rparr>, ds1))"

definition PCI_ATA_new :: "pci_device \<Rightarrow> pci_device" where
  "PCI_ATA_new = PCIDevice_new_class 0x7777 0x8888 0x010100"

definition PCI_APIC_new :: "pci_device \<Rightarrow> pci_device" where
  "PCI_APIC_new = PCIDevice_new_class 0x8086 0x7000 0x123400"

section \<open>Register accesses\<close>

definition prepare_data :: "pci_host \<Rightarrow> pci_host" where
  "prepare_data h = h\<lparr>ph_bus_number := drop_bit 16 (ph_CAP h) AND 0x000000FF,
     ph_device_number := drop_bit 11 (ph_CAP h) AND 0x0000001F,
     ph_function_number := drop_bit 8 (ph_CAP h) AND 0x00000007,
     ph_offset_number := ph_CAP h AND 0x000000FF\<rparr>"

text \<open>\<open>devices[device_number]\<close>, out of bounds when the number is not below 32.\<close>

definition pci_selected :: "pci_host \<Rightarrow> nat option res" where
  "pci_selected h =
     (if length (ph_devices h) \<le> unat (ph_device_number h) then Inl OutOfBounds
      else Inr (ph_devices h ! unat (ph_device_number h)))"

definition pci_host_write_reg_long :: "io_addr \<Rightarrow> u32 \<Rightarrow> pci_bus \<Rightarrow> pci_bus res" where
  "pci_host_write_reg_long addr val b =
     (let (h, ds) = b in
      if addr = CAP_addr then Inr (prepare_data (h\<lparr>ph_CAP := val\<rparr>), ds)
      else bind_res (pci_selected h) (\<lambda>tmp.
        case tmp of None \<Rightarrow> Inr (h, ds)
        | Some i \<Rightarrow>
            if ph_function_number h \<noteq> 0 then Inr (h, ds)
            else bind_res
              (write_reg_long_PCI (ph_offset_number h + ucast addr - ucast CDP_addr) val (ds ! i))
              (\<lambda>p. Inr (h, ds[i := p]))))"

definition pci_host_write_reg_word :: "io_addr \<Rightarrow> u16 \<Rightarrow> pci_bus \<Rightarrow> pci_bus res" where
  "pci_host_write_reg_word addr val b =
     (let (h, ds) = b in
      if addr = CAP_addr then Inr (h, ds)
      else bind_res (pci_selected h) (\<lambda>tmp.
        case tmp of None \<Rightarrow> Inr (h, ds)
        | Some i \<Rightarrow>
            if ph_function_number h \<noteq> 0 then Inr (h, ds)
            else bind_res
              (write_reg_word_PCI (ph_offset_number h + ucast addr - ucast CDP_addr) val (ds ! i))
              (\<lambda>p. Inr (h, ds[i := p]))))"

definition pci_host_write_reg_byte :: "io_addr \<Rightarrow> u8 \<Rightarrow> pci_bus \<Rightarrow> pci_bus res" where
  "pci_host_write_reg_byte addr val b =
     (let (h, ds) = b in
      if addr = CAP_addr then Inr (h, ds)
      else bind_res (pci_selected h) (\<lambda>tmp.
        case tmp of None \<Rightarrow> Inr (h, ds)
        | Some i \<Rightarrow>
            if ph_function_number h \<noteq> 0 then Inr (h, ds)
            else bind_res
              (write_reg_byte_PCI (ph_offset_number h + ucast addr - ucast CDP_addr) val (ds ! i))
              (\<lambda>p. Inr (h, ds[i := p]))))"

definition pci_host_read_reg_long :: "io_addr \<Rightarrow> pci_bus \<Rightarrow> u32 res" where
  "pci_host_read_reg_long addr b =
     (let (h, ds) = b in
      if addr = CAP_addr then Inr (ph_CAP h)
      else bind_res (pci_selected h) (\<lambda>tmp.
        case tmp of None \<Rightarrow> Inr 0xFFFFFFFF
        | Some i \<Rightarrow>
            if ph_function_number h \<noteq> 0 then Inr 0xFFFFFFFF
            else read_reg_long_PCI (ph_offset_number h + ucast addr - ucast CDP_addr) (ds ! i)))"

definition pci_host_read_reg_byte :: "io_addr \<Rightarrow> pci_bus \<Rightarrow> u8 res" where
  "pci_host_read_reg_byte addr b =
     (let (h, ds) = b in
      if addr = CAP_addr then Inr (- 1)
      else bind_res (pci_selected h) (\<lambda>tmp.
        case tmp of None \<Rightarrow> Inr 0xFF
        | Some i \<Rightarrow>
            if ph_function_number h \<noteq> 0 then Inr 0xFF
            else read_reg_byte_PCI (ph_offset_number h + ucast addr - ucast CDP_addr) (ds ! i)))"

text \<open>Only the word read looks at the bus number.\<close>

definition pci_host_read_reg_word :: "io_addr \<Rightarrow> pci_bus \<Rightarrow> u16 res" where
  "pci_host_read_reg_word addr b =
     (let (h, ds) = b in
      if addr = CAP_addr then Inr (- 1)
      else bind_res (pci_selected h) (\<lambda>tmp.
        if ph_bus_number h \<noteq> 0 then Inr 0xFFFF
        else case tmp of None \<Rightarrow> Inr 0xFFFF
        | Some i \<Rightarrow>
            if ph_function_number h \<noteq> 0 then Inr 0xFFFF
            else read_reg_word_PCI (ph_offset_number h + ucast addr - ucast CDP_addr) (ds ! i)))"

lemmas pci_host_defs =
  pci_host_write_reg_long_def pci_host_write_reg_word_def pci_host_write_reg_byte_def
  pci_host_read_reg_long_def pci_host_read_reg_word_def pci_host_read_reg_byte_def

section \<open>Well-formed buses\<close>

definition devices_wf :: "pci_host \<Rightarrow> pci_device list \<Rightarrow> bool" where
  "devices_wf h ds \<longleftrightarrow> length (ph_devices h) = N_DEVICES \<and>
     (\<forall>i. Some i \<in> set (ph_devices h) \<longrightarrow> i < length ds) \<and> list_all pci_wf ds"

definition bus_wf :: "pci_bus \<Rightarrow> bool" where
  "bus_wf b \<longleftrightarrow> devices_wf (fst b) (snd b) \<and> unat (ph_device_number (fst b)) < N_DEVICES \<and>
     unat (ph_offset_number (fst b)) < 256"

text \<open>The ports the run loop forwards to the bridge.\<close>

definition pci_port :: "io_addr \<Rightarrow> bool" where
  "pci_port a \<longleftrightarrow> CDP_addr \<le> a \<and> a \<le> 0x0CFF \<or> a = CAP_addr"

lemma unat_and_mask: "unat (w AND mask n :: u32) < 2 ^ n"
proof -
  have "w AND mask n = take_bit n w" by (simp add: take_bit_eq_mask)
  then show ?thesis by (simp add: unsigned_take_bit_eq take_bit_nat_less_exp)
qed

lemma prepare_data_ranges:
  "unat (ph_device_number (prepare_data h)) < 32"
  "unat (ph_offset_number (prepare_data h)) < 256"
  using unat_and_mask [of "drop_bit 11 (ph_CAP h)" 5] unat_and_mask [of "ph_CAP h" 8]
  by (simp_all add: prepare_data_def mask_eq_exp_minus_1)

text \<open>The offset handed to the device: the decoded offset plus the low bits of the port.\<close>

lemma unat_config_offset:
  assumes "CDP_addr \<le> a" "a \<le> 0x0CFF" "unat (x :: u32) < 256"
  shows "unat (x + ucast a - ucast CDP_addr) = unat x + (unat a - 0xCFC)"
proof -
  have a: "0xCFC \<le> unat a" "unat a \<le> 0xCFF" using assms by (simp_all add: word_le_nat_alt)
  then have u: "unat (ucast a :: u32) = unat a"
    by (simp add: unsigned_ucast_eq take_bit_nat_eq_self)
  have "unat (x + ucast a) = unat x + unat a"
    using assms(3) a u by (simp add: unat_word_ariths)
  moreover have "unat (ucast CDP_addr :: u32) = 0xCFC" by simp
  ultimately show ?thesis
    using a unat_sub [of "ucast CDP_addr" "x + ucast a"] by (simp add: word_le_nat_alt)
qed

lemma bus_wf_update:
  assumes "bus_wf (h, ds)" "pci_wf p"
  shows "bus_wf (h, ds[i := p])"
  using assms
  by (auto simp: bus_wf_def devices_wf_def list_all_iff dest: subsetD [OF set_update_subset_insert])

lemma bus_wf_selected:
  assumes "bus_wf (h, ds)"
  shows "pci_selected h = Inr (ph_devices h ! unat (ph_device_number h))"
    and "ph_devices h ! unat (ph_device_number h) = Some i \<Longrightarrow> i < length ds \<and> pci_wf (ds ! i)"
proof -
  have lt: "unat (ph_device_number h) < length (ph_devices h)"
    using assms by (simp add: bus_wf_def devices_wf_def)
  then show "pci_selected h = Inr (ph_devices h ! unat (ph_device_number h))"
    by (simp add: pci_selected_def)
  show "ph_devices h ! unat (ph_device_number h) = Some i \<Longrightarrow> i < length ds \<and> pci_wf (ds ! i)"
    using nth_mem [OF lt] assms by (auto simp: bus_wf_def devices_wf_def list_all_length)
qed

lemma config_offset_small:
  assumes "bus_wf (h, ds)" "pci_port a" "a \<noteq> CAP_addr"
  shows "unat (ph_offset_number h + ucast a - ucast CDP_addr) < 2 ^ 32 - 4"
proof -
  have a: "CDP_addr \<le> a" "a \<le> 0x0CFF" using assms by (simp_all add: pci_port_def)
  have o: "unat (ph_offset_number h) < 256" using assms(1) by (simp add: bus_wf_def)
  have "unat a \<le> 0xCFF" using a by (simp add: word_le_nat_alt)
  then show ?thesis using unat_config_offset [OF a o] o by simp
qed

text \<open>Every access of the guest is defined and keeps the bus well formed.\<close>

lemma selected_write:
  assumes "bus_wf (h, ds)" "\<And>p. pci_wf p \<Longrightarrow> \<exists>p'. w p = Inr p' \<and> pci_wf p'"
  shows "\<exists>b'. bind_res (pci_selected h) (\<lambda>tmp. case tmp of None \<Rightarrow> Inr (h, ds)
      | Some i \<Rightarrow> if ph_function_number h \<noteq> 0 then Inr (h, ds)
          else bind_res (w (ds ! i)) (\<lambda>p. Inr (h, ds[i := p]))) = Inr b' \<and> bus_wf b'"
proof (cases "ph_devices h ! unat (ph_device_number h)")
  case None
  then show ?thesis using bus_wf_selected(1) [OF assms(1)] assms(1) by simp
next
  case (Some i)
  then obtain p' where "w (ds ! i) = Inr p'" "pci_wf p'"
    using bus_wf_selected(2) [OF assms(1) Some] assms(2) by blast
  then show ?thesis
    using Some bus_wf_selected(1) [OF assms(1)] assms(1) bus_wf_update by simp
qed

lemma pci_host_write_defined:
  assumes "bus_wf b" "pci_port a"
  shows "\<exists>b'. pci_host_write_reg_long a vl b = Inr b' \<and> bus_wf b'"
    and "\<exists>b'. pci_host_write_reg_word a vw b = Inr b' \<and> bus_wf b'"
    and "\<exists>b'. pci_host_write_reg_byte a vb b = Inr b' \<and> bus_wf b'"
proof -
  obtain h ds where b: "b = (h, ds)" by fastforce
  note wf = assms(1) [unfolded b]
  have cap: "bus_wf (prepare_data (h\<lparr>ph_CAP := vl\<rparr>), ds)"
    using wf prepare_data_ranges [of "h\<lparr>ph_CAP := vl\<rparr>"]
    by (simp add: bus_wf_def devices_wf_def prepare_data_def)
  have o: "unat (ph_offset_number h + ucast a - ucast CDP_addr) < 2 ^ 32 - 4" if "a \<noteq> CAP_addr"
    using config_offset_small [OF wf assms(2) that] .
  show "\<exists>b'. pci_host_write_reg_long a vl b = Inr b' \<and> bus_wf b'"
  proof (cases "a = CAP_addr")
    case False
    show ?thesis
      unfolding b pci_host_write_reg_long_def Let_def prod.case if_not_P [OF False]
      by (rule selected_write [OF wf]) (rule cfg_long.wr_defined [OF _ o [OF False]])
  qed (simp add: cap b pci_host_defs)
  show "\<exists>b'. pci_host_write_reg_word a vw b = Inr b' \<and> bus_wf b'"
  proof (cases "a = CAP_addr")
    case False
    show ?thesis
      unfolding b pci_host_write_reg_word_def Let_def prod.case if_not_P [OF False]
      by (rule selected_write [OF wf]) (rule cfg_word.wr_defined [OF _ o [OF False]])
  qed (simp add: wf b pci_host_defs)
  show "\<exists>b'. pci_host_write_reg_byte a vb b = Inr b' \<and> bus_wf b'"
  proof (cases "a = CAP_addr")
    case False
    show ?thesis
      unfolding b pci_host_write_reg_byte_def Let_def prod.case if_not_P [OF False]
      by (rule selected_write [OF wf]) (rule cfg_byte.wr_defined [OF _ o [OF False]])
  qed (simp add: wf b pci_host_defs)
qed

lemma config_read_defined:
  assumes "unat off < 2 ^ 32 - 4"
  shows "\<exists>v. read_reg_long_PCI off p = Inr v" and "\<exists>v. read_reg_word_PCI off p = Inr v"
    and "\<exists>v. read_reg_byte_PCI off p = Inr v"
  using unat_guard [of 4 off] unat_guard [of 2 off] unat_guard [of 1 off] assms
  by (simp_all add: config_defs)

lemma pci_host_read_defined:
  assumes "bus_wf b" "pci_port a"
  shows "\<exists>v. pci_host_read_reg_long a b = Inr v" and "\<exists>v. pci_host_read_reg_word a b = Inr v"
    and "\<exists>v. pci_host_read_reg_byte a b = Inr v"
proof -
  obtain h ds where b: "b = (h, ds)" by fastforce
  note wf = assms(1) [unfolded b]
  have o: "unat (ph_offset_number h + ucast a - ucast CDP_addr) < 2 ^ 32 - 4" if "a \<noteq> CAP_addr"
    using config_offset_small [OF wf assms(2) that] .
  show "\<exists>v. pci_host_read_reg_long a b = Inr v" "\<exists>v. pci_host_read_reg_word a b = Inr v"
    "\<exists>v. pci_host_read_reg_byte a b = Inr v"
    using bus_wf_selected(1) [OF wf] config_read_defined [OF o]
    by (auto simp: b pci_host_defs split: option.splits)
qed

section \<open>The machine's bus\<close>

text \<open>The two devices \<open>initIO\<close> connects, built in zeroed static memory, in slots 0 and 1.\<close>

definition connected_slots :: "nat option list" where
  "connected_slots = [Some 0, Some 1] @ replicate 30 None"

definition static_devices :: "pci_device list" where
  "static_devices = [PCI_ATA_new blank_device, PCI_APIC_new blank_device]"

definition ata_configured :: pci_device where
  "ata_configured = setBar 0x03F6 1 (setBar 0x01F0 0 (PCI_ATA_new blank_device))"

lemma attach_none [simp]: "attach None = id"
  by (rule ext) (simp add: attach_def)

lemma attach_connected:
  "fold attach connected_slots (replicate N_DEVICES None, 0) = (connected_slots, 2)"
  by (simp add: connected_slots_def) (simp add: attach_def numeral_eq_Suc)

lemma static_wf:
  "pci_wf (PCI_ATA_new blank_device)" "pci_wf (PCI_APIC_new blank_device)" "pci_wf ata_configured"
  by (simp_all add: PCI_ATA_new_def PCI_APIC_new_def PCIDevice_new_class_fields blank_device_wf
      ata_configured_def setBar_fields)

lemma static_class:
  "getClassCode (PCI_ATA_new blank_device) = 0x010100"
  "getClassCode (PCI_APIC_new blank_device) = 0x123400"
  by (simp_all add: PCI_ATA_new_def PCI_APIC_new_def getClassCode_new blank_device_wf)

lemma pci_host_new_machine:
  "pci_host_new (jd, jb, jf, joff) connected_slots static_devices =
     Inr (\<lparr>ph_CAP = 0, ph_CDP = 0, ph_device_number = jd, ph_bus_number = jb,
            ph_function_number = jf, ph_offset_number = joff,
            ph_devices = connected_slots, ph_connected = 2\<rparr>,
          [ata_configured, PCI_APIC_new blank_device])"
proof -
  have two: "take 2 connected_slots = [Some 0, Some 1]" by (simp add: connected_slots_def)
  have one: "connected_slots ! Suc 0 = Some 1" by (simp add: connected_slots_def)
  have "fold init_bar [Some 0, Some 1] static_devices = [ata_configured, PCI_APIC_new blank_device]"
    using static_class by (simp add: init_bar_def static_devices_def ata_configured_def)
  then show ?thesis
    unfolding pci_host_new_def attach_connected by (simp add: two one)
qed

section \<open>Properties\<close>

text \<open>The device a configuration address names, if there is one.\<close>

definition addressed :: "pci_host \<Rightarrow> u32 \<Rightarrow> nat option" where
  "addressed h c =
     (if drop_bit 8 c AND 0x7 = 0 then ph_devices h ! unat (drop_bit 11 c AND 0x1F) else None)"

lemma cap_write:
  "pci_host_write_reg_long CAP_addr c (h, ds) = Inr (prepare_data (h\<lparr>ph_CAP := c\<rparr>), ds)"
  by (simp add: pci_host_write_reg_long_def)

lemma addressed_selected:
  assumes "bus_wf (h, ds)" and h1_def: "h1 = prepare_data (h\<lparr>ph_CAP := c\<rparr>)"
  shows "bus_wf (h1, ds)"
    and "pci_selected h1 = Inr (ph_devices h ! unat (drop_bit 11 c AND 0x1F))"
    and "ph_function_number h1 = drop_bit 8 c AND 0x7" and "ph_offset_number h1 = c AND 0xFF"
    and "ph_CAP h1 = c" and "addressed h c = Some i \<Longrightarrow> i < length ds \<and> pci_wf (ds ! i)"
proof -
  show wf: "bus_wf (h1, ds)"
    using pci_host_write_defined(1) [OF assms(1), of CAP_addr c]
    by (simp add: cap_write h1_def pci_port_def)
  show sel: "pci_selected h1 = Inr (ph_devices h ! unat (drop_bit 11 c AND 0x1F))"
    using bus_wf_selected(1) [OF wf] by (simp add: h1_def prepare_data_def)
  show "ph_function_number h1 = drop_bit 8 c AND 0x7" "ph_offset_number h1 = c AND 0xFF"
    "ph_CAP h1 = c" by (simp_all add: h1_def prepare_data_def)
  show "addressed h c = Some i \<Longrightarrow> i < length ds \<and> pci_wf (ds ! i)"
    using bus_wf_selected(2) [OF wf, of i]
    by (simp add: addressed_def h1_def prepare_data_def split: if_splits)
qed


definition machine_bus :: pci_bus where
  "machine_bus = (\<lparr>ph_CAP = 0, ph_CDP = 0, ph_device_number = 0, ph_bus_number = 0,
     ph_function_number = 0, ph_offset_number = 0, ph_devices = connected_slots, ph_connected = 2\<rparr>,
     [ata_configured, PCI_APIC_new blank_device])"

lemma devices_wf_machine:
  "ph_devices h = connected_slots \<Longrightarrow> devices_wf h [ata_configured, PCI_APIC_new blank_device]"
  by (auto simp: devices_wf_def connected_slots_def static_wf)


lemma field_get_split: "field_get off (n + m) p = field_get off n p + 256 ^ n * field_get (off + n) m p"
  if "off + n \<le> length (pd_registers p)"
proof -
  have "get_bytes off (n + m) (pd_registers p) =
      get_bytes off n (pd_registers p) @ get_bytes (off + n) m (pd_registers p)"
    by (simp add: get_bytes_def take_add) (simp add: add.commute)
  then show ?thesis using that by (simp add: field_get_def le_val_append length_get_bytes)
qed

lemma identification:
  assumes "pci_wf p"
  shows "field_get 0 4 p = unat (getVendorID p) + 65536 * unat (getDeviceID p)"
proof -
  have lt: "field_get off 2 p < 65536" if "off \<le> 190" for off
    using le_val_less [of "get_bytes off 2 (pd_registers p)"] that assms
    by (simp add: field_get_def length_get_bytes pci_wf_def)
  have "field_get 0 (2 + 2) p = field_get 0 2 p + 256 ^ 2 * field_get 2 2 p"
    using field_get_split [of 0 2 p 2] assms unfolding pci_wf_def add_0 by simp
  then show ?thesis
    using lt [of 0] lt [of 2] by (simp add: getVendorID_def getDeviceID_def unat_of_nat)
qed

lemma ata_configured_fields:
  "field_get 0 4 ata_configured = 0x88887777"
  "field_get 16 4 ata_configured = 0x01F0" "field_get 20 4 ata_configured = 0x03F6"
proof -
  have id: "getVendorID ata_configured = 0x7777" "getDeviceID ata_configured = 0x8888"
    using PCIDevice_new_class_fields [OF blank_device_wf, of "0x7777" "0x8888" "0x010100"]
    by (simp_all add: ata_configured_def getVendorID_def getDeviceID_def setBar_fields static_wf
        flip: PCI_ATA_new_def)
  then show "field_get 0 4 ata_configured = 0x88887777"
    using identification [OF static_wf(3)] by simp
  show "field_get 16 4 ata_configured = 0x01F0" "field_get 20 4 ata_configured = 0x03F6"
    by (simp_all add: ata_configured_def setBar_def field_get_put_same field_get_put_other static_wf)
qed

lemma apic_id: "field_get 0 4 (PCI_APIC_new blank_device) = 0x70008086"
  using identification [OF static_wf(2)]
    PCIDevice_new_class_fields [OF blank_device_wf, of "0x8086" "0x7000" "0x123400"]
  by (simp add: PCI_APIC_new_def)

text \<open>
  What a guest that scans the bus finds after \<open>initIO\<close>, whatever the bridge's memory held
  before: the ATA bridge in slot 0 with its two base addresses set to the legacy ports, the
  APIC bridge in slot 1, and all ones everywhere else. The bus number of the address plays no
  part in a double word read, so the same two devices appear on all 256 buses, while a word read
  on any bus but 0 returns all ones.
\<close>

theorem pci_enumeration:
  assumes "pci_host_new junk connected_slots static_devices = Inr b0"
    "pci_host_write_reg_long CAP_addr c b0 = Inr b"
    "unat (drop_bit 11 c AND 0x1F) = slot" "drop_bit 8 c AND 0x7 = 0"
  shows "(c AND 0xFF = 0 \<longrightarrow> pci_host_read_reg_long CDP_addr b =
        Inr (if slot = 0 then 0x88887777 else if slot = 1 then 0x70008086 else 0xFFFFFFFF)) \<and>
    (slot = 0 \<and> c AND 0xFF = 0x10 \<longrightarrow> pci_host_read_reg_long CDP_addr b = Inr 0x01F0) \<and>
    (slot = 0 \<and> c AND 0xFF = 0x14 \<longrightarrow> pci_host_read_reg_long CDP_addr b = Inr 0x03F6) \<and>
    (drop_bit 16 c AND 0xFF \<noteq> 0 \<longrightarrow> pci_host_read_reg_word CDP_addr b = Inr 0xFFFF)"
proof -
  obtain jd jb jf joff where junk: "junk = (jd, jb, jf, joff)" by (cases junk) auto
  obtain h where b0: "b0 = (h, [ata_configured, PCI_APIC_new blank_device])"
    and devs: "ph_devices h = connected_slots"
    using assms(1) by (auto simp: junk pci_host_new_machine)
  define h1 where "h1 = prepare_data (h\<lparr>ph_CAP := c\<rparr>)"
  have b: "b = (h1, [ata_configured, PCI_APIC_new blank_device])"
    using assms(2) by (simp add: b0 cap_write h1_def)
  have slot: "slot < 32"
    using unat_and_mask [of "drop_bit 11 c" 5] assms(3) by (simp add: mask_eq_exp_minus_1)
  have fields: "ph_devices h1 = connected_slots" "unat (ph_device_number h1) = slot"
    "ph_function_number h1 = 0" "ph_offset_number h1 = c AND 0xFF"
    "ph_bus_number h1 = drop_bit 16 c AND 0xFF"
    using assms(3,4) devs by (simp_all add: h1_def prepare_data_def)
  have sel: "pci_selected h1 = Inr (if slot = 0 then Some 0 else if slot = 1 then Some 1 else None)"
    using slot fields by (auto simp: pci_selected_def connected_slots_def nth_append nth_Cons'
        not_less_eq less_Suc_eq numeral_2_eq_2)
  have long: "pci_host_read_reg_long CDP_addr b =
      (if slot = 0 then read_reg_long_PCI (c AND 0xFF) ata_configured
       else if slot = 1 then read_reg_long_PCI (c AND 0xFF) (PCI_APIC_new blank_device)
       else Inr 0xFFFFFFFF)"
    by (simp add: b pci_host_read_reg_long_def sel fields)
  show ?thesis
    using long sel fields(5)
    by (auto simp: read_reg_long_PCI_def ata_configured_fields apic_id b pci_host_read_reg_word_def)
qed

theorem pci_enumeration_witness:
  "\<exists>b0 b. pci_host_new (0, 0, 0, 0) connected_slots static_devices = Inr b0 \<and>
     pci_host_write_reg_long CAP_addr 0x80FF0000 b0 = Inr b \<and>
     pci_host_read_reg_long CDP_addr b = Inr 0x88887777 \<and>
     pci_host_read_reg_word CDP_addr b = Inr 0xFFFF"
proof -
  have w: "pci_host_write_reg_long CAP_addr 0x80FF0000 machine_bus =
      Inr (prepare_data (fst machine_bus\<lparr>ph_CAP := 0x80FF0000\<rparr>), snd machine_bus)"
    using cap_write [of _ "fst machine_bus" "snd machine_bus"] by simp
  have n: "pci_host_new (0, 0, 0, 0) connected_slots static_devices = Inr machine_bus"
    by (simp add: pci_host_new_machine machine_bus_def)
  show ?thesis
    using pci_enumeration [OF n w, of 0] n w by auto
qed

text \<open>
  The constructor's log line dereferences the second slot as soon as the first one is
  taken: with a single connected device, in whatever position, construction crashes.
\<close>

theorem pci_host_single_device:
  assumes "i < 32"
  shows "pci_host_new junk (replicate i None @ [Some d] @ replicate (31 - i) None) ds = Inl NullDeref"
proof -
  have "fold attach (replicate i None @ [Some d] @ replicate (31 - i) None) (replicate N_DEVICES None, 0) =
      ((replicate N_DEVICES None)[0 := Some d], 1)"
    by simp (simp add: attach_def)
  moreover have "(replicate N_DEVICES None)[0 := Some d] ! 1 = None" by simp
  ultimately show ?thesis by (simp add: pci_host_new_def case_prod_beta)
qed

theorem pci_host_single_device_witness:
  "pci_host_new (0, 0, 0, 0) (replicate 3 None @ [Some 0] @ replicate (31 - 3) None) [blank_device] =
   Inl NullDeref"
  by (rule pci_host_single_device) simp

end
