(* ===== verification/ConsoleInput.thy ===== *)
theory ConsoleInput
  imports Keyboard
begin

text \<open>
  The console input thread, \<open>backend/ConsoleInput.h\<close> and \<open>backend/ConsoleInput.cpp\<close>:
  the translation of ASCII characters into scan codes with the shift state it implies, and
  the loop that feeds the attached keyboard. The terminal set-up (\<open>termios\<close> calls) is not
  modelled.
\<close>

section \<open>The encoding tables\<close>

abbreviation MAX_CODE :: nat where "MAX_CODE \<equiv> 46"

definition enc_tab :: "u8 list" where
  "enc_tab =
    [0x02, 0x03, 0x04, 0x05, 0x06, 0x07, 0x08, 0x09, 0x0a, 0x0b,
     0x0c,
     0x10, 0x11, 0x12, 0x13, 0x14, 0x15, 0x16, 0x17, 0x18, 0x19,
     0x1E, 0x1F, 0x20, 0x21, 0x22, 0x23, 0x24, 0x25,
     0x26, 0x29, 0x2C, 0x2D, 0x2E, 0x2F, 0x30, 0x31, 0x32,
     0x33, 0x34, 0x35, 0x56,
     0x39, 0x1C, 0x0e, 0x01]"

text \<open>
  The characters are given by their ASCII codes: the first row is \<open>1\<close> to \<open>9\<close> and \<open>0\<close>,
  then the apostrophe, the three letter rows of the keyboard, the punctuation, and blank,
  carriage return, backspace and escape.
\<close>

definition enc_tabmin :: "u8 list" where
  "enc_tabmin =
    [0x31, 0x32, 0x33, 0x34, 0x35, 0x36, 0x37, 0x38, 0x39, 0x30,
     0x27,
     0x71, 0x77, 0x65, 0x72, 0x74, 0x79, 0x75, 0x69, 0x6f, 0x70,
     0x61, 0x73, 0x64, 0x66, 0x67, 0x68, 0x6a, 0x6b,
     0x6c, 0x5c, 0x7a, 0x78, 0x63, 0x76, 0x62, 0x6e, 0x6d,
     0x2c, 0x2e, 0x2d, 0x3c,
     0x20, 0x0d, 0x08, 0x1B]"

definition enc_tabmai :: "u8 list" where
  "enc_tabmai =
    [0x21, 0x22, 0x40, 0x24, 0x25, 0x26, 0x2f, 0x28, 0x29, 0x3d,
     0x3f,
     0x51, 0x57, 0x45, 0x52, 0x54, 0x59, 0x55, 0x49, 0x4f, 0x50,
     0x41, 0x53, 0x44, 0x46, 0x47, 0x48, 0x4a, 0x4b,
     0x4c, 0x7c, 0x5a, 0x58, 0x43, 0x56, 0x42, 0x4e, 0x4d,
     0x3b, 0x3a, 0x5f, 0x3e,
     0x20, 0x0a, 0x08, 0x1B]"

section \<open>Translation\<close>

text \<open>The two search loops of \<open>ascii_to_keycode\<close>: the first position that holds the
  character, or \<open>MAX_CODE\<close>.\<close>

function table_search :: "u8 list \<Rightarrow> u8 \<Rightarrow> nat \<Rightarrow> nat" where
  "table_search t c pos =
     (if pos < MAX_CODE \<and> t ! pos \<noteq> c then table_search t c (pos + 1) else pos)"
  by pat_completeness auto
termination
  by (relation "measure (\<lambda>(t, c, pos). MAX_CODE - pos)") auto

declare table_search.simps [simp del]

text \<open>The keycode (0 when the character is unknown) and the new value of \<open>shift\<close>.\<close>

definition ascii_to_keycode :: "u8 \<Rightarrow> bool \<Rightarrow> u8 \<times> bool" where
  "ascii_to_keycode ascii_c shift =
     (let pos = table_search enc_tabmin ascii_c 0
      in if pos = MAX_CODE then
           (let pos2 = table_search enc_tabmai ascii_c 0
            in if pos2 = MAX_CODE then (0, shift) else (enc_tab ! pos2, True))
         else (enc_tab ! pos, False))"

section \<open>The event loop\<close>

record console_input =
  ci_newchar :: u8
  ci_is_shifted :: bool

text \<open>
  One iteration after \<open>read\<close> returned: the scan codes handed to
  \<open>insert_keycode_event\<close>, in order, and the new shift state.
\<close>

definition console_forward :: "console_input \<Rightarrow> u8 list \<times> console_input" where
  "console_forward ci =
     (let (newkeycode, new_shift) = ascii_to_keycode (ci_newchar ci) (ci_is_shifted ci);
          shift_codes =
            (if ci_is_shifted ci \<noteq> new_shift \<and> new_shift then [0x2a]
             else if ci_is_shifted ci \<noteq> new_shift \<and> \<not> new_shift then [0xaa]
             else []);
          key_codes = (if newkeycode \<noteq> 0 then [newkeycode, newkeycode OR 0x80] else [])
      in (shift_codes @ key_codes, ci\<lparr>ci_is_shifted := new_shift\<rparr>))"

text \<open>
  What \<open>read(0, &newchar, 1)\<close> can do: deliver a byte, report end of file (0), or fail
  (negative). In the last two cases \<open>newchar\<close> keeps its value and the body still runs; only
  a failure ends the loop.
\<close>

datatype read_result = Got u8 | Eof | Failed

fun console_main_thread :: "read_result list \<Rightarrow> console_input \<Rightarrow> u8 list \<times> console_input" where
  "console_main_thread [] ci = ([], ci)"
| "console_main_thread (r # rs) ci =
     (let ci1 = (case r of Got c \<Rightarrow> ci\<lparr>ci_newchar := c\<rparr> | _ \<Rightarrow> ci);
          (codes, ci2) = console_forward ci1
      in if r = Failed then (codes, ci2)
         else (let (more, ci3) = console_main_thread rs ci2 in (codes @ more, ci3)))"

definition console_input_new :: "u8 \<Rightarrow> console_input" where
  "console_input_new junk = \<lparr>ci_newchar = junk, ci_is_shifted = False\<rparr>"

section \<open>Reading the scan codes back\<close>

text \<open>
  The specification: what a guest with the same layout makes of a stream of scan codes. Codes
  0x2a and 0xaa press and release shift, a break code (high bit set) is ignored, any other
  code selects a character of the plain or the shifted table.
\<close>

definition supported :: "u8 \<Rightarrow> bool" where
  "supported c \<longleftrightarrow> c \<in> set enc_tabmin \<or> c \<in> set enc_tabmai"

definition code_char :: "bool \<Rightarrow> u8 \<Rightarrow> u8" where
  "code_char shift k =
     (let pos = table_search enc_tab k 0
      in if pos = MAX_CODE then 0 else if shift then enc_tabmai ! pos else enc_tabmin ! pos)"

fun decode_codes :: "bool \<Rightarrow> u8 list \<Rightarrow> u8 list" where
  "decode_codes shift [] = []"
| "decode_codes shift (k # ks) =
     (if k = 0x2a then decode_codes True ks
      else if k = 0xaa then decode_codes False ks
      else if k AND 0x80 \<noteq> 0 then decode_codes shift ks
      else code_char shift k # decode_codes shift ks)"

text \<open>The shift state after a stream of codes.\<close>

definition shift_after :: "bool \<Rightarrow> u8 list \<Rightarrow> bool" where
  "shift_after s ks = fold (\<lambda>k s. if k = 0x2a then True else if k = 0xaa then False else s) ks s"

lemma decode_codes_append:
  "decode_codes s (ks @ ls) = decode_codes s ks @ decode_codes (shift_after s ks) ls"
  by (induction ks arbitrary: s) (simp_all add: shift_after_def)

subsection \<open>The search loop and the tables\<close>

lemma table_search_spec:
  "pos \<le> MAX_CODE \<Longrightarrow>
   pos \<le> table_search t c pos \<and> table_search t c pos \<le> MAX_CODE \<and>
   (\<forall>j. pos \<le> j \<and> j < table_search t c pos \<longrightarrow> t ! j \<noteq> c) \<and>
   (table_search t c pos < MAX_CODE \<longrightarrow> t ! table_search t c pos = c)"
proof (induction t c pos rule: table_search.induct)
  case (1 t c pos)
  show ?case
  proof (cases "pos < MAX_CODE \<and> t ! pos \<noteq> c")
    case True
    then have "table_search t c pos = table_search t c (pos + 1)"
      by (simp add: table_search.simps [of t c pos])
    moreover have "j = pos \<or> pos + 1 \<le> j" if "pos \<le> j" for j using that by arith
    ultimately show ?thesis using "1.IH" True by fastforce
  next
    case False
    then have "table_search t c pos = pos" by (subst table_search.simps) (rule if_not_P)
    with False "1.prems" show ?thesis by auto
  qed
qed

lemmas table_search_spec0 = table_search_spec [of 0, simplified]

lemma table_search_found: "table_search t c 0 < MAX_CODE \<Longrightarrow> t ! table_search t c 0 = c"
  using table_search_spec0 [of t c] by simp

lemma table_search_nth:
  assumes "distinct t" "length t = MAX_CODE" "i < MAX_CODE"
  shows "table_search t (t ! i) 0 = i"
proof -
  let ?r = "table_search t (t ! i) 0"
  have "\<not> i < ?r" using table_search_spec0 [of t "t ! i"] by auto
  then have "?r < MAX_CODE" using assms by simp
  then show ?thesis using assms table_search_found [of t "t ! i"] by (simp add: nth_eq_iff_index_eq)
qed

lemma table_search_absent:
  "length t = MAX_CODE \<Longrightarrow> table_search t c 0 = MAX_CODE \<longleftrightarrow> c \<notin> set t"
  using table_search_spec0 [of t c] by (auto simp: in_set_conv_nth) (metis le_neq_implies_less)

lemma table_lengths [simp]:
  "length enc_tab = MAX_CODE" "length enc_tabmin = MAX_CODE" "length enc_tabmai = MAX_CODE"
  by (simp_all add: enc_tab_def enc_tabmin_def enc_tabmai_def)

lemma distinct_enc_tab: "distinct enc_tab"
  by (simp add: enc_tab_def)

lemma code_char_tab:
  "i < MAX_CODE \<Longrightarrow> code_char s (enc_tab ! i) = (if s then enc_tabmai ! i else enc_tabmin ! i)"
  by (simp add: code_char_def table_search_nth distinct_enc_tab)

text \<open>Make codes are neither zero nor a shift code and have the high bit clear; the break
  codes have it set and are not the release of shift.\<close>

lemma enc_tab_codes:
  "list_all (\<lambda>k. k \<noteq> 0 \<and> k \<noteq> 0x2a \<and> k \<noteq> 0xaa \<and> k AND 0x80 = 0 \<and>
     (k OR 0x80) AND 0x80 \<noteq> 0 \<and> k OR 0x80 \<noteq> 0xaa \<and> k OR 0x80 \<noteq> 0x2a) enc_tab"
  by (simp add: enc_tab_def)

lemma enc_tab_nth_codes:
  assumes "i < MAX_CODE"
  shows "enc_tab ! i \<noteq> 0" "enc_tab ! i \<noteq> 0x2a" "enc_tab ! i \<noteq> 0xaa" "enc_tab ! i AND 0x80 = 0"
    "(enc_tab ! i OR 0x80) AND 0x80 \<noteq> 0" "enc_tab ! i OR 0x80 \<noteq> 0xaa"
    "enc_tab ! i OR 0x80 \<noteq> 0x2a"
  using enc_tab_codes assms by (simp_all add: list_all_length)

lemma ascii_to_keycode_supported:
  assumes "supported c"
  obtains i s' where "i < MAX_CODE" "ascii_to_keycode c s = (enc_tab ! i, s')"
    "(if s' then enc_tabmai ! i else enc_tabmin ! i) = c"
proof (cases "c \<in> set enc_tabmin")
  case True
  let ?i = "table_search enc_tabmin c 0"
  have i: "?i < MAX_CODE"
    using True table_search_absent [of enc_tabmin c] table_search_spec0 [of enc_tabmin c] by simp
  show thesis
    by (rule that [of ?i False]) (use i in \<open>simp_all add: ascii_to_keycode_def table_search_found\<close>)
next
  case False
  let ?i = "table_search enc_tabmai c 0"
  have "c \<in> set enc_tabmai" using False assms by (simp add: supported_def)
  then have i: "?i < MAX_CODE"
    using table_search_absent [of enc_tabmai c] table_search_spec0 [of enc_tabmai c] by simp
  have "table_search enc_tabmin c 0 = MAX_CODE" using False by (simp add: table_search_absent)
  then show thesis
    by (intro that [of ?i True]) (use i in \<open>simp_all add: ascii_to_keycode_def table_search_found\<close>)
qed

lemma console_forward_supported:
  assumes "supported (ci_newchar ci)"
  shows "decode_codes (ci_is_shifted ci) (fst (console_forward ci)) = [ci_newchar ci] \<and>
    shift_after (ci_is_shifted ci) (fst (console_forward ci)) =
      ci_is_shifted (snd (console_forward ci)) \<and>
    length (fst (console_forward ci)) \<le> 3"
proof -
  obtain i s' where i: "i < MAX_CODE"
    and k: "ascii_to_keycode (ci_newchar ci) (ci_is_shifted ci) = (enc_tab ! i, s')"
    and c: "(if s' then enc_tabmai ! i else enc_tabmin ! i) = ci_newchar ci"
    using ascii_to_keycode_supported [OF assms, of "ci_is_shifted ci"] by blast
  show ?thesis
    using c by (auto simp: console_forward_def k Let_def enc_tab_nth_codes [OF i]
        code_char_tab [OF i] shift_after_def split: if_splits)
qed

lemma console_roundtrip_gen:
  assumes "\<forall>c\<in>set cs. supported c"
  shows "decode_codes (ci_is_shifted ci) (fst (console_main_thread (map Got cs) ci)) = cs \<and>
    length (fst (console_main_thread (map Got cs) ci)) \<le> 3 * length cs"
  using assms
proof (induction cs arbitrary: ci)
  case Nil
  then show ?case by simp
next
  case (Cons c cs)
  let ?ci = "ci\<lparr>ci_newchar := c\<rparr>"
  have fwd: "supported (ci_newchar ?ci)" using Cons.prems by simp
  note step = console_forward_supported [OF fwd]
  show ?case
    using Cons.IH [of "snd (console_forward ?ci)"] Cons.prems step
    by (simp add: case_prod_beta Let_def decode_codes_append)
qed

section \<open>Properties\<close>

text \<open>
  Console round trip: for every string of supported characters, decoding the scan codes
  the console thread sends (make and break codes with the shift codes in between) gives the
  string back, from either shift state.
\<close>

theorem console_roundtrip:
  assumes "\<forall>c\<in>set cs. supported c"
  shows "decode_codes (ci_is_shifted ci) (fst (console_main_thread (map Got cs) ci)) = cs"
  using console_roundtrip_gen [OF assms] by blast

theorem console_roundtrip_witness:
  "decode_codes False (fst (console_main_thread (map Got [0x48, 0x69, 0x21, 0x0a])
     (console_input_new 0))) = [0x48, 0x69, 0x21, 0x0a]"
proof -
  have sup: "\<forall>c\<in>set [0x48, 0x69, 0x21, 0x0a]. supported c" by code_simp
  have "\<not> ci_is_shifted (console_input_new 0)" by (simp add: console_input_new_def)
  then show ?thesis using console_roundtrip [OF sup, of "console_input_new 0"] by simp
qed



text \<open>
  End of file replays the last key: the loop runs on while \<open>read\<close> returns a
  non-negative value, so a read that returns 0 at end of file translates the previous
  character again, and every further end of file sends its scan codes once more.
\<close>

theorem console_eof_replays_key:
  assumes "supported c" and "\<not> ci_is_shifted ci"
  shows "decode_codes False (fst (console_main_thread (Got c # replicate n Eof) ci)) =
    replicate (Suc n) c"
proof -
  have "decode_codes (ci_is_shifted ci) (fst (console_main_thread (replicate n Eof) ci)) =
      replicate n c \<and> ci_newchar ci = c" if "ci_newchar ci = c" for ci
    using that
  proof (induction n arbitrary: ci)
    case 0
    then show ?case by simp
  next
    case (Suc n)
    have nc: "ci_newchar (snd (console_forward ci)) = c"
      using Suc.prems by (simp add: console_forward_def case_prod_beta Let_def)
    have "supported (ci_newchar ci)" using assms(1) Suc.prems by simp
    then show ?case
      using Suc.IH [OF nc] console_forward_supported [of ci] Suc.prems
      by (simp add: case_prod_beta Let_def decode_codes_append)
  qed
  note eofs = this
  let ?ci = "ci\<lparr>ci_newchar := c\<rparr>"
  have nc: "ci_newchar (snd (console_forward ?ci)) = c"
    by (simp add: console_forward_def case_prod_beta Let_def)
  show ?thesis
    using eofs [OF nc] console_forward_supported [of ?ci] assms
    by (simp add: case_prod_beta Let_def decode_codes_append)
qed

theorem console_eof_replays_key_witness:
  "decode_codes False (fst (console_main_thread [Got 0x61, Eof, Eof] (console_input_new 0))) =
   [0x61, 0x61, 0x61]"
proof -
  have sup: "supported 0x61" by code_simp
  have "\<not> ci_is_shifted (console_input_new 0)" by (simp add: console_input_new_def)
  from console_eof_replays_key [OF sup this, of 2] show ?thesis by (simp add: numeral_2_eq_2)
qed

end
