(* ===== verification/Machine.thy ===== *)
theory Machine
  imports Keyboard SerialPort VgaController HardDisk PciHost ConsoleInput
begin

text \<open>
  The machine of \<open>kvm.cpp\<close>: the emulated devices as one state, the ATA bridge that maps ports to
  registers of the disk (\<open>frontend/PCI_ATA.cpp\<close>), the device interface's default methods
  (\<open>frontend/IODevice.cpp\<close>), the dispatch of an I/O exit to a device and the run loop of \<open>main\<close>,
  interleaved with the scan codes the console thread inserts. The virtual processor is the
  environment: a run is a sequence of the exits it reports.
\<close>

section \<open>The ATA bridge\<close>

text \<open>The default methods of a device, which the disk inherits for double word accesses.\<close>

definition IODevice_write_reg_long :: "io_addr \<Rightarrow> u32 \<Rightarrow> 'd \<Rightarrow> 'd" where
  "IODevice_write_reg_long addr val d = d"

definition IODevice_read_reg_long :: "io_addr \<Rightarrow> 'd \<Rightarrow> u32 \<times> 'd" where
  "IODevice_read_reg_long addr d = (0, d)"

text \<open>
  The base addresses are truncated to 16 bits; the range checks are done on \<open>int\<close>s, so the
  upper ends do not wrap; the translated address is truncated to 16 bits again.
\<close>

definition ata_translate :: "pci_device \<Rightarrow> io_addr \<Rightarrow> io_addr" where
  "ata_translate p addr =
     (let bar0 = ucast (getBar 0 p) :: io_addr; bar1 = ucast (getBar 1 p) :: io_addr
      in if unat addr \<ge> unat bar0 \<and> unat addr \<le> unat bar0 + 7 then addr - bar0 + 0x01F0
         else if unat addr \<ge> unat bar1 \<and> unat addr \<le> unat bar1 + 1 then addr - bar1 + 0x03F6
         else addr)"

definition PCI_ATA_write_reg_word ::
  "pci_device \<Rightarrow> io_addr \<Rightarrow> u16 \<Rightarrow> hard_disk \<Rightarrow> (hard_disk \<times> irq_event list) res" where
  "PCI_ATA_write_reg_word p addr val d = HardDisk_write_reg_word (ata_translate p addr) val d"

definition PCI_ATA_read_reg_word ::
  "pci_device \<Rightarrow> io_addr \<Rightarrow> hard_disk \<Rightarrow> (u16 \<times> hard_disk \<times> irq_event list) res" where
  "PCI_ATA_read_reg_word p addr d = HardDisk_read_reg_word (ata_translate p addr) d"

definition PCI_ATA_write_reg_byte ::
  "pci_device \<Rightarrow> io_addr \<Rightarrow> u8 \<Rightarrow> hard_disk \<Rightarrow> hard_disk \<times> irq_event list" where
  "PCI_ATA_write_reg_byte p addr val d = HardDisk_write_reg_byte (ata_translate p addr) val d"

definition PCI_ATA_read_reg_byte ::
  "pci_device \<Rightarrow> io_addr \<Rightarrow> hard_disk \<Rightarrow> u8 \<times> hard_disk \<times> irq_event list" where
  "PCI_ATA_read_reg_byte p addr d = HardDisk_read_reg_byte (ata_translate p addr) d"

definition PCI_ATA_write_reg_long :: "pci_device \<Rightarrow> io_addr \<Rightarrow> u32 \<Rightarrow> hard_disk \<Rightarrow> hard_disk" where
  "PCI_ATA_write_reg_long p addr val d = IODevice_write_reg_long (ata_translate p addr) val d"

definition PCI_ATA_read_reg_long :: "pci_device \<Rightarrow> io_addr \<Rightarrow> hard_disk \<Rightarrow> u32 \<times> hard_disk" where
  "PCI_ATA_read_reg_long p addr d = IODevice_read_reg_long (ata_translate p addr) d"

section \<open>State of the machine\<close>

record machine =
  m_keyb :: keyboard
  m_vga :: vga_controller
  m_com1 :: serial_port
  m_com2 :: serial_port
  m_com3 :: serial_port
  m_com4 :: serial_port
  m_pci :: pci_host
  m_devices :: "pci_device list"
  m_hdd :: hard_disk

text \<open>
  The static objects and \<open>initIO\<close>: \<open>junk\<close> is the memory of the bridge, \<open>d\<close> the disk built by
  \<open>hdd(4)\<close>. The video memory is the offset 0xB8000 of the guest memory.
\<close>

definition initIO :: "u32 \<times> u32 \<times> u32 \<times> u32 \<Rightarrow> hard_disk \<Rightarrow> machine res" where
  "initIO junk d =
     bind_res (pci_host_new junk connected_slots static_devices) (\<lambda>(h, ds). Inr \<lparr>
       m_keyb = keyboard_new, m_vga = vga_setVMem 0xB8000 vga_new,
       m_com1 = serial_port_new 0x3f8, m_com2 = serial_port_new 0x2f8,
       m_com3 = serial_port_new 0x3e8, m_com4 = serial_port_new 0x2e8,
       m_pci = h, m_devices = ds, m_hdd = d \<rparr>)"

text \<open>The guest memory size of \<open>main\<close>, from the configured number of megabytes.\<close>

definition guest_memory_size :: "u32 \<Rightarrow> u32" where
  "guest_memory_size cfg =
     (if cfg \<ge> 8 \<and> cfg < 1024
      then (if cfg AND 1 = 0 then cfg else cfg + 1) * 1024 * 1024
      else 8 * 1024 * 1024)"

section \<open>Input and output exits\<close>

text \<open>
  The \<open>io\<close> member of \<open>kvm_run\<close>: direction 0 is input and 1 is output; \<open>io_data\<close> is the data area
  at \<open>data_offset\<close>.
\<close>

record io_exit =
  io_direction :: u8
  io_size :: u8
  io_port :: io_addr
  io_count :: u32
  io_data :: "u8 list"

abbreviation KVM_EXIT_IO_IN :: u8 where "KVM_EXIT_IO_IN \<equiv> 0"
abbreviation KVM_EXIT_IO_OUT :: u8 where "KVM_EXIT_IO_OUT \<equiv> 1"

definition io_param :: "io_exit \<Rightarrow> u8" where
  "io_param x = of_nat (le_val (get_bytes 0 1 (io_data x)))"

definition io_param_word :: "io_exit \<Rightarrow> u16" where
  "io_param_word x = of_nat (le_val (get_bytes 0 2 (io_data x)))"

definition io_param_long :: "io_exit \<Rightarrow> u32" where
  "io_param_long x = of_nat (le_val (get_bytes 0 4 (io_data x)))"

definition io_return :: "nat \<Rightarrow> nat \<Rightarrow> io_exit \<Rightarrow> u8 list" where
  "io_return n v x = put_bytes 0 (le_bytes n v) (io_data x)"

type_synonym io_effect = "machine \<times> u8 list \<times> irq_event list"

definition keyboard_io :: "io_exit \<Rightarrow> machine \<Rightarrow> io_effect" where
  "keyboard_io x m =
     (if io_direction x = KVM_EXIT_IO_OUT then
        (let (k, es) = keyboard_write_reg_byte (io_port x) (io_param x) (m_keyb m)
         in (m\<lparr>m_keyb := k\<rparr>, io_data x, es))
      else if io_direction x = KVM_EXIT_IO_IN then
        (let (v, k, es) = keyboard_read_reg_byte (io_port x) (m_keyb m)
         in (m\<lparr>m_keyb := k\<rparr>, io_return 1 (unat v) x, es))
      else (m, io_data x, []))"

definition vga_io :: "io_exit \<Rightarrow> machine \<Rightarrow> io_effect" where
  "vga_io x m =
     (if io_direction x = KVM_EXIT_IO_OUT then
        (m\<lparr>m_vga := vga_write_reg_byte (io_port x) (io_param x) (m_vga m)\<rparr>, io_data x, [])
      else if io_direction x = KVM_EXIT_IO_IN then
        (let (v, g) = vga_read_reg_byte (io_port x) (m_vga m)
         in (m\<lparr>m_vga := g\<rparr>, io_return 1 (unat v) x, []))
      else (m, io_data x, []))"

text \<open>The four serial ports, each given by its getter and setter.\<close>

definition com_io ::
  "(machine \<Rightarrow> serial_port) \<Rightarrow> (serial_port \<Rightarrow> machine \<Rightarrow> machine) \<Rightarrow> io_exit \<Rightarrow> machine \<Rightarrow> io_effect" where
  "com_io get put x m =
     (if io_direction x = KVM_EXIT_IO_OUT then
        (put (serial_port_write_reg_byte (io_port x) (io_param x) (get m)) m, io_data x, [])
      else if io_direction x = KVM_EXIT_IO_IN then
        (let (v, p) = serial_port_read_reg_byte (io_port x) (get m)
         in (put p m, io_return 1 (unat v) x, []))
      else (m, io_data x, []))"

definition pci_io :: "io_exit \<Rightarrow> machine \<Rightarrow> io_effect res" where
  "pci_io x m =
     (let b = (m_pci m, m_devices m);
          upd = (\<lambda>(h, ds). Inr (m\<lparr>m_pci := h, m_devices := ds\<rparr>, io_data x, []))
      in if io_direction x = KVM_EXIT_IO_OUT then
           (if io_size x = 1 then bind_res (pci_host_write_reg_byte (io_port x) (io_param x) b) upd
            else if io_size x = 2 then
              bind_res (pci_host_write_reg_word (io_port x) (io_param_word x) b) upd
            else if io_size x = 4 then
              bind_res (pci_host_write_reg_long (io_port x) (io_param_long x) b) upd
            else Inr (m, io_data x, []))
         else if io_direction x = KVM_EXIT_IO_IN then
           (if io_size x = 1 then
              bind_res (pci_host_read_reg_byte (io_port x) b) (\<lambda>v. Inr (m, io_return 1 (unat v) x, []))
            else if io_size x = 2 then
              bind_res (pci_host_read_reg_word (io_port x) b) (\<lambda>v. Inr (m, io_return 2 (unat v) x, []))
            else if io_size x = 4 then
              bind_res (pci_host_read_reg_long (io_port x) b) (\<lambda>v. Inr (m, io_return 4 (unat v) x, []))
            else Inr (m, io_data x, []))
         else Inr (m, io_data x, []))"

definition hdd_word_io :: "io_exit \<Rightarrow> machine \<Rightarrow> io_effect res" where
  "hdd_word_io x m =
     (if io_direction x = KVM_EXIT_IO_OUT then
        bind_res (PCI_ATA_write_reg_word (m_devices m ! 0) (io_port x) (io_param_word x) (m_hdd m))
          (\<lambda>(d, es). Inr (m\<lparr>m_hdd := d\<rparr>, io_data x, es))
      else if io_direction x = KVM_EXIT_IO_IN then
        bind_res (PCI_ATA_read_reg_word (m_devices m ! 0) (io_port x) (m_hdd m))
          (\<lambda>(v, d, es). Inr (m\<lparr>m_hdd := d\<rparr>, io_return 2 (unat v) x, es))
      else Inr (m, io_data x, []))"

definition hdd_byte_io :: "io_exit \<Rightarrow> machine \<Rightarrow> io_effect" where
  "hdd_byte_io x m =
     (if io_direction x = KVM_EXIT_IO_OUT then
        (let (d, es) = PCI_ATA_write_reg_byte (m_devices m ! 0) (io_port x) (io_param x) (m_hdd m)
         in (m\<lparr>m_hdd := d\<rparr>, io_data x, es))
      else if io_direction x = KVM_EXIT_IO_IN then
        (let (v, d, es) = PCI_ATA_read_reg_byte (m_devices m ! 0) (io_port x) (m_hdd m)
         in (m\<lparr>m_hdd := d\<rparr>, io_return 1 (unat v) x, es))
      else (m, io_data x, []))"

text \<open>
  The chain of conditions of the \<open>KVM_EXIT_IO\<close> case. The base addresses are compared here as
  32-bit numbers, with the upper ends computed modulo 2^32.
\<close>

definition handle_io :: "io_exit \<Rightarrow> machine \<Rightarrow> io_effect res" where
  "handle_io x m =
     (let byte1 = (io_size x = 1 \<and> io_count x = 1); port = io_port x;
          bar0 = getBar 0 (m_devices m ! 0); bar1 = getBar 1 (m_devices m ! 0)
      in if byte1 \<and> (port = 0x60 \<or> port = 0x64) then Inr (keyboard_io x m)
         else if byte1 \<and> (port = 0x03D4 \<or> port = 0x03D5) then Inr (vga_io x m)
         else if byte1 \<and> port \<ge> 0x03f8 \<and> port \<le> 0x03ff then
           Inr (com_io m_com1 (\<lambda>p. m_com1_update (\<lambda>_. p)) x m)
         else if byte1 \<and> port \<ge> 0x02f8 \<and> port \<le> 0x02ff then
           Inr (com_io m_com2 (\<lambda>p. m_com2_update (\<lambda>_. p)) x m)
         else if byte1 \<and> port \<ge> 0x03e8 \<and> port \<le> 0x03ef then
           Inr (com_io m_com3 (\<lambda>p. m_com3_update (\<lambda>_. p)) x m)
         else if byte1 \<and> port \<ge> 0x02e8 \<and> port \<le> 0x02ef then
           Inr (com_io m_com4 (\<lambda>p. m_com4_update (\<lambda>_. p)) x m)
         else if port \<ge> 0xcfc \<and> port \<le> 0xcff \<or> port = 0xcf8 then pci_io x m
         else if ucast port \<ge> bar0 \<and> ucast port \<le> bar0 + 7 then
           (if io_size x = 2 \<and> io_count x = 1 then hdd_word_io x m
            else if io_size x = 1 \<and> io_count x = 1 then Inr (hdd_byte_io x m)
            else Inr (m, io_data x, []))
         else if ucast port \<ge> bar1 \<and> ucast port \<le> bar1 + 1 then Inr (hdd_byte_io x m)
         else Inr (m, io_data x, []))"

section \<open>The run loop\<close>

datatype vm_exit =
    EXIT_HLT | EXIT_IO io_exit | EXIT_MMIO | EXIT_SHUTDOWN | EXIT_DEBUG
  | EXIT_FAIL_ENTRY | EXIT_INTERNAL_ERROR | EXIT_UNHANDLED u32

abbreviation SIGILL :: nat where "SIGILL \<equiv> 4"
abbreviation SIGTRAP :: nat where "SIGTRAP \<equiv> 5"
abbreviation SIGTERM :: nat where "SIGTERM \<equiv> 15"

text \<open>
  One iteration of the loop after \<open>KVM_RUN\<close>: either \<open>main\<close> returns a code, or the loop goes on
  with the machine, the data area handed back to the processor and the interrupt calls. The
  signals are the calls of \<open>gdbserver_handle_exception\<close>.
\<close>

datatype loop_result =
    Return int "nat list"
  | Continue machine "u8 list" "irq_event list" "nat list"

definition handle_exit :: "bool \<Rightarrow> vm_exit \<Rightarrow> machine \<Rightarrow> loop_result res" where
  "handle_exit debug_mode e m =
     (case e of
        EXIT_HLT \<Rightarrow> Inr (Return 1 (if debug_mode then [SIGTERM] else []))
      | EXIT_IO x \<Rightarrow> bind_res (handle_io x m) (\<lambda>(m', dat, es). Inr (Continue m' dat es []))
      | EXIT_MMIO \<Rightarrow> Inr (Continue m [] [] [])
      | EXIT_SHUTDOWN \<Rightarrow> Inr (Return 1 (if debug_mode then [SIGTERM] else []))
      | EXIT_DEBUG \<Rightarrow>
          if \<not> debug_mode then Inr (Return 1 []) else Inr (Continue m [] [] [SIGTRAP])
      | EXIT_FAIL_ENTRY \<Rightarrow> Inr (Return 1 (if debug_mode then [SIGILL] else []))
      | EXIT_INTERNAL_ERROR \<Rightarrow> Inr (Return 1 (if debug_mode then [SIGILL] else []))
      | EXIT_UNHANDLED _ \<Rightarrow> Inr (Return 1 (if debug_mode then [SIGILL] else [])))"

text \<open>
  The process as a transition system: the processor exits, or the console thread inserts a scan
  code (the keyboard's mutex makes both atomic). The process is running, has returned from
  \<open>main\<close>, or has crashed.
\<close>

datatype run_state = Running machine | Stopped int | Crashed fault

datatype run_event = VmExit vm_exit | ScanCode u8

inductive kvm_step :: "bool \<Rightarrow> run_state \<Rightarrow> run_event \<Rightarrow> run_state \<Rightarrow> bool" for dbg where
  step_continue: "handle_exit dbg e m = Inr (Continue m' dat es sigs) \<Longrightarrow>
     kvm_step dbg (Running m) (VmExit e) (Running m')"
| step_return: "handle_exit dbg e m = Inr (Return c sigs) \<Longrightarrow>
     kvm_step dbg (Running m) (VmExit e) (Stopped c)"
| step_crash: "handle_exit dbg e m = Inl flt \<Longrightarrow>
     kvm_step dbg (Running m) (VmExit e) (Crashed flt)"
| step_key: "kvm_step dbg (Running m) (ScanCode k)
     (Running (m\<lparr>m_keyb := fst (keyboard_insert_keycode_event k (m_keyb m))\<rparr>))"

inductive kvm_reaches :: "bool \<Rightarrow> run_state \<Rightarrow> run_event list \<Rightarrow> run_state \<Rightarrow> bool" for dbg where
  reach_refl: "kvm_reaches dbg s [] s"
| reach_step: "kvm_reaches dbg s evs s' \<Longrightarrow> kvm_step dbg s' e s'' \<Longrightarrow> kvm_reaches dbg s (evs @ [e]) s''"

inductive_cases kvm_step_VmExitE: "kvm_step dbg (Running m) (VmExit e) s"
inductive_cases kvm_step_ScanCodeE: "kvm_step dbg (Running m) (ScanCode k) s"
inductive_cases kvm_step_StoppedE [elim!]: "kvm_step dbg (Stopped c) e s"
inductive_cases kvm_step_CrashedE [elim!]: "kvm_step dbg (Crashed f) e s"
inductive_simps kvm_reaches_Nil [simp]: "kvm_reaches dbg s [] s'"

section \<open>Routing\<close>

text \<open>The device an I/O exit is for: the conditions of the dispatch, as a function.\<close>

datatype target = Keyb | Vga | Com io_addr | PciBridge | DiskWord | DiskByte | Nobody

definition com_port :: "io_addr \<Rightarrow> io_exit \<Rightarrow> bool" where
  "com_port base x \<longleftrightarrow> io_size x = 1 \<and> io_count x = 1 \<and> base \<le> io_port x \<and> io_port x \<le> base + 7"

definition kb_port :: "io_exit \<Rightarrow> bool" where
  "kb_port x \<longleftrightarrow> io_size x = 1 \<and> io_count x = 1 \<and> (io_port x = 0x60 \<or> io_port x = 0x64)"

definition route :: "io_exit \<Rightarrow> machine \<Rightarrow> target" where
  "route x m =
     (let byte1 = (io_size x = 1 \<and> io_count x = 1); port = io_port x;
          bar0 = getBar 0 (m_devices m ! 0); bar1 = getBar 1 (m_devices m ! 0)
      in if kb_port x then Keyb
         else if byte1 \<and> (port = 0x03D4 \<or> port = 0x03D5) then Vga
         else if com_port 0x3f8 x then Com 0x3f8
         else if com_port 0x2f8 x then Com 0x2f8
         else if com_port 0x3e8 x then Com 0x3e8
         else if com_port 0x2e8 x then Com 0x2e8
         else if pci_port port then PciBridge
         else if ucast port \<ge> bar0 \<and> ucast port \<le> bar0 + 7 then
           (if io_size x = 2 \<and> io_count x = 1 then DiskWord
            else if byte1 then DiskByte else Nobody)
         else if ucast port \<ge> bar1 \<and> ucast port \<le> bar1 + 1 then DiskByte
         else Nobody)"

definition com_effect :: "io_addr \<Rightarrow> io_exit \<Rightarrow> machine \<Rightarrow> io_effect" where
  "com_effect base x m =
     (if base = 0x3f8 then com_io m_com1 (\<lambda>p. m_com1_update (\<lambda>_. p)) x m
      else if base = 0x2f8 then com_io m_com2 (\<lambda>p. m_com2_update (\<lambda>_. p)) x m
      else if base = 0x3e8 then com_io m_com3 (\<lambda>p. m_com3_update (\<lambda>_. p)) x m
      else com_io m_com4 (\<lambda>p. m_com4_update (\<lambda>_. p)) x m)"

lemma com_port_range:
  "com_port 0x3f8 x \<longleftrightarrow> io_size x = 1 \<and> io_count x = 1 \<and> io_port x \<ge> 0x3f8 \<and> io_port x \<le> 0x3ff"
  "com_port 0x2f8 x \<longleftrightarrow> io_size x = 1 \<and> io_count x = 1 \<and> io_port x \<ge> 0x2f8 \<and> io_port x \<le> 0x2ff"
  "com_port 0x3e8 x \<longleftrightarrow> io_size x = 1 \<and> io_count x = 1 \<and> io_port x \<ge> 0x3e8 \<and> io_port x \<le> 0x3ef"
  "com_port 0x2e8 x \<longleftrightarrow> io_size x = 1 \<and> io_count x = 1 \<and> io_port x \<ge> 0x2e8 \<and> io_port x \<le> 0x2ef"
  by (simp_all add: com_port_def)

lemma com_effect_simps:
  "com_effect 0x3f8 x m = com_io m_com1 (\<lambda>p. m_com1_update (\<lambda>_. p)) x m"
  "com_effect 0x2f8 x m = com_io m_com2 (\<lambda>p. m_com2_update (\<lambda>_. p)) x m"
  "com_effect 0x3e8 x m = com_io m_com3 (\<lambda>p. m_com3_update (\<lambda>_. p)) x m"
  "com_effect 0x2e8 x m = com_io m_com4 (\<lambda>p. m_com4_update (\<lambda>_. p)) x m"
  by (simp_all add: com_effect_def)

lemma case_target_if:
  "case_target a b c d e f g (if p then s else t) =
     (if p then case_target a b c d e f g s else case_target a b c d e f g t)"
  by simp

lemma handle_io_route:
  "handle_io x m =
     (case route x m of
        Keyb \<Rightarrow> Inr (keyboard_io x m) | Vga \<Rightarrow> Inr (vga_io x m)
      | Com base \<Rightarrow> Inr (com_effect base x m) | PciBridge \<Rightarrow> pci_io x m
      | DiskWord \<Rightarrow> hdd_word_io x m | DiskByte \<Rightarrow> Inr (hdd_byte_io x m)
      | Nobody \<Rightarrow> Inr (m, io_data x, []))"
  by (simp only: handle_io_def route_def Let_def case_target_if target.case com_port_range
      com_effect_simps kb_port_def pci_port_def conj_assoc)

lemma route_pci: "route x m = PciBridge \<Longrightarrow> pci_port (io_port x)"
  by (simp add: route_def Let_def split: if_splits)

lemma route_kb: "route x m = Keyb \<longleftrightarrow> kb_port x"
  by (simp add: route_def Let_def)

definition com_bases :: "io_addr set" where
  "com_bases = {0x3f8, 0x2f8, 0x3e8, 0x2e8}"

lemma com_port_unat:
  assumes "com_port base x" "base \<in> com_bases"
  shows "unat base \<le> unat (io_port x) \<and> unat (io_port x) \<le> unat base + 7"
proof -
  have "unat (base + 7) = unat base + 7" using assms(2) by (auto simp: com_bases_def)
  then show ?thesis using assms(1) by (simp add: com_port_def word_le_nat_alt)
qed

lemma com_port_disjoint:
  assumes "com_port base x" "com_port base' x" "base \<in> com_bases" "base' \<in> com_bases"
  shows "base = base'"
proof -
  have "unat base \<le> unat base' + 7 \<and> unat base' \<le> unat base + 7"
    using com_port_unat [OF assms(1,3)] com_port_unat [OF assms(2,4)] by linarith
  then show ?thesis
    using assms(3,4) unfolding com_bases_def by (elim insertE emptyE) simp_all
qed

lemma com_port_route:
  assumes "com_port base x" "base \<in> com_bases"
  shows "route x m = Com base"
proof -
  have ne: "io_port x \<noteq> a" if "unat a < unat base \<or> unat base + 7 < unat a" for a
    using com_port_unat [OF assms] that by auto
  have "\<not> kb_port x" "io_port x \<noteq> 0x03D4" "io_port x \<noteq> 0x03D5"
    using assms(2) ne [of "0x60"] ne [of "0x64"] ne [of "0x03D4"] ne [of "0x03D5"]
    by (auto simp: kb_port_def com_bases_def)
  moreover have "com_port b x \<longleftrightarrow> b = base" if "b \<in> com_bases" for b
    using com_port_disjoint [OF _ assms(1) that assms(2)] assms(1) by blast
  ultimately show ?thesis
    using assms(2) by (auto simp: route_def Let_def com_bases_def)
qed

lemma route_com: "route x m = Com base \<longleftrightarrow> base \<in> com_bases \<and> com_port base x"
proof
  assume "route x m = Com base"
  then show "base \<in> com_bases \<and> com_port base x"
    by (auto simp: route_def Let_def com_bases_def split: if_splits)
qed (use com_port_route in blast)

section \<open>Invariant of the machine\<close>

definition machine_inv :: "machine \<Rightarrow> bool" where
  "machine_inv m \<longleftrightarrow> kb_inv (m_keyb m) \<and> vga_memoryStart (m_vga m) = Some 0xB8000 \<and>
     sp_inv 0x3f8 (m_com1 m) \<and> sp_inv 0x2f8 (m_com2 m) \<and> sp_inv 0x3e8 (m_com3 m) \<and>
     sp_inv 0x2e8 (m_com4 m) \<and> devices_wf (m_pci m) (m_devices m) \<and> m_devices m \<noteq> [] \<and>
     hd_inv (m_hdd m)"

lemma guest_memory_size_eq:
  "unat (guest_memory_size cfg) =
     (if 8 \<le> unat cfg \<and> unat cfg < 1024 then (if even (unat cfg) then unat cfg else unat cfg + 1) * 2 ^ 20
      else 8 * 2 ^ 20)"
proof (cases "8 \<le> unat cfg \<and> unat cfg < 1024")
  case False
  then have "guest_memory_size cfg = 8 * 2 ^ 20"
    by (auto simp: guest_memory_size_def word_le_nat_alt word_less_nat_alt)
  then show ?thesis by (simp only: if_not_P [OF False]) simp
next
  case True
  let ?e = "if cfg AND 1 = 0 then cfg else cfg + 1"
  have odd: "cfg AND 1 = 0 \<longleftrightarrow> even (unat cfg)"
    by (simp add: and_one_eq word_unat_eq_iff unat_mod_distrib even_iff_mod_2_eq_zero)
  have e: "unat ?e = (if even (unat cfg) then unat cfg else unat cfg + 1)"
    using True odd by (auto simp: unat_word_ariths)
  then have "unat (?e * 1024 * 1024) = unat ?e * 2 ^ 20"
    using True by (simp add: unat_word_ariths)
  moreover have "guest_memory_size cfg = ?e * 1024 * 1024"
    using True by (simp add: guest_memory_size_def word_le_nat_alt word_less_nat_alt)
  ultimately show ?thesis using True e by simp
qed

lemma guest_memory_size_range:
  "2 ^ 21 dvd unat (guest_memory_size cfg)" "8 * 2 ^ 20 \<le> unat (guest_memory_size cfg)"
  "unat (guest_memory_size cfg) \<le> 2 ^ 30"
proof -
  have "\<exists>k. unat (guest_memory_size cfg) = 2 * k * 2 ^ 20 \<and> 4 \<le> k \<and> k \<le> 512"
  proof (cases "8 \<le> unat cfg \<and> unat cfg < 1024")
    case True
    let ?n = "if even (unat cfg) then unat cfg else unat cfg + 1"
    have "even ?n" "8 \<le> ?n" "?n \<le> 1024" using True by auto
    then show ?thesis using True by (intro exI [of _ "?n div 2"]) (auto simp: guest_memory_size_eq)
  next
    case False
    then show ?thesis by (intro exI [of _ 4]) (auto simp: guest_memory_size_eq)
  qed
  then show "2 ^ 21 dvd unat (guest_memory_size cfg)" "8 * 2 ^ 20 \<le> unat (guest_memory_size cfg)"
    "unat (guest_memory_size cfg) \<le> 2 ^ 30" by auto
qed

lemma initIO_defined:
  assumes "hd_inv d"
  shows "\<exists>m. initIO junk d = Inr m \<and> machine_inv m \<and> m_keyb m = keyboard_new \<and>
    m_com1 m = serial_port_new 0x3f8 \<and> m_com2 m = serial_port_new 0x2f8 \<and>
    m_com3 m = serial_port_new 0x3e8 \<and> m_com4 m = serial_port_new 0x2e8 \<and>
    m_devices m = [ata_configured, PCI_APIC_new blank_device] \<and> m_hdd m = d \<and>
    ph_devices (m_pci m) = connected_slots"
proof -
  obtain jd jb jf joff where "junk = (jd, jb, jf, joff)" by (cases junk) auto
  then show ?thesis
    using assms
    by (simp add: initIO_def pci_host_new_machine machine_inv_def sp_inv_new vga_setVMem_def
        devices_wf_machine)
qed

lemma initIO_fields:
  assumes "initIO junk d = Inr m" "hd_inv d"
  shows "machine_inv m" "m_keyb m = keyboard_new"
    "m_com1 m = serial_port_new 0x3f8" "m_com2 m = serial_port_new 0x2f8"
    "m_com3 m = serial_port_new 0x3e8" "m_com4 m = serial_port_new 0x2e8"
    "m_devices m = [ata_configured, PCI_APIC_new blank_device]" "m_hdd m = d"
    "ph_devices (m_pci m) = connected_slots"
  using initIO_defined [OF assms(2), of junk] assms(1) by auto

lemma config_write_wf:
  assumes "pci_wf p"
  shows "write_reg_byte_PCI off vb p = Inr p' \<Longrightarrow> pci_wf p'"
    and "write_reg_word_PCI off vw p = Inr p' \<Longrightarrow> pci_wf p'"
    and "write_reg_long_PCI off vl p = Inr p' \<Longrightarrow> pci_wf p'"
  using assms by (auto simp: config_defs split: if_splits)

lemma devices_wf_update:
  "devices_wf h ds \<Longrightarrow> pci_wf p \<Longrightarrow> devices_wf h (ds[i := p])"
  by (auto simp: devices_wf_def list_all_iff dest: subsetD [OF set_update_subset_insert])

lemma devices_wf_nth:
  "devices_wf h ds \<Longrightarrow> pci_selected h = Inr (Some i) \<Longrightarrow> pci_wf (ds ! i)"
  by (auto simp: devices_wf_def pci_selected_def list_all_length split: if_splits)
     (metis nth_mem not_less)

lemma selected_write_devices:
  assumes "devices_wf h ds" "\<And>p p'. pci_wf p \<Longrightarrow> w p = Inr p' \<Longrightarrow> pci_wf p'"
    "bind_res (pci_selected h) (\<lambda>tmp. case tmp of None \<Rightarrow> Inr (h, ds)
      | Some i \<Rightarrow> if ph_function_number h \<noteq> 0 then Inr (h, ds)
          else bind_res (w (ds ! i)) (\<lambda>p. Inr (h, ds[i := p]))) = Inr (h', ds')"
  shows "devices_wf h' ds' \<and> length ds' = length ds"
proof -
  obtain tmp where tmp: "pci_selected h = Inr tmp" using assms(3) by auto
  show ?thesis
  proof (cases tmp)
    case (Some i)
    then have "pci_wf (ds ! i)" using devices_wf_nth [OF assms(1)] tmp by simp
    then show ?thesis
      using assms Some tmp by (auto split: if_splits intro: devices_wf_update)
  qed (use assms tmp in simp)
qed

lemma pci_host_write_devices:
  assumes "devices_wf h ds"
  shows "pci_host_write_reg_byte a vb (h, ds) = Inr (h', ds') \<Longrightarrow> devices_wf h' ds' \<and> length ds' = length ds"
    and "pci_host_write_reg_word a vw (h, ds) = Inr (h', ds') \<Longrightarrow> devices_wf h' ds' \<and> length ds' = length ds"
    and "pci_host_write_reg_long a vl (h, ds) = Inr (h', ds') \<Longrightarrow> devices_wf h' ds' \<and> length ds' = length ds"
proof -
  let ?o = "ph_offset_number h + ucast a - ucast CDP_addr"
  note sel = selected_write_devices [OF assms]
  show "pci_host_write_reg_byte a vb (h, ds) = Inr (h', ds') \<Longrightarrow> devices_wf h' ds' \<and> length ds' = length ds"
    using sel [of "write_reg_byte_PCI ?o vb" h' ds'] assms config_write_wf(1)
    unfolding pci_host_write_reg_byte_def by (simp split: if_splits)
  show "pci_host_write_reg_word a vw (h, ds) = Inr (h', ds') \<Longrightarrow> devices_wf h' ds' \<and> length ds' = length ds"
    using sel [of "write_reg_word_PCI ?o vw" h' ds'] assms config_write_wf(2)
    unfolding pci_host_write_reg_word_def by (simp split: if_splits)
  have "devices_wf (prepare_data (h\<lparr>ph_CAP := vl\<rparr>)) ds"
    using assms by (simp add: devices_wf_def prepare_data_def)
  then show "pci_host_write_reg_long a vl (h, ds) = Inr (h', ds') \<Longrightarrow> devices_wf h' ds' \<and> length ds' = length ds"
    using sel [of "write_reg_long_PCI ?o vl" h' ds'] assms config_write_wf(3)
    unfolding pci_host_write_reg_long_def by (auto split: if_splits)
qed

lemma pci_io_frame:
  assumes "pci_io x m = Inr (m', dat, es)"
  shows "m' = m\<lparr>m_pci := m_pci m', m_devices := m_devices m'\<rparr>" and "es = []"
    and "devices_wf (m_pci m) (m_devices m) \<Longrightarrow>
      devices_wf (m_pci m') (m_devices m') \<and> length (m_devices m') = length (m_devices m)"
  using assms by (auto simp: pci_io_def Let_def split: if_splits dest: pci_host_write_devices)

lemma hdd_word_io_frame:
  assumes "hdd_word_io x m = Inr (m', dat, es)" "hd_inv (m_hdd m)"
  shows "m' = m\<lparr>m_hdd := m_hdd m'\<rparr>" and "hd_inv (m_hdd m')"
  using assms write_BR_defined [OF assms(2), of "io_param_word x"]
  by (auto simp: hdd_word_io_def PCI_ATA_write_reg_word_def PCI_ATA_read_reg_word_def
      HardDisk_write_reg_word_def HardDisk_read_reg_word_def split: if_splits
      dest: read_BR_inv)

lemma hdd_byte_io_frame:
  assumes "hdd_byte_io x m = (m', dat, es)" "hd_inv (m_hdd m)"
  shows "m' = m\<lparr>m_hdd := m_hdd m'\<rparr>" and "hd_inv (m_hdd m')"
  using assms
  by (auto simp: hdd_byte_io_def PCI_ATA_write_reg_byte_def PCI_ATA_read_reg_byte_def
      case_prod_beta Let_def write_reg_byte_inv read_reg_byte_inv split: if_splits)

lemma keyboard_io_frame:
  assumes "keyboard_io x m = (m', dat, es)"
  shows "m' = m\<lparr>m_keyb := m_keyb m'\<rparr>" and "kb_inv (m_keyb m) \<Longrightarrow> kb_inv (m_keyb m')"
  using assms
  by (auto simp: keyboard_io_def case_prod_beta Let_def keyboard_write_inv keyboard_read_inv
      split: if_splits)

lemma vga_io_frame:
  assumes "vga_io x m = (m', dat, es)"
  shows "m' = m\<lparr>m_vga := m_vga m'\<rparr>" and "vga_memoryStart (m_vga m') = vga_memoryStart (m_vga m)"
  using assms vgad.wr_inv [OF refl] vgad.rd_inv [OF refl]
  by (auto simp: vga_io_def case_prod_beta Let_def split: if_splits)

lemma com_effect_inv:
  assumes "machine_inv m" "com_effect base x m = (m', dat, es)"
  shows "machine_inv m'"
  using assms
  by (auto simp: com_effect_def com_io_def machine_inv_def case_prod_beta Let_def
      sp_inv_write sp_inv_read split: if_splits)

lemma handle_io_inv:
  assumes "machine_inv m" "handle_io x m = Inr (m', dat, es)"
  shows "machine_inv m'"
proof (cases "route x m")
  case PciBridge
  then have io: "pci_io x m = Inr (m', dat, es)" using assms(2) by (simp add: handle_io_route)
  have "machine_inv (m\<lparr>m_pci := m_pci m', m_devices := m_devices m'\<rparr>)"
    using assms(1) pci_io_frame(3) [OF io] by (auto simp: machine_inv_def)
  then show ?thesis using pci_io_frame(1) [OF io] by simp
next
  case DiskWord
  then have io: "hdd_word_io x m = Inr (m', dat, es)" using assms(2) by (simp add: handle_io_route)
  have "machine_inv (m\<lparr>m_hdd := m_hdd m'\<rparr>)"
    using assms(1) hdd_word_io_frame(2) [OF io] by (simp add: machine_inv_def)
  moreover have "hd_inv (m_hdd m)" using assms(1) by (simp add: machine_inv_def)
  ultimately show ?thesis using hdd_word_io_frame(1) [OF io] by simp
next
  case DiskByte
  then have io: "hdd_byte_io x m = (m', dat, es)" using assms(2) by (simp add: handle_io_route)
  have "machine_inv (m\<lparr>m_hdd := m_hdd m'\<rparr>)"
    using assms(1) hdd_byte_io_frame(2) [OF io] by (simp add: machine_inv_def)
  moreover have "hd_inv (m_hdd m)" using assms(1) by (simp add: machine_inv_def)
  ultimately show ?thesis using hdd_byte_io_frame(1) [OF io] by simp
next
  case Keyb
  then have io: "keyboard_io x m = (m', dat, es)" using assms(2) by (simp add: handle_io_route)
  have "machine_inv (m\<lparr>m_keyb := m_keyb m'\<rparr>)"
    using assms(1) keyboard_io_frame(2) [OF io] by (simp add: machine_inv_def)
  then show ?thesis using keyboard_io_frame(1) [OF io] by simp
next
  case Vga
  then have io: "vga_io x m = (m', dat, es)" using assms(2) by (simp add: handle_io_route)
  have "machine_inv (m\<lparr>m_vga := m_vga m'\<rparr>)"
    using assms(1) vga_io_frame(2) [OF io] by (simp add: machine_inv_def)
  then show ?thesis using vga_io_frame(1) [OF io] by simp
next
  case (Com base)
  then show ?thesis using assms com_effect_inv by (simp add: handle_io_route)
qed (use assms in \<open>simp add: handle_io_route\<close>)

text \<open>With the bridge's decoded numbers in range, which holds from the first write of the
  configuration address on, nothing but a data read of the disk can fault.\<close>

definition machine_ok :: "machine \<Rightarrow> bool" where
  "machine_ok m \<longleftrightarrow> machine_inv m \<and> bus_wf (m_pci m, m_devices m)"

lemma pci_io_ok:
  assumes "bus_wf (m_pci m, m_devices m)" "pci_port (io_port x)"
  shows "\<exists>m' dat es. pci_io x m = Inr (m', dat, es) \<and> bus_wf (m_pci m', m_devices m')"
proof -
  note w = pci_host_write_defined [OF assms] and r = pci_host_read_defined [OF assms]
  show ?thesis
    using w(1) [of "io_param_long x"] w(2) [of "io_param_word x"] w(3) [of "io_param x"] r assms(1)
    by (fastforce simp: pci_io_def Let_def)
qed

lemma handle_io_bus:
  assumes "machine_ok m" "handle_io x m = Inr (m', dat, es)"
  shows "machine_ok m'"
proof -
  have "bus_wf (m_pci m', m_devices m')"
  proof (cases "route x m = PciBridge")
    case True
    then show ?thesis
      using pci_io_ok [of m x] route_pci assms by (auto simp: handle_io_route machine_ok_def)
  next
    case False
    have inv: "hd_inv (m_hdd m)" using assms(1) by (simp add: machine_ok_def machine_inv_def)
    have "m_pci m' = m_pci m \<and> m_devices m' = m_devices m"
    proof (cases "route x m")
      case DiskWord
      then obtain d where "m' = m\<lparr>m_hdd := d\<rparr>"
        using hdd_word_io_frame(1) [OF _ inv, of x m' dat es] assms(2) unfolding handle_io_route
        by (simp only: target.case) blast
      then show ?thesis by simp
    next
      case DiskByte
      then show ?thesis
        using assms(2) by (auto simp: handle_io_route hdd_byte_io_def case_prod_beta Let_def split: if_splits)
    next
      case Keyb
      then show ?thesis
        using assms(2) by (auto simp: handle_io_route keyboard_io_def case_prod_beta Let_def split: if_splits)
    next
      case Vga
      then show ?thesis
        using assms(2) by (auto simp: handle_io_route vga_io_def case_prod_beta Let_def split: if_splits)
    next
      case (Com base)
      then show ?thesis
        using assms(2)
        by (auto simp: handle_io_route com_effect_def com_io_def case_prod_beta Let_def split: if_splits)
    qed (use assms(2) False in \<open>simp_all add: handle_io_route\<close>)
    then show ?thesis using assms(1) by (simp add: machine_ok_def)
  qed
  then show ?thesis using handle_io_inv assms by (auto simp: machine_ok_def)
qed

lemma handle_io_fault:
  assumes "machine_ok m" "handle_io x m = Inl f"
  shows "route x m = DiskWord \<and> io_direction x = KVM_EXIT_IO_IN \<and>
    ata_translate (m_devices m ! 0) (io_port x) = BR_addr \<and> hd_step (InW BR_addr) (m_hdd m) = Inl f"
proof -
  have "hd_inv (m_hdd m)" using assms(1) by (simp add: machine_ok_def machine_inv_def)
  then obtain d es where w: "write_BR_register (io_param_word x) (m_hdd m) = Inr (d, es)"
    using write_BR_defined by blast
  show ?thesis
  proof (cases "route x m")
    case PciBridge
    then show ?thesis
      using pci_io_ok [of m x] route_pci assms by (auto simp: handle_io_route machine_ok_def)
  next
    case DiskWord
    then show ?thesis
      using assms(2) w
      by (auto simp: handle_io_route hdd_word_io_def PCI_ATA_write_reg_word_def
          PCI_ATA_read_reg_word_def HardDisk_write_reg_word_def HardDisk_read_reg_word_def
          bind_res_eq_Inl split: if_splits)
  qed (use assms(2) in \<open>simp_all add: handle_io_route\<close>)
qed

lemma kvm_step_ok:
  assumes "kvm_step dbg s e s'" "\<And>m. s = Running m \<Longrightarrow> machine_ok m" "s' = Running m'"
  shows "machine_ok m'"
  using assms
proof (cases rule: kvm_step.cases)
  case (step_continue e m m1 dat es sigs)
  then show ?thesis
    using assms(2,3) handle_io_bus
    by (auto simp: handle_exit_def split: vm_exit.splits if_splits)
next
  case (step_key m k)
  then show ?thesis
    using assms(2,3) by (auto simp: machine_ok_def machine_inv_def keyboard_insert_inv)
qed auto

lemma kvm_reaches_ok:
  "kvm_reaches dbg s evs s' \<Longrightarrow> (\<And>m. s = Running m \<Longrightarrow> machine_ok m) \<Longrightarrow> s' = Running m' \<Longrightarrow> machine_ok m'"
  by (induction arbitrary: m' rule: kvm_reaches.induct) (blast dest: kvm_step_ok)+

lemma kvm_step_inv:
  assumes "kvm_step dbg s e s'" "\<And>m. s = Running m \<Longrightarrow> machine_inv m" "s' = Running m'"
  shows "machine_inv m'"
  using assms
proof (cases rule: kvm_step.cases)
  case (step_continue e m m1 dat es sigs)
  then show ?thesis
    using assms(2,3) handle_io_inv
    by (auto simp: handle_exit_def split: vm_exit.splits if_splits)
next
  case (step_key m k)
  then show ?thesis
    using assms(2,3) by (auto simp: machine_inv_def keyboard_insert_inv)
qed auto

lemma kvm_reaches_inv:
  "kvm_reaches dbg s evs s' \<Longrightarrow> (\<And>m. s = Running m \<Longrightarrow> machine_inv m) \<Longrightarrow> s' = Running m' \<Longrightarrow> machine_inv m'"
  by (induction arbitrary: m' rule: kvm_reaches.induct) (blast dest: kvm_step_inv)+

lemma kvm_step_stopped: "kvm_step dbg s e (Stopped c) \<Longrightarrow> c = 1"
  by (erule kvm_step.cases) (auto simp: handle_exit_def split: vm_exit.splits if_splits)

section \<open>Projections\<close>

text \<open>What one device sees of a run: the accesses routed to it, and for the keyboard the codes of
  the console thread.\<close>

fun kb_proj :: "run_event \<Rightarrow> kb_event list" where
  "kb_proj (ScanCode k) = [KeyEvent k]"
| "kb_proj (VmExit (EXIT_IO x)) =
     (if kb_port x \<and> io_direction x = KVM_EXIT_IO_OUT then [GuestOut (io_port x) (io_param x)]
      else if kb_port x \<and> io_direction x = KVM_EXIT_IO_IN then [GuestIn (io_port x)] else [])"
| "kb_proj _ = []"

fun com_proj :: "io_addr \<Rightarrow> run_event \<Rightarrow> port_access list" where
  "com_proj base (VmExit (EXIT_IO x)) =
     (if com_port base x \<and> io_direction x = KVM_EXIT_IO_OUT then [PortOut (io_port x) (io_param x)]
      else if com_port base x \<and> io_direction x = KVM_EXIT_IO_IN then [PortIn (io_port x)] else [])"
| "com_proj base _ = []"

lemma kb_run_append_state: "fst (kb_run (xs @ ys) kb) = fst (kb_run ys (fst (kb_run xs kb)))"
  by (induction xs arbitrary: kb) (simp_all add: case_prod_beta Let_def del: kb_step.simps)

lemma handle_io_keyb:
  assumes "handle_io x m = Inr (m', dat, es)" "hd_inv (m_hdd m)"
  shows "m_keyb m' = fst (kb_run (kb_proj (VmExit (EXIT_IO x))) (m_keyb m))"
proof (cases "route x m")
  case Keyb
  then show ?thesis
    using assms(1) route_kb [of x m]
    by (auto simp: handle_io_route keyboard_io_def case_prod_beta Let_def split: if_splits)
next
  case PciBridge
  then obtain h ds where "m' = m\<lparr>m_pci := h, m_devices := ds\<rparr>"
    using assms(1) pci_io_frame(1) [of x m m' dat es] unfolding handle_io_route
    by (simp only: target.case) blast
  then show ?thesis using PciBridge route_kb [of x m] by simp
next
  case DiskWord
  then obtain d where "m' = m\<lparr>m_hdd := d\<rparr>"
    using assms hdd_word_io_frame(1) [of x m m' dat es] unfolding handle_io_route
    by (simp only: target.case) blast
  then show ?thesis using DiskWord route_kb [of x m] by simp
qed (use assms(1) route_kb [of x m] in
  \<open>auto simp: handle_io_route vga_io_def com_effect_def com_io_def hdd_byte_io_def case_prod_beta
     Let_def split: if_splits\<close>)

definition com_of :: "io_addr \<Rightarrow> machine \<Rightarrow> serial_port" where
  "com_of base m = (if base = 0x3f8 then m_com1 m else if base = 0x2f8 then m_com2 m
     else if base = 0x3e8 then m_com3 m else m_com4 m)"

lemma com_effect_com_of:
  assumes "com_effect b x m = (m', dat, es)" "b \<in> com_bases" "base \<in> com_bases" "com_port b x"
  shows "com_of base m' = fold sp_access (com_proj base (VmExit (EXIT_IO x))) (com_of base m)"
proof -
  have "com_port base x \<longleftrightarrow> base = b"
    using com_port_disjoint assms(2-4) by blast
  then show ?thesis
    using assms(1-3)
    by (auto simp: com_effect_def com_io_def com_of_def com_bases_def case_prod_beta Let_def
        split: if_splits)
qed

lemma handle_io_com:
  assumes "handle_io x m = Inr (m', dat, es)" "hd_inv (m_hdd m)" "base \<in> com_bases"
  shows "com_of base m' = fold sp_access (com_proj base (VmExit (EXIT_IO x))) (com_of base m)"
proof (cases "route x m")
  case (Com b)
  then show ?thesis
    using assms com_effect_com_of [of b x m m' dat es base] route_com [of x m b]
    by (simp add: handle_io_route)
next
  case PciBridge
  then obtain h ds where "m' = m\<lparr>m_pci := h, m_devices := ds\<rparr>"
    using assms(1) pci_io_frame(1) [of x m m' dat es] unfolding handle_io_route
    by (simp only: target.case) blast
  then show ?thesis using PciBridge assms(3) route_com [of x m base] by (simp add: com_of_def)
next
  case DiskWord
  then obtain d where "m' = m\<lparr>m_hdd := d\<rparr>"
    using assms hdd_word_io_frame(1) [of x m m' dat es] unfolding handle_io_route
    by (simp only: target.case) blast
  then show ?thesis using DiskWord assms(3) route_com [of x m base] by (simp add: com_of_def)
next
  case DiskByte
  then obtain d where "m' = m\<lparr>m_hdd := d\<rparr>"
    using assms hdd_byte_io_frame(1) [of x m m' dat es] unfolding handle_io_route
    by (simp only: target.case) blast
  then show ?thesis using DiskByte assms(3) route_com [of x m base] by (simp add: com_of_def)
next
  case Keyb
  then obtain d where "m' = m\<lparr>m_keyb := d\<rparr>"
    using assms keyboard_io_frame(1) [of x m m' dat es] unfolding handle_io_route
    by (simp only: target.case) blast
  then show ?thesis using Keyb assms(3) route_com [of x m base] by (simp add: com_of_def)
next
  case Vga
  then obtain d where "m' = m\<lparr>m_vga := d\<rparr>"
    using assms vga_io_frame(1) [of x m m' dat es] unfolding handle_io_route
    by (simp only: target.case) blast
  then show ?thesis using Vga assms(3) route_com [of x m base] by (simp add: com_of_def)
next
  case Nobody
  then show ?thesis
    using assms(1,3) route_com [of x m base] by (simp add: handle_io_route)
qed

lemma handle_exit_continue:
  assumes "handle_exit dbg e m = Inr (Continue m' dat es sigs)"
  shows "(\<exists>x. e = EXIT_IO x \<and> handle_io x m = Inr (m', dat, es)) \<or>
    m' = m \<and> (\<forall>x. e \<noteq> EXIT_IO x)"
  using assms by (auto simp: handle_exit_def split: vm_exit.splits if_splits)

lemma proj_other_exit:
  "\<forall>x. v \<noteq> EXIT_IO x \<Longrightarrow> kb_proj (VmExit v) = [] \<and> com_proj base (VmExit v) = []"
  by (cases v) simp_all

lemma kvm_step_proj:
  assumes "kvm_step dbg (Running m) e (Running m')" "machine_ok m"
  shows "m_keyb m' = fst (kb_run (kb_proj e) (m_keyb m))"
    and "base \<in> com_bases \<Longrightarrow> com_of base m' = fold sp_access (com_proj base e) (com_of base m)"
proof -
  have inv: "hd_inv (m_hdd m)" using assms(2) by (simp add: machine_ok_def machine_inv_def)
  show "m_keyb m' = fst (kb_run (kb_proj e) (m_keyb m))"
    using assms(1)
  proof (cases rule: kvm_step.cases)
    case (step_continue v dat es sigs)
    from handle_exit_continue [OF step_continue(2)] show ?thesis
      unfolding step_continue(1)
    proof
      assume "\<exists>x. v = EXIT_IO x \<and> handle_io x m = Inr (m', dat, es)"
      then show "m_keyb m' = fst (kb_run (kb_proj (VmExit v)) (m_keyb m))"
        using handle_io_keyb [OF _ inv] by blast
    qed (simp add: proj_other_exit)
  qed (simp add: case_prod_beta)
  show "com_of base m' = fold sp_access (com_proj base e) (com_of base m)" if "base \<in> com_bases"
    using assms(1)
  proof (cases rule: kvm_step.cases)
    case (step_continue v dat es sigs)
    from handle_exit_continue [OF step_continue(2)] show ?thesis
      unfolding step_continue(1)
    proof
      assume "\<exists>x. v = EXIT_IO x \<and> handle_io x m = Inr (m', dat, es)"
      then show "com_of base m' = fold sp_access (com_proj base (VmExit v)) (com_of base m)"
        using handle_io_com [OF _ inv that] by blast
    qed (simp add: proj_other_exit)
  qed (simp add: com_of_def)
qed

lemma kvm_reaches_proj:
  assumes "kvm_reaches dbg s evs s'" "s = Running m" "machine_ok m" "s' = Running m'"
  shows "m_keyb m' = fst (kb_run (concat (map kb_proj evs)) (m_keyb m)) \<and>
    (\<forall>base\<in>com_bases. com_of base m' = fold sp_access (concat (map (com_proj base) evs)) (com_of base m))"
  using assms
proof (induction arbitrary: m' rule: kvm_reaches.induct)
  case (reach_refl s)
  then show ?case by simp
next
  case (reach_step s evs s1 e s2)
  have "\<exists>m1. s1 = Running m1" using reach_step.hyps(2) by (cases rule: kvm_step.cases) auto
  then obtain m1 where m1: "s1 = Running m1" by blast
  have st: "kvm_step dbg (Running m1) e (Running m')"
    using reach_step.hyps(2) reach_step.prems(3) m1 by simp
  have "machine_ok m1"
    using kvm_reaches_ok [OF reach_step.hyps(1) _ m1] reach_step.prems(1,2) by blast
  note proj = kvm_step_proj [OF st this]
  have ih: "m_keyb m1 = fst (kb_run (concat (map kb_proj evs)) (m_keyb m)) \<and>
    (\<forall>base\<in>com_bases. com_of base m1 = fold sp_access (concat (map (com_proj base) evs)) (com_of base m))"
    using reach_step.IH [OF reach_step.prems(1,2) m1] .
  have "m_keyb m' = fst (kb_run (concat (map kb_proj (evs @ [e]))) (m_keyb m))"
    using ih proj(1) by (simp add: kb_run_append_state)
  moreover have "com_of base m' = fold sp_access (concat (map (com_proj base) (evs @ [e]))) (com_of base m)"
    if "base \<in> com_bases" for base
    using ih proj(2) [OF that] that by simp
  ultimately show ?case by blast
qed

section \<open>Base address registers\<close>

text \<open>An output of \<open>n\<close> bytes, as the processor reports it.\<close>

definition out_exit :: "u8 \<Rightarrow> io_addr \<Rightarrow> nat \<Rightarrow> io_exit" where
  "out_exit n port v =
     \<lparr>io_direction = KVM_EXIT_IO_OUT, io_size = n, io_port = port, io_count = 1, io_data = le_bytes 4 v\<rparr>"

lemma out_exit_params:
  "io_param (out_exit n port (unat b)) = b" "io_param_long (out_exit n port (unat l)) = l"
proof -
  have "le_bytes 4 (unat b) = of_nat (unat b) # le_bytes 3 (unat b div 256)"
    using le_bytes.simps(2) [of 3 "unat b"] by simp
  then have "get_bytes 0 1 (le_bytes 4 (unat b)) = le_bytes 1 (unat b)"
    by (simp add: get_bytes_def)
  then show "io_param (out_exit n port (unat b)) = b"
    by (simp add: io_param_def out_exit_def le_val_le_bytes)
  have "get_bytes 0 4 (le_bytes 4 (unat l)) = le_bytes 4 (unat l)" by (simp add: get_bytes_def)
  then show "io_param_long (out_exit n port (unat l)) = l"
    using unsigned_less [where w = l and 'a = nat]
    by (simp add: io_param_long_def out_exit_def le_val_le_bytes)
qed

lemma getBar_long:
  assumes "read_reg_long_PCI 0x10 p = Inr v"
  shows "getBar 0 p = v"
  using assms by (simp add: getBar_def read_reg_long_PCI_def)

lemma long_out_pci:
  assumes "io_port x \<in> {0xcf8, 0xcfc}" "io_size x = 4" "io_direction x = KVM_EXIT_IO_OUT"
  shows "handle_io x m = bind_res (pci_host_write_reg_long (io_port x) (io_param_long x) (m_pci m, m_devices m))
    (\<lambda>(h, ds). Inr (m\<lparr>m_pci := h, m_devices := ds\<rparr>, io_data x, []))"
proof -
  have "io_size x \<noteq> 1" "pci_port (io_port x)" using assms by (auto simp: pci_port_def)
  then have "route x m = PciBridge"
    by (simp add: route_def kb_port_def com_port_def Let_def)
  then show ?thesis using assms(2,3) by (simp add: handle_io_route pci_io_def)
qed

text \<open>Programming the first base address register through the two configuration ports.\<close>

lemma program_bar0:
  assumes "machine_ok m" "ph_devices (m_pci m) ! 0 = Some 0"
  shows "\<exists>m1 m2 p. handle_io (out_exit 4 0xCF8 (unat (0x80000010 :: u32))) m = Inr (m1, le_bytes 4 0x80000010, []) \<and>
    handle_io (out_exit 4 0xCFC (unat (b :: u32))) m1 = Inr (m2, le_bytes 4 (unat b), []) \<and>
    machine_ok m2 \<and> m_devices m2 = (m_devices m)[0 := p] \<and> getBar 0 p = b \<and>
    m_hdd m2 = m_hdd m \<and> m_keyb m2 = m_keyb m"
proof -
  let ?h = "m_pci m" and ?ds = "m_devices m"
  let ?h1 = "prepare_data (?h\<lparr>ph_CAP := 0x80000010\<rparr>)"
  let ?m1 = "m\<lparr>m_pci := ?h1, m_devices := ?ds\<rparr>"
  have wf: "bus_wf (?h, ?ds)" using assms(1) by (simp add: machine_ok_def)
  have io1: "handle_io (out_exit 4 0xCF8 (unat (0x80000010 :: u32))) m = Inr (?m1, le_bytes 4 0x80000010, [])"
    using out_exit_params(2) [of 4 "0xCF8" "0x80000010"]
    by (subst long_out_pci) (simp_all add: out_exit_def cap_write)
  have h1: "pci_selected ?h1 = Inr (Some 0)" "ph_function_number ?h1 = 0" "ph_offset_number ?h1 = 0x10"
    using addressed_selected(2) [OF wf refl, of "0x80000010"] assms(2)
    by (simp_all add: prepare_data_def)
  have ds: "?ds \<noteq> []" "pci_wf (?ds ! 0)"
    using assms(1) by (auto simp: machine_ok_def machine_inv_def devices_wf_def list_all_length)
  obtain p where p: "write_reg_long_PCI 0x10 b (?ds ! 0) = Inr p" "read_reg_long_PCI 0x10 p = Inr b"
    using cfg_long.wr_inside [OF ds(2), of "0x10" b] by auto
  let ?m2 = "?m1\<lparr>m_pci := ?h1, m_devices := ?ds[0 := p]\<rparr>"
  have w: "pci_host_write_reg_long CDP_addr b (?h1, ?ds) = Inr (?h1, ?ds[0 := p])"
    using h1 p(1) by (simp add: pci_host_write_reg_long_def)
  have io2: "handle_io (out_exit 4 0xCFC (unat b)) ?m1 = Inr (?m2, le_bytes 4 (unat b), [])"
    using w out_exit_params(2) [of 4 "0xCFC" b]
    by (subst long_out_pci) (simp_all add: out_exit_def)
  have "machine_ok ?m2" using handle_io_bus [OF handle_io_bus [OF assms(1) io1] io2] .
  then show ?thesis
    using io1 io2 getBar_long [OF p(2)] by (intro exI [of _ ?m1] exI [of _ ?m2] exI [of _ p]) simp
qed

text \<open>A byte port that no fixed device claims reaches the disk through its base address.\<close>

definition free_port :: "io_addr \<Rightarrow> bool" where
  "free_port a \<longleftrightarrow> a \<notin> {0x60, 0x64, 0x03D4, 0x03D5} \<and> \<not> pci_port a \<and>
     (\<forall>base\<in>com_bases. \<not> (base \<le> a \<and> a \<le> base + 7))"

lemma unat_of_nat_small_u16: "n < 65536 \<Longrightarrow> unat (of_nat n :: u16) = n"
  by (simp add: unat_of_nat)

lemma ata_translate_bar0:
  assumes "unat (getBar 0 p) + 7 < 65536" "i \<le> 7"
  shows "ata_translate p (of_nat (unat (getBar 0 p) + i)) = 0x01F0 + of_nat i"
proof -
  let ?b = "getBar 0 p"
  have b: "unat (ucast ?b :: u16) = unat ?b"
    using assms(1) by (simp add: unsigned_ucast_eq take_bit_nat_eq_self)
  have p: "unat (of_nat (unat ?b + i) :: u16) = unat ?b + i"
    using assms by (intro unat_of_nat_small_u16) simp
  have "(of_nat (unat ?b) :: u16) = ucast ?b" using b by (metis of_nat_unat ucast_id)
  then have "(of_nat (unat ?b + i) :: u16) - ucast ?b = of_nat i" by simp
  then show ?thesis
    using assms(2) by (simp add: ata_translate_def b p Let_def del: of_nat_add)
qed

lemma route_bar0:
  assumes "unat (getBar 0 (m_devices m ! 0)) + 7 < 65536" "i \<le> 7"
    "io_port x = of_nat (unat (getBar 0 (m_devices m ! 0)) + i)" "free_port (io_port x)"
    "io_size x = 1" "io_count x = 1"
  shows "route x m = DiskByte"
proof -
  let ?b = "getBar 0 (m_devices m ! 0)"
  have p: "unat (io_port x) = unat ?b + i"
    unfolding assms(3) using assms(1,2) by (intro unat_of_nat_small_u16) simp
  then have u: "unat (ucast (io_port x) :: u32) = unat ?b + i"
    using assms(1,2) by (simp add: unsigned_ucast_eq take_bit_nat_eq_self)
  have "unat (?b + 7) = unat ?b + 7" using assms(1) by (simp add: unat_word_ariths)
  then have in_bar: "ucast (io_port x) \<ge> ?b \<and> ucast (io_port x) \<le> ?b + 7"
    using u assms(2) by (simp add: word_le_nat_alt)
  show ?thesis
    using assms(4-6) in_bar
    by (simp add: route_def free_port_def kb_port_def com_port_def com_bases_def Let_def)
qed

text \<open>The machine around a two-block disk, as an example.\<close>

definition in_exit :: "u8 \<Rightarrow> io_addr \<Rightarrow> io_exit" where
  "in_exit n port =
     \<lparr>io_direction = KVM_EXIT_IO_IN, io_size = n, io_port = port, io_count = 1, io_data = le_bytes 4 0\<rparr>"

lemma example_machine:
  "\<exists>m. initIO (0, 0, 0, 0) small_disk = Inr m \<and> machine_ok m \<and> m_hdd m = small_disk \<and>
     m_devices m = [ata_configured, PCI_APIC_new blank_device] \<and>
     bus_wf (m_pci m, m_devices m) \<and> ph_devices (m_pci m) ! 0 = Some 0"
proof -
  obtain m where m: "initIO (0, 0, 0, 0) small_disk = Inr m" "machine_inv m" "m_hdd m = small_disk"
    "m_devices m = [ata_configured, PCI_APIC_new blank_device]" "ph_devices (m_pci m) = connected_slots"
    using initIO_defined [OF small_disk_fields(1), of "(0, 0, 0, 0)"] by blast
  have "bus_wf (m_pci m, m_devices m)"
    using m(1,2) by (auto simp: bus_wf_def machine_inv_def initIO_def pci_host_new_machine)
  moreover have "connected_slots ! 0 = Some 0" by (simp add: connected_slots_def)
  ultimately show ?thesis using m by (simp add: machine_ok_def)
qed

lemma ata_configured_bars: "getBar 0 ata_configured = 0x01F0" "getBar 1 ata_configured = 0x03F6"
  using ata_configured_fields by (simp_all add: getBar_def)

lemma data_port_route:
  assumes "m_devices m ! 0 = ata_configured" "io_size x = 2" "io_count x = 1" "io_port x = 0x01F0"
  shows "route x m = DiskWord" "ata_translate (m_devices m ! 0) (io_port x) = BR_addr"
  using assms
  by (simp_all add: route_def kb_port_def com_port_def pci_port_def ata_configured_bars
      ata_translate_def Let_def)

end
