(* ===== verification/GuestMemory.thy ===== *)
theory GuestMemory
  imports Prelude
begin

text \<open>
  The guest memory, \<open>guest_physical_memory\<close> of \<open>kvm.cpp\<close>: the bytes of the allocated block. The
  boot loader writes 64-bit table entries into it and reads them back, the loader copies
  segments into it, the debugger reads and writes it byte by byte. An access outside the block
  is a fault.
\<close>

type_synonym guest_mem = "u8 list"

definition get64 :: "nat \<Rightarrow> guest_mem \<Rightarrow> u64" where
  "get64 a m = of_nat (le_val (get_bytes a 8 m))"

definition put64 :: "nat \<Rightarrow> u64 \<Rightarrow> guest_mem \<Rightarrow> guest_mem res" where
  "put64 a v m = (if a + 8 \<le> length m then Inr (put_bytes a (le_bytes 8 (unat v)) m) else Inl OutOfBounds)"

lemma get_put64_same:
  assumes "put64 a v m = Inr m'"
  shows "get64 a m' = v" and "length m' = length m"
proof -
  have a: "a + 8 \<le> length m" and m': "m' = put_bytes a (le_bytes 8 (unat v)) m"
    using assms by (simp_all add: put64_def split: if_splits)
  have "get_bytes a 8 m' = le_bytes 8 (unat v)"
    using get_put_same [of a "le_bytes 8 (unat v)" m] a by (simp add: m')
  then show "get64 a m' = v"
    using unsigned_less [where w = v and 'a = nat] by (simp add: get64_def le_val_le_bytes)
  show "length m' = length m" using a by (simp add: m' length_put_bytes)
qed

lemma get_put64_other:
  assumes "put64 a v m = Inr m'" "b + n \<le> a \<or> a + 8 \<le> b" "b + n \<le> length m"
  shows "get_bytes b n m' = get_bytes b n m"
proof -
  have "a + 8 \<le> length m" "m' = put_bytes a (le_bytes 8 (unat v)) m"
    using assms(1) by (simp_all add: put64_def split: if_splits)
  then show ?thesis
    using get_put_disjoint [of a "le_bytes 8 (unat v)" m b n] assms(2,3) by simp
qed

lemma get64_bytes: "a + 8 \<le> length m \<Longrightarrow> get_bytes a 8 m = le_bytes 8 (unat (get64 a m))"
proof -
  assume a: "a + 8 \<le> length m"
  have l: "length (get_bytes a 8 m) = 8" using a by (rule length_get_bytes)
  have "le_val (get_bytes a 8 m) < 2 ^ 64" using le_val_less [of "get_bytes a 8 m"] l by simp
  then have "unat (get64 a m) = le_val (get_bytes a 8 m)" by (simp add: get64_def unat_of_nat_word)
  then show ?thesis using le_bytes_le_val [of "get_bytes a 8 m"] l by simp
qed

section \<open>Tables of 64-bit entries\<close>

text \<open>
  The interface the boot loader relies on: a memory of numbered 64-bit slots. The client's
  lemmas are about updating one slot and about a loop that rewrites a run of slots, each from
  its own old value.
\<close>

locale slot_memory =
  fixes get :: "nat \<Rightarrow> 'm \<Rightarrow> u64"
    and put :: "nat \<Rightarrow> u64 \<Rightarrow> 'm \<Rightarrow> 'm res"
    and slots :: "'m \<Rightarrow> nat"
  assumes put_in: "j < slots m \<Longrightarrow> \<exists>m'. put j v m = Inr m' \<and> slots m' = slots m \<and>
      (\<forall>i < slots m. get i m' = (if i = j then v else get i m))"
    and put_out: "\<not> j < slots m \<Longrightarrow> put j v m = Inl OutOfBounds"
begin

definition fill :: "nat \<Rightarrow> (nat \<Rightarrow> u64 \<Rightarrow> u64) \<Rightarrow> nat \<Rightarrow> 'm \<Rightarrow> 'm res" where
  "fill b f k m = fold (\<lambda>i r. bind_res r (\<lambda>m. put (b + i) (f i (get (b + i) m)) m)) [0..<k] (Inr m)"

lemma fill_slots:
  assumes "b + k \<le> slots m"
  shows "\<exists>m'. fill b f k m = Inr m' \<and> slots m' = slots m \<and>
    (\<forall>i < slots m. get i m' = (if b \<le> i \<and> i < b + k then f (i - b) (get i m) else get i m))"
  using assms
proof (induction k)
  case 0
  then show ?case by (auto simp: fill_def)
next
  case (Suc k)
  then obtain m1 where m1: "fill b f k m = Inr m1" "slots m1 = slots m"
    "\<forall>i < slots m. get i m1 = (if b \<le> i \<and> i < b + k then f (i - b) (get i m) else get i m)"
    by auto
  obtain m2 where m2: "put (b + k) (f k (get (b + k) m1)) m1 = Inr m2" "slots m2 = slots m1"
    "\<forall>i < slots m1. get i m2 = (if i = b + k then f k (get (b + k) m1) else get i m1)"
    using put_in [of "b + k" m1] m1(2) Suc.prems by auto
  have "fill b f (Suc k) m = Inr m2" using m1(1) m2(1) by (simp add: fill_def)
  moreover have "get i m2 = (if b \<le> i \<and> i < b + Suc k then f (i - b) (get i m) else get i m)"
    if "i < slots m" for i
    using m1(2,3) m2(3) that by (cases "i = b + k") auto
  ultimately show ?case using m1(2) m2(2) by auto
qed

end

interpretation gm: slot_memory "\<lambda>j. get64 (8 * j)" "\<lambda>j. put64 (8 * j)" "\<lambda>m. length m div 8"
proof unfold_locales
  fix j v and m :: guest_mem
  assume j: "j < length m div 8"
  then have "8 * j + 8 \<le> length m" by linarith
  then obtain m' where m': "put64 (8 * j) v m = Inr m'" by (simp add: put64_def)
  have "get64 (8 * i) m' = (if i = j then v else get64 (8 * i) m)" if "i < length m div 8" for i
  proof (cases "i = j")
    case False
    then have "8 * i + 8 \<le> 8 * j \<or> 8 * j + 8 \<le> 8 * i" by linarith
    moreover have "8 * i + 8 \<le> length m" using that by linarith
    ultimately show ?thesis using get_put64_other [OF m'] False by (simp add: get64_def)
  qed (use get_put64_same [OF m'] in simp)
  then show "\<exists>m'. put64 (8 * j) v m = Inr m' \<and> length m' div 8 = length m div 8 \<and>
      (\<forall>i<length m div 8. get64 (8 * i) m' = (if i = j then v else get64 (8 * i) m))"
    using m' get_put64_same(2) [OF m'] by auto
next
  fix j v and m :: guest_mem
  assume "\<not> j < length m div 8"
  then have "length m < 8 * j + 8" by linarith
  then show "put64 (8 * j) v m = Inl OutOfBounds" by (simp add: put64_def)
qed

lemma gm_fill_length: "gm.fill b f k m = Inr m' \<Longrightarrow> length m' = length m"
proof (induction k arbitrary: m')
  case (Suc k)
  then show ?case
    by (auto simp: gm.fill_def bind_res_def dest: get_put64_same(2) split: sum.splits)
qed (simp add: gm.fill_def)

end
