(* ===== verification/Bootloader.thy ===== *)
theory Bootloader
  imports GuestMemory
begin

text \<open>
  The boot loader, \<open>bootloader/Bootloader.h\<close> and \<open>bootloader/Bootloader.cpp\<close>: the segment
  descriptors and the page tables it writes into the guest memory and the processor state it
  prepares. The \<open>ioctl\<close> calls that fetch and install the registers are the environment: the
  fetched registers are an argument, the installed ones the result.
\<close>

section \<open>Processor state\<close>

record kvm_segment =
  seg_base :: u64
  seg_limit :: u32
  seg_selector :: u16
  seg_type :: u8
  seg_present :: u8
  seg_dpl :: u8
  seg_db :: u8
  seg_s :: u8
  seg_l :: u8
  seg_g :: u8
  seg_avl :: u8

record kvm_sregs =
  sr_cs :: kvm_segment
  sr_ds :: kvm_segment
  sr_es :: kvm_segment
  sr_fs :: kvm_segment
  sr_gs :: kvm_segment
  sr_ss :: kvm_segment
  sr_gdt_base :: u64
  sr_gdt_limit :: u16
  sr_cr0 :: u64
  sr_cr3 :: u64
  sr_cr4 :: u64
  sr_efer :: u64

text \<open>The registers the boot loader sets; all the others are cleared.\<close>

record kvm_regs =
  rg_rflags :: u64
  rg_rip :: u64
  rg_rsp :: u64
  rg_rdi :: u64

text \<open>The members of the class besides the memory, which is passed as state.\<close>

record bootloader =
  bl_guest_mem_size :: u64
  bl_entry_point :: u64
  bl_start_stack :: u64

definition Bootloader_new :: "u64 \<Rightarrow> u64 \<Rightarrow> u64 \<Rightarrow> bootloader" where
  "Bootloader_new guest_mem_size entry_point start_stack =
     \<lparr>bl_guest_mem_size = guest_mem_size, bl_entry_point = entry_point, bl_start_stack = start_stack\<rparr>"

section \<open>Segment descriptors\<close>

definition segment_limit :: "kvm_segment \<Rightarrow> u32" where
  "segment_limit seg = (if seg_g seg \<noteq> 0 then drop_bit 12 (seg_limit seg) else seg_limit seg)"

definition segment_descriptor :: "kvm_segment \<Rightarrow> u64" where
  "segment_descriptor seg =
     (let limit = segment_limit seg
      in ucast (limit AND 0xffff)
         OR push_bit 16 (seg_base seg AND 0xffffff)
         OR push_bit 40 (ucast (seg_type seg))
         OR push_bit 44 (ucast (seg_s seg))
         OR push_bit 45 (ucast (seg_dpl seg))
         OR push_bit 47 (ucast (seg_present seg))
         OR push_bit 48 (drop_bit 16 (ucast limit AND 0xf0000))
         OR push_bit 52 (ucast (seg_avl seg))
         OR push_bit 53 (ucast (seg_l seg))
         OR push_bit 54 (ucast (seg_db seg))
         OR push_bit 55 (ucast (seg_g seg))
         OR push_bit 56 (seg_base seg AND 0xff000000))"

text \<open>\<open>dt\<close> is the byte offset of the table in the guest memory.\<close>

definition fill_segment_descriptor :: "nat \<Rightarrow> kvm_segment \<Rightarrow> guest_mem \<Rightarrow> guest_mem res" where
  "fill_segment_descriptor dt seg m =
     put64 (dt + 8 * unat (drop_bit 3 (seg_selector seg))) (segment_descriptor seg) m"

abbreviation CR0_PE :: u64 where "CR0_PE \<equiv> 1"
abbreviation CR0_ET :: u64 where "CR0_ET \<equiv> 0x10"

definition flat_segment :: kvm_segment where
  "flat_segment = \<lparr>seg_base = 0, seg_limit = 0xffffffff, seg_selector = 0, seg_type = 0,
     seg_present = 1, seg_dpl = 0, seg_db = 1, seg_s = 1, seg_l = 0, seg_g = 1, seg_avl = 0\<rparr>"

definition code_segment :: kvm_segment where
  "code_segment = flat_segment\<lparr>seg_type := 10, seg_selector := push_bit 3 1\<rparr>"

definition data_segment :: kvm_segment where
  "data_segment = code_segment\<lparr>seg_type := 3, seg_selector := push_bit 3 2, seg_limit := 0xffffffff\<rparr>"

definition setup_protected_mode :: "kvm_sregs \<Rightarrow> guest_mem \<Rightarrow> (kvm_sregs \<times> guest_mem) res" where
  "setup_protected_mode sregs m =
     (let s1 = sregs\<lparr>sr_cr0 := CR0_ET OR CR0_PE, sr_gdt_base := 0x10000, sr_gdt_limit := 3 * 8 - 1\<rparr>;
          gdt = unat (sr_gdt_base s1)
      in bind_res (fill_segment_descriptor gdt code_segment m) (\<lambda>m1.
         bind_res (fill_segment_descriptor gdt data_segment m1) (\<lambda>m2.
           Inr (s1\<lparr>sr_cs := code_segment, sr_ds := data_segment, sr_es := data_segment,
                   sr_fs := data_segment, sr_gs := data_segment, sr_ss := data_segment\<rparr>, m2))))"

section \<open>Page tables\<close>

text \<open>Present, writable and user, without and with the bit that marks a 2 MiB page.\<close>

abbreviation PDE64_PRESENT :: u64 where "PDE64_PRESENT \<equiv> 1"
abbreviation PDE64_RW :: u64 where "PDE64_RW \<equiv> 2"
abbreviation PDE64_USER :: u64 where "PDE64_USER \<equiv> 4"
abbreviation PDE64_PS :: u64 where "PDE64_PS \<equiv> 0x80"

definition table_entry :: "u64 \<Rightarrow> u64" where
  "table_entry a = PDE64_PRESENT OR PDE64_RW OR PDE64_USER OR a"

definition page_entry :: "u64 \<Rightarrow> u64" where
  "page_entry a = PDE64_PRESENT OR PDE64_RW OR PDE64_USER OR PDE64_PS OR a"

text \<open>One entry of a level 2 table: in the last table only the first \<open>n\<close> entries are mapped, the
  others keep their old contents with the present bit cleared.\<close>

definition pd_entry :: "nat \<Rightarrow> nat \<Rightarrow> nat \<Rightarrow> nat \<Rightarrow> u64 \<Rightarrow> u64" where
  "pd_entry lst n i3 i2 old =
     (if i3 \<noteq> lst \<or> i2 < n
      then page_entry (push_bit 30 (of_nat i3) + push_bit 21 (of_nat i2))
      else old AND NOT PDE64_PRESENT)"

definition fill_pd :: "nat \<Rightarrow> nat \<Rightarrow> nat \<Rightarrow> nat \<Rightarrow> guest_mem \<Rightarrow> guest_mem res" where
  "fill_pd lst n i3 pd m =
     fold (\<lambda>i2 r. bind_res r (\<lambda>m. put64 (pd + 8 * i2) (pd_entry lst n i3 i2 (get64 (pd + 8 * i2) m)) m))
       [0..<512] (Inr m)"

definition fill_lev3 :: "nat \<Rightarrow> nat \<Rightarrow> nat \<Rightarrow> nat \<Rightarrow> guest_mem \<Rightarrow> guest_mem res" where
  "fill_lev3 lst n pdpt i3 m =
     (let pd_addr = 0x40000 + 0x10000 * i3
      in bind_res (put64 (pdpt + 8 * i3) (table_entry (of_nat pd_addr)) m) (fill_pd lst n i3 pd_addr))"

text \<open>
  The outer loop runs over the GiB of the memory, the last one included even when it is empty;
  \<open>pd_addr\<close> advances by 0x10000 in every iteration and after the loop names the table for the
  interrupt controllers.
\<close>

definition setup_page_tables :: "bootloader \<Rightarrow> kvm_sregs \<Rightarrow> guest_mem \<Rightarrow> (kvm_sregs \<times> guest_mem) res" where
  "setup_page_tables bl sregs m =
     (let pml4_addr = 0x20000; pdpt_addr = 0x30000;
          lst = unat (ucast (bl_guest_mem_size bl div 2 ^ 30) :: u32);
          n = unat (ucast ((bl_guest_mem_size bl mod 2 ^ 30) div 2 ^ 21) :: u32);
          apic = 0x40000 + 0x10000 * (lst + 1)
      in bind_res (put64 pml4_addr (table_entry (of_nat pdpt_addr)) m) (\<lambda>m1.
         bind_res (fold (\<lambda>i3 r. bind_res r (fill_lev3 lst n pdpt_addr i3)) [0..<lst + 1] (Inr m1)) (\<lambda>m2.
         bind_res (put64 (pdpt_addr + 8 * 3) (table_entry (of_nat apic)) m2) (\<lambda>m3.
         bind_res (put64 (apic + 8 * 502) (page_entry 0xfec00000) m3) (\<lambda>m4.
         bind_res (put64 (pdpt_addr + 8 * 3) (table_entry (of_nat apic)) m4) (\<lambda>m5.
         bind_res (put64 (apic + 8 * 503) (page_entry 0xfee00000) m5) (\<lambda>m6.
           Inr (sregs\<lparr>sr_cr3 := of_nat pml4_addr\<rparr>, m6))))))))"

section \<open>Booting\<close>

text \<open>\<open>run_protected_mode\<close>: the registers it installs.\<close>

definition run_protected_mode ::
  "bootloader \<Rightarrow> kvm_sregs \<Rightarrow> guest_mem \<Rightarrow> (kvm_sregs \<times> kvm_regs \<times> guest_mem) res" where
  "run_protected_mode bl sregs m =
     bind_res (setup_protected_mode sregs m) (\<lambda>(s, m1).
       Inr (s, \<lparr>rg_rflags = 2, rg_rip = bl_entry_point bl, rg_rsp = bl_start_stack bl, rg_rdi = 0\<rparr>, m1))"

section \<open>Contents of the tables\<close>

lemma fill_pd_slots:
  assumes "b + 512 \<le> length m div 8"
  shows "\<exists>m'. fill_pd lst n i3 (8 * b) m = Inr m' \<and> length m' div 8 = length m div 8 \<and>
    (\<forall>i<length m div 8. get64 (8 * i) m' =
       (if b \<le> i \<and> i < b + 512 then pd_entry lst n i3 (i - b) (get64 (8 * i) m) else get64 (8 * i) m))"
proof -
  have "fill_pd lst n i3 (8 * b) m = gm.fill b (pd_entry lst n i3) 512 m"
    by (simp add: fill_pd_def gm.fill_def distrib_left)
  then show ?thesis using gm.fill_slots [OF assms] by simp
qed

text \<open>The memory after the first \<open>k\<close> iterations of the outer loop: the level 3 table starts at slot
  0x6000, the level 2 tables are 0x2000 slots apart from slot 0x8000 on.\<close>

definition in_table :: "nat \<Rightarrow> nat \<Rightarrow> bool" where
  "in_table i3 j \<longleftrightarrow> 0x8000 + 0x2000 * i3 \<le> j \<and> j < 0x8000 + 0x2000 * i3 + 512"

definition lev3_done :: "nat \<Rightarrow> nat \<Rightarrow> nat \<Rightarrow> guest_mem \<Rightarrow> guest_mem \<Rightarrow> bool" where
  "lev3_done lst n k m m' \<longleftrightarrow>
     (\<forall>i3<k. get64 (8 * (0x6000 + i3)) m' = table_entry (of_nat (0x40000 + 0x10000 * i3))) \<and>
     (\<forall>i3<k. \<forall>j. in_table i3 j \<longrightarrow>
        get64 (8 * j) m' = pd_entry lst n i3 (j - (0x8000 + 0x2000 * i3)) (get64 (8 * j) m)) \<and>
     (\<forall>j<length m div 8. (j < 0x6000 \<or> 0x6000 + k \<le> j) \<and> (\<forall>i3<k. \<not> in_table i3 j) \<longrightarrow>
        get64 (8 * j) m' = get64 (8 * j) m)"

lemma in_table_unique: "in_table i j \<Longrightarrow> in_table i' j \<Longrightarrow> i = i'"
  by (simp add: in_table_def)

lemma fill_lev3_slots:
  assumes "0x8000 + 0x2000 * i3 + 512 \<le> length m div 8" "i3 < 512"
  shows "\<exists>m'. fill_lev3 lst n 0x30000 i3 m = Inr m' \<and> length m' div 8 = length m div 8 \<and>
    (\<forall>j<length m div 8. get64 (8 * j) m' =
       (if j = 0x6000 + i3 then table_entry (of_nat (0x40000 + 0x10000 * i3))
        else if in_table i3 j then pd_entry lst n i3 (j - (0x8000 + 0x2000 * i3)) (get64 (8 * j) m)
        else get64 (8 * j) m))"
proof -
  let ?e = "table_entry (of_nat (0x40000 + 0x10000 * i3))" and ?b = "0x8000 + 0x2000 * i3"
  obtain m1 where m1: "put64 (8 * (0x6000 + i3)) ?e m = Inr m1" "length m1 div 8 = length m div 8"
    "\<forall>j<length m div 8. get64 (8 * j) m1 = (if j = 0x6000 + i3 then ?e else get64 (8 * j) m)"
    using gm.put_in [of "0x6000 + i3" m ?e] assms by auto
  obtain m2 where m2: "fill_pd lst n i3 (8 * ?b) m1 = Inr m2" "length m2 div 8 = length m1 div 8"
    "\<forall>j<length m1 div 8. get64 (8 * j) m2 = (if ?b \<le> j \<and> j < ?b + 512
       then pd_entry lst n i3 (j - ?b) (get64 (8 * j) m1) else get64 (8 * j) m1)"
    using fill_pd_slots [of ?b m1 lst n i3] assms(1) m1(2) by auto
  have "(0x30000 :: nat) + 8 * i3 = 8 * (0x6000 + i3)" "(0x40000 :: nat) + 0x10000 * i3 = 8 * ?b"
    by simp_all
  then have "fill_lev3 lst n 0x30000 i3 m = Inr m2"
    using m1(1) m2(1) by (simp only: fill_lev3_def Let_def bind_res_simps)
  moreover have "\<not> (?b \<le> 0x6000 + i3 \<and> 0x6000 + i3 < ?b + 512)" using assms(2) by simp
  ultimately show ?thesis
    using m1(2,3) m2(2,3) by (auto simp: in_table_def)
qed

lemma lev3_loop:
  assumes "0x8000 + 0x2000 * k \<le> length m div 8" "k \<le> 512"
  shows "\<exists>m'. fold (\<lambda>i3 r. bind_res r (fill_lev3 lst n 0x30000 i3)) [0..<k] (Inr m) = Inr m' \<and>
    length m' div 8 = length m div 8 \<and> lev3_done lst n k m m'"
  using assms
proof (induction k)
  case 0
  then show ?case by (simp add: lev3_done_def)
next
  case (Suc k)
  then obtain m1 where m1: "fold (\<lambda>i3 r. bind_res r (fill_lev3 lst n 0x30000 i3)) [0..<k] (Inr m) = Inr m1"
    "length m1 div 8 = length m div 8" "lev3_done lst n k m m1" by auto
  obtain m2 where m2: "fill_lev3 lst n 0x30000 k m1 = Inr m2" "length m2 div 8 = length m1 div 8"
    "\<forall>j<length m1 div 8. get64 (8 * j) m2 =
       (if j = 0x6000 + k then table_entry (of_nat (0x40000 + 0x10000 * k))
        else if in_table k j then pd_entry lst n k (j - (0x8000 + 0x2000 * k)) (get64 (8 * j) m1)
        else get64 (8 * j) m1)"
    using fill_lev3_slots [of k m1 lst n] Suc.prems m1(2) by auto
  have old: "get64 (8 * j) m2 = get64 (8 * j) m1"
    if "j < length m div 8" "j \<noteq> 0x6000 + k" "\<not> in_table k j" for j
    using m2(3) m1(2) that by auto
  have lt: "j < length m div 8" if "i < Suc k" "in_table i j" for i j
    using that Suc.prems(1) by (simp add: in_table_def)
  have "lev3_done lst n (Suc k) m m2"
    unfolding lev3_done_def
  proof (intro conjI allI impI)
    fix i assume i: "i < Suc k"
    show "get64 (8 * (0x6000 + i)) m2 = table_entry (of_nat (0x40000 + 0x10000 * i))"
    proof (cases "i = k")
      case True
      have "0x6000 + k < length m1 div 8" using Suc.prems m1(2) by simp
      then show ?thesis using m2(3) [rule_format, of "0x6000 + k"] True by simp
    next
      case False
      then have "get64 (8 * (0x6000 + i)) m2 = get64 (8 * (0x6000 + i)) m1"
        using i Suc.prems by (intro old) (simp_all add: in_table_def)
      then show ?thesis using m1(3) i False by (simp add: lev3_done_def)
    qed
  next
    fix i j assume i: "i < Suc k" and j: "in_table i j"
    have jlt: "j < length m div 8" using lt [OF i j] .
    show "get64 (8 * j) m2 = pd_entry lst n i (j - (0x8000 + 0x2000 * i)) (get64 (8 * j) m)"
    proof (cases "i = k")
      case True
      have "get64 (8 * j) m1 = get64 (8 * j) m"
        using m1(3) jlt j True Suc.prems(2) in_table_unique [of k j]
        by (auto simp: lev3_done_def in_table_def)
      moreover have "j \<noteq> 0x6000 + k" using j True Suc.prems(2) by (simp add: in_table_def)
      ultimately show ?thesis using m2(3) m1(2) jlt j True by simp
    next
      case False
      then have "get64 (8 * j) m2 = get64 (8 * j) m1"
        using j jlt in_table_unique [OF j] Suc.prems(2)
        by (intro old) (auto simp: in_table_def)
      then show ?thesis using m1(3) i j False by (simp add: lev3_done_def)
    qed
  next
    fix j assume "j < length m div 8" "(j < 0x6000 \<or> 0x6000 + Suc k \<le> j) \<and> (\<forall>i3<Suc k. \<not> in_table i3 j)"
    then show "get64 (8 * j) m2 = get64 (8 * j) m"
      using old [of j] m1(3) by (auto simp: lev3_done_def)
  qed
  then show ?case using m1 m2 by auto
qed

section \<open>Address translation\<close>

text \<open>
  The specification: the processor's walk over four levels of tables, for the translations these
  tables define, which end in a 2 MiB page at level 2. Bit 0 of an entry is the present bit and
  bit 7 of a level 2 entry marks a page; table addresses are bits 12 to 51 of an entry, page
  addresses bits 21 to 51.
\<close>

definition table_base :: "u64 \<Rightarrow> nat" where
  "table_base e = unat e div 2 ^ 12 mod 2 ^ 40 * 2 ^ 12"

definition page_base :: "u64 \<Rightarrow> nat" where
  "page_base e = unat e div 2 ^ 21 mod 2 ^ 31 * 2 ^ 21"

definition page_walk :: "guest_mem \<Rightarrow> u64 \<Rightarrow> nat \<Rightarrow> nat option" where
  "page_walk m cr3 va =
     (let e4 = get64 (table_base cr3 + 8 * (va div 2 ^ 39 mod 512)) m;
          e3 = get64 (table_base e4 + 8 * (va div 2 ^ 30 mod 512)) m;
          e2 = get64 (table_base e3 + 8 * (va div 2 ^ 21 mod 512)) m
      in if bit e4 0 \<and> bit e3 0 \<and> bit e2 0 \<and> bit e2 7 then Some (page_base e2 + va mod 2 ^ 21) else None)"

lemma unat_drop_or:
  assumes "drop_bit k (c :: u64) = 0"
  shows "unat (c OR a) div 2 ^ k = unat a div 2 ^ k"
proof -
  have "drop_bit k (c OR a) = drop_bit k a" using assms by (simp add: drop_bit_or)
  then have "unat (drop_bit k (c OR a)) = unat (drop_bit k a)" by simp
  then show ?thesis by (simp only: unat_drop_bit_word)
qed

lemma table_entry_base:
  assumes "q < 2 ^ 40"
  shows "table_base (table_entry (of_nat (q * 2 ^ 12))) = q * 2 ^ 12" "bit (table_entry a) 0"
proof -
  have "table_entry (of_nat (q * 2 ^ 12)) = 7 OR of_nat (q * 2 ^ 12)"
    by (simp add: table_entry_def flip: or.assoc)
  moreover have "unat (of_nat (q * 2 ^ 12) :: u64) = q * 2 ^ 12"
    using assms by (intro unat_of_nat_word) simp
  moreover have "drop_bit 12 (7 :: u64) = 0" by simp
  ultimately show "table_base (table_entry (of_nat (q * 2 ^ 12))) = q * 2 ^ 12"
    using unat_drop_or [of 12 7 "of_nat (q * 2 ^ 12)"] assms by (simp add: table_base_def)
  show "bit (table_entry a) 0" by (simp add: table_entry_def bit_or_iff)
qed

lemma page_entry_base:
  assumes "q < 2 ^ 31"
  shows "page_base (page_entry (of_nat (q * 2 ^ 21))) = q * 2 ^ 21"
    "bit (page_entry a) 0" "bit (page_entry a) 7"
proof -
  have "page_entry (of_nat (q * 2 ^ 21)) = 0x87 OR of_nat (q * 2 ^ 21)"
    by (simp add: page_entry_def flip: or.assoc)
  moreover have "unat (of_nat (q * 2 ^ 21) :: u64) = q * 2 ^ 21"
    using assms by (intro unat_of_nat_word) simp
  moreover have "drop_bit 21 (0x87 :: u64) = 0" by simp
  ultimately show "page_base (page_entry (of_nat (q * 2 ^ 21))) = q * 2 ^ 21"
    using unat_drop_or [of 21 "0x87" "of_nat (q * 2 ^ 21)"] assms by (simp add: page_base_def)
  show "bit (page_entry a) 0" "bit (page_entry a) 7"
    by (simp_all add: page_entry_def bit_or_iff)
qed

text \<open>A level 2 entry maps its own address or is not present.\<close>

lemma pd_entry_cases:
  assumes "i3 < 512" "i2 < 512"
  shows "i3 \<noteq> lst \<or> i2 < n \<Longrightarrow> page_base (pd_entry lst n i3 i2 old) = i3 * 2 ^ 30 + i2 * 2 ^ 21 \<and>
      bit (pd_entry lst n i3 i2 old) 0 \<and> bit (pd_entry lst n i3 i2 old) 7"
    and "\<not> (i3 \<noteq> lst \<or> i2 < n) \<Longrightarrow> \<not> bit (pd_entry lst n i3 i2 old) 0"
proof -
  have "push_bit 30 (of_nat i3) + push_bit 21 (of_nat i2) = (of_nat ((512 * i3 + i2) * 2 ^ 21) :: u64)"
    by (simp add: push_bit_eq_mult algebra_simps)
  moreover have "512 * i3 + i2 < 2 ^ 31" using assms by simp
  ultimately show "i3 \<noteq> lst \<or> i2 < n \<Longrightarrow> page_base (pd_entry lst n i3 i2 old) = i3 * 2 ^ 30 + i2 * 2 ^ 21 \<and>
      bit (pd_entry lst n i3 i2 old) 0 \<and> bit (pd_entry lst n i3 i2 old) 7"
    using page_entry_base [of "512 * i3 + i2"] by (simp add: pd_entry_def)
  show "\<not> (i3 \<noteq> lst \<or> i2 < n) \<Longrightarrow> \<not> bit (pd_entry lst n i3 i2 old) 0"
    by (simp add: pd_entry_def bit_and_iff bit_not_iff)
qed

section \<open>The finished tables\<close>

definition tables_for :: "nat \<Rightarrow> nat \<Rightarrow> guest_mem \<Rightarrow> guest_mem \<Rightarrow> bool" where
  "tables_for lst n m m' \<longleftrightarrow>
     get64 (8 * 0x4000) m' = table_entry 0x30000 \<and>
     (\<forall>i3\<le>lst. get64 (8 * (0x6000 + i3)) m' = table_entry (of_nat (0x40000 + 0x10000 * i3))) \<and>
     (\<forall>i3\<le>lst. \<forall>j. in_table i3 j \<longrightarrow>
        get64 (8 * j) m' = pd_entry lst n i3 (j - (0x8000 + 0x2000 * i3)) (get64 (8 * j) m)) \<and>
     get64 (8 * 0x6003) m' = table_entry (of_nat (0x40000 + 0x10000 * (lst + 1))) \<and>
     get64 (8 * (0x8000 + 0x2000 * (lst + 1) + 502)) m' = page_entry 0xfec00000 \<and>
     get64 (8 * (0x8000 + 0x2000 * (lst + 1) + 503)) m' = page_entry 0xfee00000 \<and>
     (\<forall>j<length m div 8. j \<noteq> 0x4000 \<and> (j < 0x6000 \<or> 0x6003 < j) \<and> (\<forall>i3\<le>lst + 1. \<not> in_table i3 j) \<longrightarrow>
        get64 (8 * j) m' = get64 (8 * j) m)"

lemma put_slot:
  assumes "a = 8 * j" "j < length m div 8"
  shows "\<exists>m'. put64 a v m = Inr m' \<and> length m' div 8 = length m div 8 \<and>
    (\<forall>i<length m div 8. get64 (8 * i) m' = (if i = j then v else get64 (8 * i) m))"
  using gm.put_in [of j m v] assms by simp

lemma setup_page_tables_slots:
  assumes "unat (ucast (bl_guest_mem_size bl div 2 ^ 30) :: u32) = lst"
    "unat (ucast ((bl_guest_mem_size bl mod 2 ^ 30) div 2 ^ 21) :: u32) = n"
    "lst \<le> 2" "0x80000 \<le> length m"
  shows "\<exists>m'. setup_page_tables bl sregs m = Inr (sregs\<lparr>sr_cr3 := 0x20000\<rparr>, m') \<and>
    length m' div 8 = length m div 8 \<and> tables_for lst n m m'"
proof -
  let ?N = "length m div 8" and ?A = "0x8000 + 0x2000 * (lst + 1)"
  let ?apic = "0x40000 + 0x10000 * (lst + 1)"
  let ?te = "table_entry (of_nat ?apic)"
  have N0: "0x10000 \<le> ?N" using assms(4) by linarith
  then have N: "0x10000 \<le> ?N" "?A + 503 < ?N" using assms(3) by simp_all
  obtain m1 where m1: "put64 0x20000 (table_entry (of_nat 0x30000)) m = Inr m1" "length m1 div 8 = ?N"
    "\<forall>i<?N. get64 (8 * i) m1 = (if i = 0x4000 then table_entry (of_nat 0x30000) else get64 (8 * i) m)"
    using put_slot [of "0x20000" "0x4000" m "table_entry (of_nat 0x30000)"] N by auto
  obtain m2 where m2: "fold (\<lambda>i3 r. bind_res r (fill_lev3 lst n 0x30000 i3)) [0..<lst + 1] (Inr m1) = Inr m2"
    "length m2 div 8 = ?N" "lev3_done lst n (lst + 1) m1 m2"
    using lev3_loop [of "lst + 1" m1 lst n] N assms(3) m1(2) by auto
  obtain m3 where m3: "put64 (0x30000 + 8 * 3) ?te m2 = Inr m3" "length m3 div 8 = ?N"
    "\<forall>i<?N. get64 (8 * i) m3 = (if i = 0x6003 then ?te else get64 (8 * i) m2)"
    using put_slot [of "0x30000 + 8 * 3" "0x6003" m2 ?te] N m2(2) by auto
  obtain m4 where m4: "put64 (?apic + 8 * 502) (page_entry 0xfec00000) m3 = Inr m4" "length m4 div 8 = ?N"
    "\<forall>i<?N. get64 (8 * i) m4 = (if i = ?A + 502 then page_entry 0xfec00000 else get64 (8 * i) m3)"
    using put_slot [of "?apic + 8 * 502" "?A + 502" m3 "page_entry 0xfec00000"] N m3(2) by auto
  obtain m5 where m5: "put64 (0x30000 + 8 * 3) ?te m4 = Inr m5" "length m5 div 8 = ?N"
    "\<forall>i<?N. get64 (8 * i) m5 = (if i = 0x6003 then ?te else get64 (8 * i) m4)"
    using put_slot [of "0x30000 + 8 * 3" "0x6003" m4 ?te] N m4(2) by auto
  obtain m6 where m6: "put64 (?apic + 8 * 503) (page_entry 0xfee00000) m5 = Inr m6" "length m6 div 8 = ?N"
    "\<forall>i<?N. get64 (8 * i) m6 = (if i = ?A + 503 then page_entry 0xfee00000 else get64 (8 * i) m5)"
    using put_slot [of "?apic + 8 * 503" "?A + 503" m5 "page_entry 0xfee00000"] N m5(2) by auto
  have run: "setup_page_tables bl sregs m = Inr (sregs\<lparr>sr_cr3 := of_nat 0x20000\<rparr>, m6)"
    using m1(1) m2(1) m3(1) m4(1) m5(1) m6(1)
    by (simp only: setup_page_tables_def Let_def assms(1,2) bind_res_simps)
  have slot: "get64 (8 * i) m6 = (if i = ?A + 503 then page_entry 0xfee00000
      else if i = 0x6003 then ?te else if i = ?A + 502 then page_entry 0xfec00000
      else get64 (8 * i) m2)" if "i < ?N" for i
    using m3(3) m4(3) m5(3) m6(3) that by simp
  have tab: "j < ?N" "j \<noteq> ?A + 502" "j \<noteq> ?A + 503" "j \<noteq> 0x6003" "j \<noteq> 0x4000"
    if "i3 \<le> lst" "in_table i3 j" for i3 j
    using that N0 assms(3) by (auto simp: in_table_def)
  note lev3 = m2(3) [unfolded lev3_done_def]
  have "tables_for lst n m m6"
    unfolding tables_for_def
  proof (intro conjI allI impI)
    have "get64 (8 * 0x4000) m2 = get64 (8 * 0x4000) m1"
      using lev3 [THEN conjunct2, THEN conjunct2, rule_format, of "0x4000"] N0 m1(2)
      by (simp add: in_table_def)
    then show "get64 (8 * 0x4000) m6 = table_entry 0x30000"
      using slot [of "0x4000"] m1(3) [rule_format, of "0x4000"] N0 by simp
  next
    fix i3 assume i3: "i3 \<le> lst"
    then have "get64 (8 * (0x6000 + i3)) m2 = table_entry (of_nat (0x40000 + 0x10000 * i3))"
      using lev3 [THEN conjunct1, rule_format, of i3] by simp
    then show "get64 (8 * (0x6000 + i3)) m6 = table_entry (of_nat (0x40000 + 0x10000 * i3))"
      using slot [of "0x6000 + i3"] i3 assms(3) N0 by simp
  next
    fix i3 j assume i3: "i3 \<le> lst" "in_table i3 j"
    then have "get64 (8 * j) m2 = pd_entry lst n i3 (j - (0x8000 + 0x2000 * i3)) (get64 (8 * j) m1)"
      using lev3 [THEN conjunct2, THEN conjunct1, rule_format, of i3 j] by simp
    then show "get64 (8 * j) m6 = pd_entry lst n i3 (j - (0x8000 + 0x2000 * i3)) (get64 (8 * j) m)"
      using slot [of j] m1(3) [rule_format, of j] tab [OF i3] by simp
  next
    show "get64 (8 * 0x6003) m6 = ?te" using slot [of "0x6003"] N0 by simp
    show "get64 (8 * (?A + 502)) m6 = page_entry 0xfec00000" using slot [of "?A + 502"] N by simp
    show "get64 (8 * (?A + 503)) m6 = page_entry 0xfee00000" using slot [of "?A + 503"] N by simp
  next
    fix j
    assume j: "j < ?N" "j \<noteq> 0x4000 \<and> (j < 0x6000 \<or> 0x6003 < j) \<and> (\<forall>i3\<le>lst + 1. \<not> in_table i3 j)"
    then have "get64 (8 * j) m2 = get64 (8 * j) m1"
      using lev3 [THEN conjunct2, THEN conjunct2, rule_format, of j] m1(2) assms(3) by auto
    moreover have "\<not> in_table (lst + 1) j" using j(2) by blast
    then have "j \<noteq> ?A + 502" "j \<noteq> ?A + 503" by (auto simp: in_table_def)
    ultimately show "get64 (8 * j) m6 = get64 (8 * j) m"
      using slot [of j] m1(3) [rule_format, of j] j by auto
  qed
  then show ?thesis using run m6(2) by auto
qed

lemma walk_slots:
  assumes "tables_for lst n m m'" "va div 2 ^ 39 = 0"
    "get64 (8 * (0x6000 + va div 2 ^ 30 mod 512)) m' = table_entry (of_nat (0x40000 + 0x10000 * t))" "t < 512"
  shows "page_walk m' 0x20000 va =
    (let e2 = get64 (8 * (0x8000 + 0x2000 * t + va div 2 ^ 21 mod 512)) m'
     in if bit e2 0 \<and> bit e2 7 then Some (page_base e2 + va mod 2 ^ 21) else None)"
proof -
  have e4: "get64 0x20000 m' = table_entry (of_nat (0x30 * 2 ^ 12))"
    using assms(1) by (simp add: tables_for_def)
  have t4: "table_base (get64 0x20000 m') = 0x30000" "bit (get64 0x20000 m') 0"
    unfolding e4 using table_entry_base(1) [of "0x30"] table_entry_base(2) [of 0] by simp_all
  have "0x40000 + 0x10000 * t = (0x40 + 0x10 * t) * 2 ^ 12" by simp
  then have e3: "get64 (8 * (0x6000 + va div 2 ^ 30 mod 512)) m' = table_entry (of_nat ((0x40 + 0x10 * t) * 2 ^ 12))"
    using assms(3) by (simp only:)
  have t3: "table_base (get64 (8 * (0x6000 + va div 2 ^ 30 mod 512)) m') = 0x40000 + 0x10000 * t"
    "bit (get64 (8 * (0x6000 + va div 2 ^ 30 mod 512)) m') 0"
    unfolding e3 using table_entry_base(1) [of "0x40 + 0x10 * t"] table_entry_base(2) [of 0] assms(4)
    by simp_all
  have cr3: "table_base 0x20000 = 0x20000" by (simp add: table_base_def)
  have i4: "va div 2 ^ 39 mod 512 = 0" using assms(2) by simp
  have a3: "0x30000 + 8 * (va div 2 ^ 30 mod 512) = 8 * (0x6000 + va div 2 ^ 30 mod 512)" by simp
  have a2: "0x40000 + 0x10000 * t + 8 * (va div 2 ^ 21 mod 512) =
      8 * (0x8000 + 0x2000 * t + va div 2 ^ 21 mod 512)" by simp
  show ?thesis
    unfolding page_walk_def Let_def cr3 i4 mult_0_right add_0_right t4(1) a3 t3(1) a2
    using t4(2) t3(2) by simp
qed

lemma div_known: "(va :: nat) div d = k \<Longrightarrow> k * d + va mod d = va"
  by (metis div_mult_mod_eq)

lemma digit_less:
  assumes "p div 512 \<le> q div 512"
  shows "(p div 512 \<noteq> q div 512 \<or> p mod 512 < q mod 512) = (p < (q :: nat))"
proof (cases "p div 512 = q div 512")
  case True
  then show ?thesis using div_mult_mod_eq [of p 512] div_mult_mod_eq [of q 512] by linarith
next
  case False
  then have "p < q" using assms by (metis div_le_mono leI le_antisym)
  then show ?thesis using False by simp
qed

lemma va_split: "(va :: nat) = va div 2 ^ 30 * 2 ^ 30 + va div 2 ^ 21 mod 512 * 2 ^ 21 + va mod 2 ^ 21"
proof -
  define p q where "p = va div 2 ^ 21" and "q = p div 512"
  have "va div 2 ^ 30 = q" by (simp add: p_def q_def div_mult2_eq [symmetric])
  moreover have "p * 2 ^ 21 + va mod 2 ^ 21 = va" "q * 512 + p mod 512 = p"
    unfolding p_def q_def by (rule div_mult_mod_eq)+
  ultimately show ?thesis unfolding p_def [symmetric] by (simp only:) simp
qed

lemma walk_memory:
  assumes "tables_for lst n m m'" "lst \<le> 2" "va < (lst + 1) * 2 ^ 30"
  shows "page_walk m' 0x20000 va =
    (if va div 2 ^ 30 \<noteq> lst \<or> va div 2 ^ 21 mod 512 < n then Some va else None)"
proof -
  let ?t = "va div 2 ^ 30" and ?i = "va div 2 ^ 21 mod 512"
  have t: "?t \<le> lst" using assms(3) by (simp add: less_mult_imp_div_less less_Suc_eq_le [symmetric])
  have small: "va div 2 ^ 39 = 0" "?t mod 512 = ?t" using assms(2,3) t by simp_all
  have e3: "get64 (8 * (0x6000 + ?t mod 512)) m' = table_entry (of_nat (0x40000 + 0x10000 * ?t))"
    using assms(1) t small(2) by (simp add: tables_for_def)
  have "in_table ?t (0x8000 + 0x2000 * ?t + ?i)" by (simp add: in_table_def)
  then have e2: "\<exists>old. get64 (8 * (0x8000 + 0x2000 * ?t + ?i)) m' = pd_entry lst n ?t ?i old"
    using assms(1) t unfolding tables_for_def by (metis diff_add_inverse)
  have "?t < 512" using t assms(2) by simp
  note walk = walk_slots [OF assms(1) small(1) e3 this]
  show ?thesis
  proof (cases "?t \<noteq> lst \<or> ?i < n")
    case True
    then show ?thesis
      using walk e2 pd_entry_cases(1) [of ?t ?i lst n] \<open>?t < 512\<close> va_split [of va]
      by (auto simp: Let_def)
  next
    case False
    then show ?thesis
      using walk e2 pd_entry_cases(2) [of ?t ?i lst n] \<open>?t < 512\<close> by (auto simp: Let_def)
  qed
qed

lemma walk_apic:
  assumes "tables_for lst n m m'" "lst \<le> 2" "0xfec00000 \<le> va" "va < 0xff000000"
  shows "page_walk m' 0x20000 va = Some va"
proof -
  have d: "va div 2 ^ 39 = 0" "va div 2 ^ 30 = 3" "va div 2 ^ 21 = 2038 \<or> va div 2 ^ 21 = 2039"
    using assms(3,4) by auto
  have e3: "get64 (8 * (0x6000 + va div 2 ^ 30 mod 512)) m' = table_entry (of_nat (0x40000 + 0x10000 * (lst + 1)))"
    unfolding d(2) using assms(1) by (simp add: tables_for_def)
  have "lst + 1 < 512" using assms(2) by simp
  note walk = walk_slots [OF assms(1) d(1) e3 this]
  have b: "page_base (page_entry 0xfec00000) = 0xfec00000" "page_base (page_entry 0xfee00000) = 0xfee00000"
    using page_entry_base(1) [of 2038] page_entry_base(1) [of 2039] by simp_all
  have "get64 (8 * (0x8000 + 0x2000 * (lst + 1) + va div 2 ^ 21 mod 512)) m' =
      page_entry (of_nat (va div 2 ^ 21 * 2 ^ 21))"
    using assms(1) d(3) by (auto simp: tables_for_def)
  then show ?thesis
    using walk d(3) b page_entry_base(2,3) [of 0] div_known [of va "2 ^ 21" 2038]
      div_known [of va "2 ^ 21" 2039]
    by (auto simp: Let_def)
qed

lemma table_counts:
  assumes "unat sz < 3 * 2 ^ 30"
  shows "unat (ucast ((sz :: u64) div 2 ^ 30) :: u32) = unat sz div 2 ^ 30"
    "unat (ucast ((sz mod 2 ^ 30) div 2 ^ 21) :: u32) = unat sz mod 2 ^ 30 div 2 ^ 21"
proof -
  have down: "unat (ucast w :: u32) = unat w" if "unat w < 2 ^ 32" for w :: u64
    using that by (simp add: unsigned_ucast_eq take_bit_nat_eq_self)
  have "unat (sz div 2 ^ 30) = unat sz div 2 ^ 30" "unat ((sz mod 2 ^ 30) div 2 ^ 21) = unat sz mod 2 ^ 30 div 2 ^ 21"
    by (simp_all add: unat_div_distrib unat_mod_distrib)
  moreover have "unat sz div 2 ^ 30 < 2 ^ 32" "unat sz mod 2 ^ 30 div 2 ^ 21 < 2 ^ 32"
    using assms by (simp_all add: div_less_iff_less_mult less_mult_imp_div_less)
  ultimately show "unat (ucast (sz div 2 ^ 30) :: u32) = unat sz div 2 ^ 30"
    "unat (ucast ((sz mod 2 ^ 30) div 2 ^ 21) :: u32) = unat sz mod 2 ^ 30 div 2 ^ 21"
    using down by simp_all
qed

section \<open>The operations as a whole\<close>

lemma put64_length: "put64 a v m = Inr m' \<Longrightarrow> length m' = length m"
  by (rule get_put64_same(2))

lemma fold_step_length:
  assumes "\<And>i m m'. step i m = Inr m' \<Longrightarrow> length m' = length m"
  shows "fold (\<lambda>i r. bind_res r (step i)) is (Inr m) = Inr m' \<Longrightarrow> length m' = length (m :: guest_mem)"
proof (induction "is" arbitrary: m' rule: rev_induct)
  case (snoc i "is")
  then show ?case using assms by fastforce
qed simp

lemma fill_lev3_length:
  assumes "fill_lev3 lst n pdpt i3 m = Inr m'"
  shows "length m' = length m"
proof -
  obtain m1 where m1: "length m1 = length m"
    "fold (\<lambda>i2 r. bind_res r (\<lambda>m. put64 (0x40000 + 0x10000 * i3 + 8 * i2)
       (pd_entry lst n i3 i2 (get64 (0x40000 + 0x10000 * i3 + 8 * i2) m)) m)) [0..<512] (Inr m1) = Inr m'"
    using assms by (auto simp: fill_lev3_def fill_pd_def Let_def dest: put64_length)
  show ?thesis using fold_step_length [OF _ m1(2)] m1(1) put64_length by fastforce
qed

lemma setup_page_tables_length:
  "setup_page_tables bl sregs m = Inr (s, m') \<Longrightarrow> length m' = length m"
  by (auto simp: setup_page_tables_def Let_def dest!: put64_length fill_lev3_length
      fold_step_length [rotated, where step = "fill_lev3 _ _ _"] intro: fill_lev3_length)

lemma page_tables_result:
  assumes "bl_guest_mem_size bl = sz" "unat sz < 3 * 2 ^ 30" "0x80000 \<le> length m"
  shows "\<exists>m'. setup_page_tables bl sregs m = Inr (sregs\<lparr>sr_cr3 := 0x20000\<rparr>, m') \<and> length m' = length m \<and>
    tables_for (unat sz div 2 ^ 30) (unat sz mod 2 ^ 30 div 2 ^ 21) m m'"
proof -
  have lst: "unat sz div 2 ^ 30 \<le> 2" using less_mult_imp_div_less [of "unat sz" 3 "2 ^ 30"] assms(2) by simp
  then show ?thesis
    using setup_page_tables_slots [of bl "unat sz div 2 ^ 30" "unat sz mod 2 ^ 30 div 2 ^ 21" m sregs]
      table_counts [OF assms(2)] assms(1,3) setup_page_tables_length by fastforce
qed

lemma tables_identity:
  assumes "2 ^ 21 dvd s" "s < 3 * 2 ^ 30" "tables_for (s div 2 ^ 30) (s mod 2 ^ 30 div 2 ^ 21) m m'"
  shows "va < s \<Longrightarrow> page_walk m' 0x20000 va = Some va"
    "s \<le> va \<Longrightarrow> va < (s div 2 ^ 30 + 1) * 2 ^ 30 \<Longrightarrow> page_walk m' 0x20000 va = None"
    "0xfec00000 \<le> va \<Longrightarrow> va < 0xff000000 \<Longrightarrow> page_walk m' 0x20000 va = Some va"
    "j < length m div 8 \<Longrightarrow> j < 0x4000 \<or> 0x8000 + 0x2000 * (s div 2 ^ 30 + 2) \<le> j \<Longrightarrow>
       get64 (8 * j) m' = get64 (8 * j) m"
proof -
  let ?lst = "s div 2 ^ 30" let ?n = "s mod 2 ^ 30 div 2 ^ 21"
  have lst: "?lst \<le> 2" using less_mult_imp_div_less [of s 3 "2 ^ 30"] assms(2) by simp
  obtain q where q: "s = 2 ^ 21 * q" using assms(1) by (elim dvdE)
  have mapped: "(va div 2 ^ 30 \<noteq> ?lst \<or> va div 2 ^ 21 mod 512 < ?n) = (va < s)"
    if "va < (?lst + 1) * 2 ^ 30" for va
  proof -
    have "(2 ^ 21 * q) mod (2 ^ 21 * 512) = 2 ^ 21 * (q mod 512)"
      by (rule mult_mod_right [symmetric])
    then have "s div 2 ^ 30 = q div 512" "?n = q mod 512"
      unfolding q by simp_all
    moreover have "va div 2 ^ 30 = va div 2 ^ 21 div 512" by (simp add: div_mult2_eq [symmetric])
    moreover have "va < s \<longleftrightarrow> va div 2 ^ 21 < q"
      using q by (simp add: div_less_iff_less_mult mult.commute)
    moreover have "va div 2 ^ 30 \<le> ?lst" using that by (simp add: less_mult_imp_div_less less_Suc_eq_le [symmetric])
    ultimately show ?thesis using digit_less [of "va div 2 ^ 21" q] by simp
  qed
  have inside: "va < (?lst + 1) * 2 ^ 30" if "va < s" for va
    using that div_mult_mod_eq [of s "2 ^ 30"] mod_less_divisor [of "2 ^ 30" s] by simp
  show "page_walk m' 0x20000 va = Some va" if "va < s"
    using walk_memory [OF assms(3) lst] mapped inside that by auto
  show "page_walk m' 0x20000 va = None" if "s \<le> va" "va < (?lst + 1) * 2 ^ 30"
    using walk_memory [OF assms(3) lst] mapped [OF that(2)] that by auto
  show "page_walk m' 0x20000 va = Some va" if "0xfec00000 \<le> va" "va < 0xff000000"
    using walk_apic [OF assms(3) lst] that by auto
  show "get64 (8 * j) m' = get64 (8 * j) m"
    if "j < length m div 8" "j < 0x4000 \<or> 0x8000 + 0x2000 * (?lst + 2) \<le> j"
    using assms(3) that unfolding tables_for_def by (auto simp: in_table_def)
qed

section \<open>Properties\<close>

text \<open>
  (C20) Identity mapping: for every memory size that is a multiple of 2 MiB and less than 3 GiB,
  the tables can be written (they lie in the first 512 KiB) and, walked from the new \<open>cr3\<close>, map
  every address of the guest memory to itself; the rest of the last GiB is not mapped; the two
  2 MiB pages of the interrupt controllers at 0xFEC00000 and 0xFEE00000 are mapped to
  themselves; and memory outside the tables is not changed.
\<close>

theorem boot_identity_map:
  assumes "bl_guest_mem_size bl = sz" "2 ^ 21 dvd unat sz" "unat sz < 3 * 2 ^ 30" "0x80000 \<le> length m"
  shows "\<exists>m'. setup_page_tables bl sregs m = Inr (sregs\<lparr>sr_cr3 := 0x20000\<rparr>, m') \<and>
    (\<forall>va<unat sz. page_walk m' 0x20000 va = Some va) \<and>
    (\<forall>va. unat sz \<le> va \<and> va < (unat sz div 2 ^ 30 + 1) * 2 ^ 30 \<longrightarrow> page_walk m' 0x20000 va = None) \<and>
    (\<forall>va. 0xfec00000 \<le> va \<and> va < 0xff000000 \<longrightarrow> page_walk m' 0x20000 va = Some va) \<and>
    (\<forall>j<length m div 8. j < 0x4000 \<or> 0x8000 + 0x2000 * (unat sz div 2 ^ 30 + 2) \<le> j \<longrightarrow>
       get64 (8 * j) m' = get64 (8 * j) m)"
proof -
  obtain m' where m': "setup_page_tables bl sregs m = Inr (sregs\<lparr>sr_cr3 := 0x20000\<rparr>, m')"
    "tables_for (unat sz div 2 ^ 30) (unat sz mod 2 ^ 30 div 2 ^ 21) m m'"
    using page_tables_result [OF assms(1,3,4)] by blast
  show ?thesis using m'(1) tables_identity [OF assms(2,3) m'(2)] by (intro exI [of _ m']) auto
qed

definition zero_sregs :: kvm_sregs where
  "zero_sregs = \<lparr>sr_cs = flat_segment, sr_ds = flat_segment, sr_es = flat_segment, sr_fs = flat_segment,
     sr_gs = flat_segment, sr_ss = flat_segment, sr_gdt_base = 0, sr_gdt_limit = 0, sr_cr0 = 0,
     sr_cr3 = 0, sr_cr4 = 0, sr_efer = 0\<rparr>"

definition blank_boot :: bootloader where
  "blank_boot = Bootloader_new 0x800000 0x200000 0x400000"

theorem boot_identity_map_witness:
  "\<exists>m'. (\<forall>va<0x800000. page_walk m' 0x20000 va = Some va) \<and> page_walk m' 0x20000 0xfee00000 = Some 0xfee00000 \<and>
     page_walk m' 0x20000 0x800000 = None"
proof -
  let ?m = "replicate 0x80000 (0 :: u8)" and ?s = zero_sregs
  have "bl_guest_mem_size blank_boot = 0x800000" by (simp add: blank_boot_def Bootloader_new_def)
  then obtain m' where "\<forall>va<unat (0x800000 :: u64). page_walk m' 0x20000 va = Some va"
    "\<forall>va. unat (0x800000 :: u64) \<le> va \<and> va < (unat (0x800000 :: u64) div 2 ^ 30 + 1) * 2 ^ 30 \<longrightarrow>
       page_walk m' 0x20000 va = None"
    "\<forall>va. 0xfec00000 \<le> va \<and> va < 0xff000000 \<longrightarrow> page_walk m' 0x20000 va = Some va"
    using boot_identity_map [of blank_boot "0x800000" ?m ?s] by auto
  then show ?thesis by (intro exI [of _ m']) auto
qed

lemma flat_descriptors:
  "segment_descriptor code_segment = 0x00CF9A000000FFFF"
  "segment_descriptor data_segment = 0x00CF93000000FFFF"
  by (simp_all add: segment_descriptor_def segment_limit_def code_segment_def data_segment_def
      flat_segment_def Let_def)

lemma protected_mode_result:
  assumes "0x80000 \<le> length m"
  shows "\<exists>s m'. setup_protected_mode sregs m = Inr (s, m') \<and> length m' = length m \<and>
    sr_gdt_base s = 0x10000 \<and> seg_selector (sr_cs s) = 8 \<and> seg_selector (sr_ss s) = 16 \<and>
    sr_ds s = sr_ss s \<and> sr_es s = sr_ss s \<and> bit (sr_cr0 s) 0 \<and> \<not> bit (sr_cr0 s) 31 \<and>
    (\<forall>j<length m div 8. get64 (8 * j) m' =
       (if j = 0x2001 then 0x00CF9A000000FFFF else if j = 0x2002 then 0x00CF93000000FFFF else get64 (8 * j) m))"
proof -
  have N: "0x10000 \<le> length m div 8" using assms by linarith
  have sel: "seg_selector code_segment = 8" "seg_selector data_segment = 16"
    by (simp_all add: code_segment_def data_segment_def)
  obtain m1 where m1: "put64 0x10008 0x00CF9A000000FFFF m = Inr m1" "length m1 div 8 = length m div 8"
    "\<forall>i<length m div 8. get64 (8 * i) m1 = (if i = 0x2001 then 0x00CF9A000000FFFF else get64 (8 * i) m)"
    using put_slot [of "0x10008" "0x2001" m "0x00CF9A000000FFFF"] N by auto
  obtain m2 where m2: "put64 0x10010 0x00CF93000000FFFF m1 = Inr m2" "length m2 div 8 = length m1 div 8"
    "\<forall>i<length m1 div 8. get64 (8 * i) m2 = (if i = 0x2002 then 0x00CF93000000FFFF else get64 (8 * i) m1)"
    using put_slot [of "0x10010" "0x2002" m1 "0x00CF93000000FFFF"] N m1(2) by auto
  show ?thesis
    using m1 m2 put64_length [OF m1(1)] put64_length [OF m2(1)]
    by (auto simp: setup_protected_mode_def fill_segment_descriptor_def flat_descriptors sel Let_def
        bit_or_iff)
qed

text \<open>
  Protected mode: the two flat 4 GiB segments the boot loader installs are encoded as the
  descriptors 0x00CF9A000000FFFF (code) and 0x00CF93000000FFFF (data) in entries 1 and 2 of a
  table at 0x10000; the segment registers name these entries, paging is off and protection is
  on, and no other 64-bit word of the memory is changed.
\<close>

theorem protected_mode_descriptors:
  assumes "0x80000 \<le> length m"
  shows "\<exists>s m'. setup_protected_mode sregs m = Inr (s, m') \<and>
    get64 (unat (sr_gdt_base s) + unat (seg_selector (sr_cs s))) m' = 0x00CF9A000000FFFF \<and>
    get64 (unat (sr_gdt_base s) + unat (seg_selector (sr_ss s))) m' = 0x00CF93000000FFFF \<and>
    sr_ds s = sr_ss s \<and> sr_es s = sr_ss s \<and> bit (sr_cr0 s) 0 \<and> \<not> bit (sr_cr0 s) 31 \<and>
    (\<forall>j<length m div 8. j \<noteq> 0x2001 \<and> j \<noteq> 0x2002 \<longrightarrow> get64 (8 * j) m' = get64 (8 * j) m)"
proof -
  obtain s m' where r: "setup_protected_mode sregs m = Inr (s, m')" "sr_gdt_base s = 0x10000"
    "seg_selector (sr_cs s) = 8" "seg_selector (sr_ss s) = 16"
    "sr_ds s = sr_ss s" "sr_es s = sr_ss s" "bit (sr_cr0 s) 0" "\<not> bit (sr_cr0 s) 31"
    "\<forall>j<length m div 8. get64 (8 * j) m' =
       (if j = 0x2001 then 0x00CF9A000000FFFF else if j = 0x2002 then 0x00CF93000000FFFF else get64 (8 * j) m)"
    using protected_mode_result [OF assms] by blast
  have "0x2002 < length m div 8" using assms by linarith
  then show ?thesis
    using r r(9) [rule_format, of "0x2001"] r(9) [rule_format, of "0x2002"] by auto
qed

theorem protected_mode_descriptors_witness:
  "\<exists>s m'. setup_protected_mode zero_sregs (replicate 0x80000 0) = Inr (s, m') \<and>
     get64 (unat (sr_gdt_base s) + unat (seg_selector (sr_cs s))) m' = 0x00CF9A000000FFFF"
  using protected_mode_descriptors [of "replicate 0x80000 0" zero_sregs] by auto

text \<open>
  The descriptor loses the upper byte of the base: bits 24 to 31 of a segment's base are
  shifted out of the 64-bit descriptor, although the comment says they are stored; two segments
  whose bases differ only there have the same descriptor.
\<close>

theorem descriptor_base_truncated:
  "segment_descriptor (seg\<lparr>seg_base := b\<rparr>) = segment_descriptor (seg\<lparr>seg_base := b AND 0xffffff\<rparr>)"
proof -
  have "push_bit 56 0xff000000 = (0 :: u64)" by simp
  then have lost: "push_bit 56 (b AND 0xff000000) = (0 :: u64)" for b
    by (simp only: push_bit_and and_zero_eq)
  have "(b AND 0xffffff) AND 0xffffff = b AND 0xffffff" by (simp add: and.assoc)
  then show ?thesis
    by (simp add: segment_descriptor_def segment_limit_def lost Let_def del: push_bit_and)
qed

end
