(* ===== verification/Executable.thy ===== *)
theory Executable
  imports GuestMemory
begin

text \<open>
  What the loaders of \<open>elf/\<close> have in common: the C library's view of the executable file, the
  two ways a load can end early, and the interface \<open>elf/interp.h\<close> between the extraction loop of
  \<open>elf/estrattore.cpp\<close> and the formats (\<open>Eseguibile\<close>, \<open>Segmento\<close>), stated as the locale
  \<open>segment_source\<close>.
\<close>

section \<open>Ending early\<close>

text \<open>Undefined behaviour, or a call of \<open>exit(EXIT_FAILURE)\<close>.\<close>

datatype stop = Fault fault | ExitFailure

type_synonym 'a run = "stop + 'a"

definition lift_res :: "'a res \<Rightarrow> 'a run" where
  "lift_res = map_sum Fault id"

lemma lift_res_simps [simp]:
  "lift_res (Inl e) = Inl (Fault e)"
  "lift_res (Inr x) = Inr x"
  by (simp_all add: lift_res_def)

section \<open>The file\<close>

type_synonym exe_file = "u8 list"

text \<open>
  \<open>fseek\<close> to an absolute position fails when the position, converted to \<open>long\<close>, is negative; a
  position behind the end is accepted and reads nothing. \<open>fread\<close> returns the number of whole
  items, 0 when the lim of an item is 0.
\<close>

definition fseek_ok :: "int \<Rightarrow> bool" where
  "fseek_ok off \<longleftrightarrow> 0 \<le> off"

definition fread_items :: "exe_file \<Rightarrow> nat \<Rightarrow> nat \<Rightarrow> nat \<Rightarrow> nat" where
  "fread_items f pos sz n = (if sz = 0 then 0 else min n ((length f - pos) div sz))"

text \<open>
  A table of the file: \<open>new char[num * entsize]\<close>, whose product is computed as an \<open>int\<close>, and then
  the read that has to deliver all entries.
\<close>

definition read_table :: "exe_file \<Rightarrow> int \<Rightarrow> u16 \<Rightarrow> u16 \<Rightarrow> u8 list run" where
  "read_table f off num entsize =
     (let n = unat num; sz = unat entsize
      in if int n * int sz \<ge> 2 ^ 31 then Inl (Fault SignedOverflow)
         else if \<not> fseek_ok off \<or> fread_items f (nat off) sz n < n then Inl ExitFailure
         else Inr (get_bytes (nat off) (n * sz) f))"

section \<open>Writing to the destination\<close>

definition store_bytes :: "nat \<Rightarrow> u8 list \<Rightarrow> guest_mem \<Rightarrow> guest_mem run" where
  "store_bytes a bs m =
     (if bs = [] then Inr m
      else if a + length bs \<le> length m then Inr (put_bytes a bs m)
      else Inl (Fault OutOfBounds))"

definition fread_into :: "exe_file \<Rightarrow> nat \<Rightarrow> nat \<Rightarrow> nat \<Rightarrow> guest_mem \<Rightarrow> (nat \<times> guest_mem) run" where
  "fread_into f pos n a m =
     (let bs = get_bytes pos n f
      in bind_res (store_bytes a bs m) (\<lambda>m1. Inr (length bs, m1)))"

definition memset :: "nat \<Rightarrow> u8 \<Rightarrow> nat \<Rightarrow> guest_mem \<Rightarrow> guest_mem run" where
  "memset a v n m =
     (if n = 0 then Inr m
      else if a + n \<le> length m then Inr (put_bytes a (replicate n v) m)
      else Inl (Fault OutOfBounds))"

text \<open>A field of a structure in a byte buffer.\<close>

definition le_field :: "nat \<Rightarrow> nat \<Rightarrow> u8 list \<Rightarrow> 'a :: len word" where
  "le_field off n bs = of_nat (le_val (get_bytes off n bs))"

section \<open>Facts\<close>

lemma put_bytes_Nil [simp]: "put_bytes a [] m = m"
  by (simp add: put_bytes_def)

lemma store_bytes_ok: "a + length bs \<le> length m \<Longrightarrow> store_bytes a bs m = Inr (put_bytes a bs m)"
  by (simp add: store_bytes_def)

lemma memset_ok: "a + n \<le> length m \<Longrightarrow> memset a v n m = Inr (put_bytes a (replicate n v) m)"
  by (simp add: memset_def)

lemma read_table_Inr:
  assumes "read_table f off num entsize = Inr t"
  shows "t = get_bytes (nat off) (unat num * unat entsize) f" "0 \<le> off"
    "length t = unat num * unat entsize"
proof -
  let ?n = "unat num" and ?sz = "unat entsize"
  have r: "t = get_bytes (nat off) (?n * ?sz) f" "0 \<le> off" "\<not> fread_items f (nat off) ?sz ?n < ?n"
    using assms by (auto simp: read_table_def Let_def fseek_ok_def split: if_splits)
  then show "t = get_bytes (nat off) (?n * ?sz) f" "0 \<le> off" by simp_all
  show "length t = ?n * ?sz"
  proof (cases "?n * ?sz = 0")
    case True
    then show ?thesis using r(1) by (auto simp: get_bytes_def)
  next
    case False
    then have "?n \<le> (length f - nat off) div ?sz" "0 < ?n" "0 < ?sz"
      using r(3) by (auto simp: fread_items_def split: if_splits)
    then have "?n * ?sz \<le> length f - nat off"
      using div_times_less_eq_dividend [of "length f - nat off" ?sz] mult_le_mono1 le_trans by blast
    then show ?thesis using r(1) by (simp add: get_bytes_def)
  qed
qed

lemma table_entry_inside:
  assumes "i < n" "k \<le> sz" "len = n * sz"
  shows "sz * i + k \<le> (len :: nat)"
proof -
  have "sz * i + k \<le> sz * Suc i" using assms(2) by simp
  also have "\<dots> \<le> sz * n" using assms(1) by (intro mult_le_mono2) simp
  finally show ?thesis using assms(3) by (simp add: mult.commute)
qed

lemma nat_sint_offset:
  assumes "0 \<le> sint (w :: u64)"
  shows "nat (sint w) = unat w"
proof -
  have "sint w < 2 ^ 64" using sint_lt [of w] by simp
  then have "uint w = sint w" using assms by (simp add: uint_sint take_bit_int_eq_self)
  then show ?thesis by (metis nat_uint_eq)
qed

text \<open>The bytes a segment occupies in memory: its part of the file, then zeros.\<close>

definition seg_image :: "exe_file \<Rightarrow> nat \<Rightarrow> nat \<Rightarrow> nat \<Rightarrow> u8 list" where
  "seg_image f off filesz memsz = get_bytes off filesz f @ replicate (memsz - filesz) 0"

lemma length_seg_image:
  "off + filesz \<le> length f \<Longrightarrow> filesz \<le> memsz \<Longrightarrow> length (seg_image f off filesz memsz) = memsz"
  by (simp add: seg_image_def length_get_bytes)

lemma fread_memset_image:
  assumes "off + filesz \<le> length f" "filesz \<le> memsz" "a + memsz \<le> length m"
  shows "bind_res (fread_into f off filesz a m) (\<lambda>(n, m1).
      bind_res (memset (a + filesz) 0 (memsz - filesz) m1) (\<lambda>m2. Inr (n, m2))) =
    Inr (filesz, put_bytes a (seg_image f off filesz memsz) m)"
proof -
  let ?bs = "get_bytes off filesz f"
  have l: "length ?bs = filesz" using assms(1) by (rule length_get_bytes)
  then have "put_bytes (a + filesz) (replicate (memsz - filesz) 0) (put_bytes a ?bs m) =
      put_bytes a (seg_image f off filesz memsz) m"
    using put_bytes_append [of a ?bs m] assms(2,3) by (simp add: seg_image_def)
  then show ?thesis
    using assms l by (simp add: fread_into_def store_bytes_ok memset_ok length_put_bytes)
qed

section \<open>The interface between the formats and the extraction loop\<close>

text \<open>
  The contract of a format: \<open>segs\<close> is what is still to come of an open executable, \<open>nxt\<close> is
  \<open>prossimo_segmento\<close> and delivers it in order, \<open>copy\<close> is \<open>copia_segmento\<close> and writes exactly the
  image of the segment.
\<close>

locale segment_source =
  fixes segs :: "'x \<Rightarrow> 's list"
    and nxt :: "'x \<Rightarrow> ('s \<times> 'x) option run"
    and dim :: "'s \<Rightarrow> u64"
    and copy :: "'s \<Rightarrow> nat \<Rightarrow> guest_mem \<Rightarrow> (u64 \<times> guest_mem) run"
    and image :: "'s \<Rightarrow> u8 list"
    and ok :: "'x \<Rightarrow> bool"
    and seg_ok :: "'s \<Rightarrow> bool"
  assumes next_none: "ok x \<Longrightarrow> segs x = [] \<Longrightarrow> nxt x = Inr None"
    and next_some: "ok x \<Longrightarrow> segs x = s # ss \<Longrightarrow> \<exists>x'. nxt x = Inr (Some (s, x')) \<and> ok x' \<and> segs x' = ss"
    and copy_image: "seg_ok s \<Longrightarrow> a + unat (dim s) \<le> length m \<Longrightarrow>
      \<exists>n. copy s a m = Inr (n, put_bytes a (image s) m)"
    and image_length: "seg_ok s \<Longrightarrow> length (image s) = unat (dim s)"

text \<open>
  The extraction loop on top of a format: it asks for the next segment, skips one that ends behind
  the destination and copies the others to their addresses.
\<close>

locale extraction = segment_source segs nxt dim copy image ok seg_ok
  for segs :: "'x \<Rightarrow> 's list"
    and nxt :: "'x \<Rightarrow> ('s \<times> 'x) option run"
    and dim :: "'s \<Rightarrow> u64"
    and copy :: "'s \<Rightarrow> nat \<Rightarrow> guest_mem \<Rightarrow> (u64 \<times> guest_mem) run"
    and image :: "'s \<Rightarrow> u8 list"
    and ok :: "'x \<Rightarrow> bool"
    and seg_ok :: "'s \<Rightarrow> bool" +
  fixes addr :: "'s \<Rightarrow> u64"
    and loop :: "u64 \<Rightarrow> 'x \<Rightarrow> guest_mem \<Rightarrow> guest_mem run"
  assumes loop_eq: "ok x \<Longrightarrow> loop lim x m =
      bind_res (nxt x) (\<lambda>r. case r of
          None \<Rightarrow> Inr m
        | Some (s, x') \<Rightarrow>
            if addr s + dim s > lim then loop lim x' m
            else bind_res (copy s (unat (addr s)) m) (\<lambda>(n, m1). loop lim x' m1))"
begin

definition place :: "u64 \<Rightarrow> 's \<Rightarrow> guest_mem \<Rightarrow> guest_mem" where
  "place lim s m = (if addr s + dim s > lim then m else put_bytes (unat (addr s)) (image s) m)"

text \<open>A segment the loop handles safely: it is well formed and its end does not wrap around.\<close>

definition good :: "'s \<Rightarrow> bool" where
  "good s \<longleftrightarrow> seg_ok s \<and> unat (addr s) + unat (dim s) < 2 ^ 64"

lemma end_addr: "good s \<Longrightarrow> unat (addr s + dim s) = unat (addr s) + unat (dim s)"
  by (simp add: good_def unat_word_ariths)

lemma placed_range:
  assumes "good s" "\<not> addr s + dim s > lim" "unat lim \<le> length m"
  shows "unat (addr s) + unat (dim s) \<le> length m"
  using assms end_addr [OF assms(1)] by (simp add: word_less_nat_alt)

lemma length_place:
  assumes "good s" "unat lim \<le> length m"
  shows "length (place lim s m) = length m"
proof (cases "addr s + dim s > lim")
  case False
  then show ?thesis
    using placed_range [OF assms(1) False assms(2)] image_length [of s] assms(1)
    by (simp add: place_def good_def length_put_bytes)
qed (simp add: place_def)

lemma length_places:
  "list_all good ss \<Longrightarrow> unat lim \<le> length m \<Longrightarrow> length (fold (place lim) ss m) = length m"
  by (induction ss arbitrary: m) (simp_all add: length_place)

theorem loop_places:
  assumes "ok x" "list_all good (segs x)" "unat lim \<le> length m"
  shows "loop lim x m = Inr (fold (place lim) (segs x) m)"
  using assms
proof (induction "segs x" arbitrary: x m)
  case Nil
  then show ?case using next_none [of x] loop_eq [of x lim m] by simp
next
  case (Cons s ss)
  obtain x' where x': "nxt x = Inr (Some (s, x'))" "ok x'" "segs x' = ss"
    using next_some [OF Cons.prems(1) Cons.hyps(2) [symmetric]] by blast
  have s: "good s" "list_all good ss" using Cons.prems(2) Cons.hyps(2) [symmetric] by simp_all
  have len: "unat lim \<le> length (place lim s m)" using length_place [OF s(1)] Cons.prems(3) by simp
  have IH: "loop lim x' (place lim s m) = Inr (fold (place lim) ss (place lim s m))"
    using Cons.hyps(1) [of x' "place lim s m"] x'(2,3) s(2) len by simp
  note eq = loop_eq [OF Cons.prems(1), of lim m]
  show ?case
  proof (cases "addr s + dim s > lim")
    case True
    then have "place lim s m = m" by (simp add: place_def)
    then show ?thesis using IH x'(1) True Cons.hyps(2) [symmetric] eq by simp
  next
    case False
    obtain n where "copy s (unat (addr s)) m = Inr (n, put_bytes (unat (addr s)) (image s) m)"
      using copy_image [OF _ placed_range [OF s(1) False Cons.prems(3)]] s(1) by (auto simp: good_def)
    moreover have "place lim s m = put_bytes (unat (addr s)) (image s) m" using False by (simp add: place_def)
    ultimately show ?thesis using IH x'(1) False Cons.hyps(2) [symmetric] eq by simp
  qed
qed

text \<open>What a placed segment leaves alone, and what is found at its address.\<close>

lemma place_outside:
  assumes "good s" "unat lim \<le> length m" "a + n \<le> length m"
    "unat lim < unat (addr s) + unat (dim s) \<or> a + n \<le> unat (addr s) \<or> unat (addr s) + unat (dim s) \<le> a"
  shows "get_bytes a n (place lim s m) = get_bytes a n m"
proof (cases "addr s + dim s > lim")
  case False
  then have "\<not> unat lim < unat (addr s) + unat (dim s)"
    using end_addr [OF assms(1)] by (simp add: word_less_nat_alt)
  then show ?thesis
    using False assms placed_range [OF assms(1) False assms(2)] image_length
    by (auto simp: place_def good_def intro!: get_put_disjoint)
qed (simp add: place_def)

lemma places_outside:
  assumes "list_all good ss" "unat lim \<le> length m" "a + n \<le> length m"
    "\<forall>s \<in> set ss. unat lim < unat (addr s) + unat (dim s) \<or> a + n \<le> unat (addr s) \<or>
       unat (addr s) + unat (dim s) \<le> a"
  shows "get_bytes a n (fold (place lim) ss m) = get_bytes a n m"
  using assms
proof (induction ss arbitrary: m)
  case (Cons s ss)
  have "get_bytes a n (fold (place lim) ss (place lim s m)) = get_bytes a n (place lim s m)"
    using Cons.prems length_place [of s lim m] by (intro Cons.IH) simp_all
  also have "\<dots> = get_bytes a n m" using Cons.prems by (intro place_outside) simp_all
  finally show ?case by simp
qed simp

text \<open>A segment that no later one overlaps is found in memory as its image.\<close>

lemma places_image:
  assumes "list_all good (ss1 @ s # ss2)" "unat lim \<le> length m" "unat (addr s) + unat (dim s) \<le> unat lim"
    "\<forall>s' \<in> set ss2. unat lim < unat (addr s') + unat (dim s') \<or>
       unat (addr s) + unat (dim s) \<le> unat (addr s') \<or> unat (addr s') + unat (dim s') \<le> unat (addr s)"
  shows "get_bytes (unat (addr s)) (unat (dim s)) (fold (place lim) (ss1 @ s # ss2) m) = image s"
proof -
  define m1 where "m1 = fold (place lim) ss1 m"
  have s: "good s" and len: "length m1 = length m"
    using assms(1,2) length_places [of ss1 lim m] by (simp_all add: m1_def)
  have fits: "unat (addr s) + unat (dim s) \<le> length m1" using assms(2,3) len by simp
  have "place lim s m1 = put_bytes (unat (addr s)) (image s) m1"
    using assms(3) end_addr [OF s] by (simp add: place_def word_less_nat_alt)
  then have "get_bytes (unat (addr s)) (unat (dim s)) (place lim s m1) = image s"
    using get_put_same [of "unat (addr s)" "image s" m1] fits image_length s by (simp add: good_def)
  moreover have "get_bytes (unat (addr s)) (unat (dim s)) (fold (place lim) ss2 (place lim s m1)) =
      get_bytes (unat (addr s)) (unat (dim s)) (place lim s m1)"
    using assms length_place [OF s, of lim m1] len fits by (intro places_outside) simp_all
  ultimately show ?thesis by (simp add: m1_def)
qed

end

end
