(* ===== verification/Elf32.thy ===== *)
theory Elf32
  imports Executable
begin

text \<open>
  The 32-bit ELF format, \<open>elf/elf32.h\<close> and \<open>elf/elf32.cpp\<close>: the header and program header
  structures as they lie in the file, the classes \<open>EseguibileElf32\<close> and \<open>SegmentoElf32\<close>, and
  their part of the interface to the extraction loop.
\<close>

section \<open>Structures\<close>

record Elf32_Ehdr =
  e32_ident :: "u8 list"
  e32_type :: u16
  e32_machine :: u16
  e32_version :: u32
  e32_entry :: u32
  e32_phoff :: u32
  e32_shoff :: u32
  e32_flags :: u32
  e32_ehsize :: u16
  e32_phentsize :: u16
  e32_phnum :: u16
  e32_shentsize :: u16
  e32_shnum :: u16
  e32_shstrndx :: u16

record Elf32_Phdr =
  p32_type :: u32
  p32_offset :: u32
  p32_vaddr :: u32
  p32_paddr :: u32
  p32_filesz :: u32
  p32_memsz :: u32
  p32_flags :: u32
  p32_align :: u32

abbreviation SIZEOF_EHDR32 :: nat where "SIZEOF_EHDR32 \<equiv> 52"
abbreviation SIZEOF_PHDR32 :: nat where "SIZEOF_PHDR32 \<equiv> 32"

text \<open>The structures are read as raw bytes; the host is little-endian and the layout has no holes.\<close>

definition Elf32_Ehdr_at :: "u8 list \<Rightarrow> Elf32_Ehdr" where
  "Elf32_Ehdr_at b = \<lparr>
     e32_ident = get_bytes 0 16 b, e32_type = le_field 16 2 b, e32_machine = le_field 18 2 b,
     e32_version = le_field 20 4 b, e32_entry = le_field 24 4 b, e32_phoff = le_field 28 4 b,
     e32_shoff = le_field 32 4 b, e32_flags = le_field 36 4 b, e32_ehsize = le_field 40 2 b,
     e32_phentsize = le_field 42 2 b, e32_phnum = le_field 44 2 b, e32_shentsize = le_field 46 2 b,
     e32_shnum = le_field 48 2 b, e32_shstrndx = le_field 50 2 b\<rparr>"

definition Elf32_Phdr_at :: "nat \<Rightarrow> u8 list \<Rightarrow> Elf32_Phdr" where
  "Elf32_Phdr_at pos b = \<lparr>
     p32_type = le_field pos 4 b, p32_offset = le_field (pos + 4) 4 b, p32_vaddr = le_field (pos + 8) 4 b,
     p32_paddr = le_field (pos + 12) 4 b, p32_filesz = le_field (pos + 16) 4 b, p32_memsz = le_field (pos + 20) 4 b,
     p32_flags = le_field (pos + 24) 4 b, p32_align = le_field (pos + 28) 4 b\<rparr>"

section \<open>The executable\<close>

record EseguibileElf32 =
  x32_file :: exe_file
  x32_h :: Elf32_Ehdr
  x32_seg_buf :: "u8 list"
  x32_sec_buf :: "u8 list"
  x32_curr_seg :: nat

text \<open>
  \<open>init\<close>: the magic number (whose third byte is tested twice and whose fourth is not), the class,
  the byte order, the type and the machine; then the two tables. None is the result \<open>false\<close>.
\<close>

definition elf32_magic_ok :: "Elf32_Ehdr \<Rightarrow> bool" where
  "elf32_magic_ok h \<longleftrightarrow>
     e32_ident h ! 0 = 0x7f \<and> e32_ident h ! 1 = 0x45 \<and> e32_ident h ! 2 = 0x4c \<and> e32_ident h ! 2 = 0x4c"

definition elf32_kind_ok :: "Elf32_Ehdr \<Rightarrow> bool" where
  "elf32_kind_ok h \<longleftrightarrow>
     e32_ident h ! 4 = 1 \<and> e32_ident h ! 5 = 1 \<and> e32_type h = 2 \<and> e32_machine h = 3"

definition EseguibileElf32_init :: "exe_file \<Rightarrow> EseguibileElf32 option run" where
  "EseguibileElf32_init f =
     (if length f < SIZEOF_EHDR32 then Inr None
      else (let h = Elf32_Ehdr_at f
            in if \<not> elf32_magic_ok h then Inr None
               else if \<not> elf32_kind_ok h then Inr None
               else bind_res (read_table f (uint (e32_phoff h)) (e32_phnum h) (e32_phentsize h)) (\<lambda>seg_buf.
                    bind_res (read_table f (uint (e32_shoff h)) (e32_shnum h) (e32_shentsize h)) (\<lambda>sec_buf.
                      Inr (Some \<lparr>x32_file = f, x32_h = h, x32_seg_buf = seg_buf, x32_sec_buf = sec_buf,
                                 x32_curr_seg = 0\<rparr>)))))"

definition EseguibileElf32_entry_point :: "EseguibileElf32 \<Rightarrow> u64" where
  "EseguibileElf32_entry_point x = ucast (e32_entry (x32_h x))"

section \<open>Segments\<close>

abbreviation DIM_PAGINA32 :: u32 where "DIM_PAGINA32 \<equiv> 4096"

record SegmentoElf32 =
  s32_ph :: Elf32_Phdr
  s32_curr_offset :: u32
  s32_curr :: u32
  s32_da_leggere :: u32
  s32_ancora :: u32

definition page_part32 :: "u32 \<Rightarrow> u32" where
  "page_part32 da_leggere = (if da_leggere > 4096 then DIM_PAGINA32 else da_leggere)"

definition SegmentoElf32_new :: "Elf32_Phdr \<Rightarrow> SegmentoElf32" where
  "SegmentoElf32_new ph =
     (let curr_offset = p32_offset ph AND NOT (DIM_PAGINA32 - 1);
          da_leggere = p32_filesz ph + (p32_offset ph - curr_offset)
      in \<lparr>s32_ph = ph, s32_curr_offset = curr_offset, s32_curr = page_part32 da_leggere,
          s32_da_leggere = da_leggere, s32_ancora = p32_memsz ph\<rparr>)"

text \<open>
  \<open>prossimo_segmento\<close>: the loop over the program headers up to the next loadable one. The cast
  reads a whole structure out of the table.
\<close>

function EseguibileElf32_prossimo_segmento ::
  "EseguibileElf32 \<Rightarrow> (SegmentoElf32 \<times> EseguibileElf32) option run" where
  "EseguibileElf32_prossimo_segmento x =
     (if x32_curr_seg x < unat (e32_phnum (x32_h x)) then
        (let pos = unat (e32_phentsize (x32_h x)) * x32_curr_seg x;
             x1 = x\<lparr>x32_curr_seg := x32_curr_seg x + 1\<rparr>
         in if pos + SIZEOF_PHDR32 > length (x32_seg_buf x) then Inl (Fault OutOfBounds)
            else (let ph = Elf32_Phdr_at pos (x32_seg_buf x)
                  in if p32_type ph \<noteq> 1 then EseguibileElf32_prossimo_segmento x1
                     else Inr (Some (SegmentoElf32_new ph, x1))))
      else Inr None)"
  by pat_completeness auto
termination
  by (relation "measure (\<lambda>x. unat (e32_phnum (x32_h x)) - x32_curr_seg x)") auto

declare EseguibileElf32_prossimo_segmento.simps [simp del]

definition SegmentoElf32_scrivibile :: "SegmentoElf32 \<Rightarrow> bool" where
  "SegmentoElf32_scrivibile s \<longleftrightarrow> p32_flags (s32_ph s) AND 2 \<noteq> 0"

definition SegmentoElf32_ind_virtuale :: "SegmentoElf32 \<Rightarrow> u64" where
  "SegmentoElf32_ind_virtuale s = ucast (p32_vaddr (s32_ph s))"

definition SegmentoElf32_dimensione_filesz :: "SegmentoElf32 \<Rightarrow> u64" where
  "SegmentoElf32_dimensione_filesz s = ucast (p32_filesz (s32_ph s))"

definition SegmentoElf32_dimensione :: "SegmentoElf32 \<Rightarrow> u64" where
  "SegmentoElf32_dimensione s = ucast (p32_memsz (s32_ph s))"

definition SegmentoElf32_finito :: "SegmentoElf32 \<Rightarrow> bool" where
  "SegmentoElf32_finito s \<longleftrightarrow> s32_ancora s \<le> 0"

definition SegmentoElf32_prossima_pagina :: "SegmentoElf32 \<Rightarrow> bool \<times> SegmentoElf32" where
  "SegmentoElf32_prossima_pagina s =
     (if SegmentoElf32_finito s then (False, s)
      else (let da_leggere = s32_da_leggere s - s32_curr s
            in (True, s\<lparr>s32_da_leggere := da_leggere, s32_curr_offset := s32_curr_offset s + s32_curr s,
                       s32_curr := page_part32 da_leggere\<rparr>)))"

definition SegmentoElf32_pagina_di_zeri :: "SegmentoElf32 \<Rightarrow> bool" where
  "SegmentoElf32_pagina_di_zeri s \<longleftrightarrow> s32_da_leggere s \<le> 0"

definition SegmentoElf32_copia_pagina :: "exe_file \<Rightarrow> SegmentoElf32 \<Rightarrow> nat \<Rightarrow> guest_mem \<Rightarrow> (bool \<times> guest_mem) run" where
  "SegmentoElf32_copia_pagina f s dest m =
     (let n = unat (s32_curr s)
      in if s32_curr s = 0 then Inr (True, m)
         else if \<not> fseek_ok (uint (s32_curr_offset s)) then Inl ExitFailure
         else bind_res (if s32_curr s < DIM_PAGINA32 then memset dest 0 4096 m else Inr m) (\<lambda>m1.
              bind_res (fread_into f (nat (uint (s32_curr_offset s))) n dest m1) (\<lambda>(k, m2).
                if k < n then Inl ExitFailure else Inr (True, m2))))"

definition SegmentoElf32_copia_segmento :: "exe_file \<Rightarrow> SegmentoElf32 \<Rightarrow> nat \<Rightarrow> guest_mem \<Rightarrow> (u64 \<times> guest_mem) run" where
  "SegmentoElf32_copia_segmento f s dest m =
     (let off = uint (p32_offset (s32_ph s));
          filesz = SegmentoElf32_dimensione_filesz s; memsz = SegmentoElf32_dimensione s
      in if \<not> fseek_ok off then Inl ExitFailure
         else bind_res (fread_into f (nat off) (unat filesz) dest m) (\<lambda>(read_count, m1).
           if memsz > filesz then
             bind_res (memset (dest + unat filesz) 0 (unat (memsz - filesz)) m1) (\<lambda>m2.
               Inr (of_nat read_count + (memsz - filesz), m2))
           else Inr (of_nat read_count, m1)))"

definition InterpreteElf32_interpreta :: "exe_file \<Rightarrow> EseguibileElf32 option run" where
  "InterpreteElf32_interpreta f = EseguibileElf32_init f"

section \<open>The sequence of segments\<close>

text \<open>The segments \<open>prossimo_segmento\<close> has still to deliver, and when it does so without a fault.\<close>

definition elf32_phdrs :: "EseguibileElf32 \<Rightarrow> nat \<Rightarrow> Elf32_Phdr list" where
  "elf32_phdrs x k = map (\<lambda>i. Elf32_Phdr_at (unat (e32_phentsize (x32_h x)) * i) (x32_seg_buf x))
     [k..<unat (e32_phnum (x32_h x))]"

definition elf32_segments :: "EseguibileElf32 \<Rightarrow> SegmentoElf32 list" where
  "elf32_segments x =
     map SegmentoElf32_new (filter (\<lambda>ph. p32_type ph = 1) (elf32_phdrs x (x32_curr_seg x)))"

definition elf32_ok :: "exe_file \<Rightarrow> EseguibileElf32 \<Rightarrow> bool" where
  "elf32_ok f x \<longleftrightarrow> x32_file x = f \<and> SIZEOF_PHDR32 \<le> unat (e32_phentsize (x32_h x)) \<and>
     length (x32_seg_buf x) = unat (e32_phnum (x32_h x)) * unat (e32_phentsize (x32_h x))"

text \<open>A segment whose bytes are in the file and whose file part is not longer than its memory.\<close>

definition elf32_seg_ok :: "exe_file \<Rightarrow> SegmentoElf32 \<Rightarrow> bool" where
  "elf32_seg_ok f s \<longleftrightarrow> fseek_ok (uint (p32_offset (s32_ph s))) \<and>
     unat (p32_offset (s32_ph s)) + unat (p32_filesz (s32_ph s)) \<le> length f \<and>
     p32_filesz (s32_ph s) \<le> p32_memsz (s32_ph s)"

definition elf32_image :: "exe_file \<Rightarrow> SegmentoElf32 \<Rightarrow> u8 list" where
  "elf32_image f s = seg_image f (unat (p32_offset (s32_ph s))) (unat (p32_filesz (s32_ph s)))
     (unat (p32_memsz (s32_ph s)))"

lemma elf32_segments_end:
  assumes "\<not> x32_curr_seg x < unat (e32_phnum (x32_h x))"
  shows "elf32_segments x = []"
  using assms by (simp add: elf32_segments_def elf32_phdrs_def)

lemma elf32_segments_step:
  assumes "x32_curr_seg x < unat (e32_phnum (x32_h x))"
    and "ph = Elf32_Phdr_at (unat (e32_phentsize (x32_h x)) * x32_curr_seg x) (x32_seg_buf x)"
    and "x1 = x\<lparr>x32_curr_seg := x32_curr_seg x + 1\<rparr>"
  shows "elf32_segments x =
    (if p32_type ph = 1 then SegmentoElf32_new ph # elf32_segments x1 else elf32_segments x1)"
  using assms by (simp add: elf32_segments_def elf32_phdrs_def upt_conv_Cons)

lemma elf32_prossimo:
  assumes "elf32_ok f x"
  shows "case elf32_segments x of
      [] \<Rightarrow> EseguibileElf32_prossimo_segmento x = Inr None
    | s # ss \<Rightarrow>
        (\<exists>x'. EseguibileElf32_prossimo_segmento x = Inr (Some (s, x')) \<and> elf32_ok f x' \<and> elf32_segments x' = ss)"
  using assms
proof (induction x rule: EseguibileElf32_prossimo_segmento.induct)
  case (1 x)
  show ?case
  proof (cases "x32_curr_seg x < unat (e32_phnum (x32_h x))")
    case False
    then show ?thesis using elf32_segments_end by (simp add: EseguibileElf32_prossimo_segmento.simps [of x])
  next
    case True
    define x1 where "x1 = x\<lparr>x32_curr_seg := x32_curr_seg x + 1\<rparr>"
    define pos where "pos = unat (e32_phentsize (x32_h x)) * x32_curr_seg x"
    define ph where "ph = Elf32_Phdr_at pos (x32_seg_buf x)"
    note segs = elf32_segments_step [OF True ph_def [unfolded pos_def] x1_def]
    have inside: "\<not> pos + SIZEOF_PHDR32 > length (x32_seg_buf x)"
      using table_entry_inside [OF True] "1.prems" by (simp add: pos_def elf32_ok_def not_less)
    have ok1: "elf32_ok f x1" using "1.prems" by (simp add: elf32_ok_def x1_def)
    have eq: "EseguibileElf32_prossimo_segmento x =
        (if p32_type ph \<noteq> 1 then EseguibileElf32_prossimo_segmento x1 else Inr (Some (SegmentoElf32_new ph, x1)))"
      using True inside
      by (simp add: EseguibileElf32_prossimo_segmento.simps [of x] Let_def ph_def pos_def x1_def)
    show ?thesis
    proof (cases "p32_type ph \<noteq> 1")
      case False
      then show ?thesis using eq segs ok1 by simp
    next
      case other: True
      then show ?thesis
        using eq segs "1.IH" [OF True pos_def x1_def inside ph_def other ok1]
        by (auto split: list.splits)
    qed
  qed
qed

lemma elf32_prossimo_none:
  "elf32_ok f x \<Longrightarrow> elf32_segments x = [] \<Longrightarrow> EseguibileElf32_prossimo_segmento x = Inr None"
  using elf32_prossimo [of f x] by simp

lemma elf32_prossimo_some:
  "elf32_ok f x \<Longrightarrow> elf32_segments x = s # ss \<Longrightarrow>
   \<exists>x'. EseguibileElf32_prossimo_segmento x = Inr (Some (s, x')) \<and> elf32_ok f x' \<and> elf32_segments x' = ss"
  using elf32_prossimo [of f x] by simp

text \<open>The loop makes progress: the executable it returns is further on.\<close>

lemma elf32_prossimo_progress:
  "EseguibileElf32_prossimo_segmento x = Inr (Some (s, x')) \<Longrightarrow>
   x32_h x' = x32_h x \<and> x32_file x' = x32_file x \<and> x32_curr_seg x < x32_curr_seg x' \<and>
   x32_curr_seg x' \<le> unat (e32_phnum (x32_h x))"
proof (induction x rule: EseguibileElf32_prossimo_segmento.induct)
  case (1 x)
  show ?case
    using "1.prems" "1.IH"
    by (subst (asm) EseguibileElf32_prossimo_segmento.simps [of x]) (fastforce simp: Let_def split: if_splits)
qed

section \<open>Copying\<close>

lemma elf32_sizes:
  "unat (SegmentoElf32_dimensione s) = unat (p32_memsz (s32_ph s))"
  "unat (SegmentoElf32_dimensione_filesz s) = unat (p32_filesz (s32_ph s))"
  by (simp_all add: SegmentoElf32_dimensione_def SegmentoElf32_dimensione_filesz_def unsigned_ucast_eq
      take_bit_nat_eq_self unsigned_less [where 'a = nat, THEN less_trans])

lemma elf32_copy_image:
  assumes "elf32_seg_ok f s" "a + unat (SegmentoElf32_dimensione s) \<le> length m"
  shows "\<exists>n. SegmentoElf32_copia_segmento f s a m = Inr (n, put_bytes a (elf32_image f s) m)"
proof -
  let ?off = "unat (p32_offset (s32_ph s))"
  let ?fs = "SegmentoElf32_dimensione_filesz s" and ?ms = "SegmentoElf32_dimensione s"
  have off: "fseek_ok (uint (p32_offset (s32_ph s)))" "nat (uint (p32_offset (s32_ph s))) = ?off"
    using assms(1) unat_eq_nat_uint [symmetric] by (simp_all add: elf32_seg_ok_def fseek_ok_def)
  have sz: "?off + unat ?fs \<le> length f" "unat ?fs \<le> unat ?ms"
    using assms(1) by (simp_all add: elf32_seg_ok_def elf32_sizes word_le_nat_alt)
  have img: "elf32_image f s = seg_image f ?off (unat ?fs) (unat ?ms)"
    by (simp add: elf32_image_def elf32_sizes)
  note whole = fread_memset_image [OF sz assms(2)]
  show ?thesis
  proof (cases "?ms > ?fs")
    case True
    then have "unat (?ms - ?fs) = unat ?ms - unat ?fs" using sz(2) by (simp add: unat_sub word_le_nat_alt)
    then show ?thesis
      using True whole off img by (auto simp: SegmentoElf32_copia_segmento_def Let_def)
  next
    case False
    then have "unat ?ms = unat ?fs" using sz(2) by (simp add: word_less_nat_alt)
    then show ?thesis
      using False whole off img by (auto simp: SegmentoElf32_copia_segmento_def Let_def memset_def)
  qed
qed

lemma elf32_image_length:
  assumes "elf32_seg_ok f s"
  shows "length (elf32_image f s) = unat (SegmentoElf32_dimensione s)"
  using assms by (simp add: elf32_image_def elf32_seg_ok_def elf32_sizes length_seg_image word_le_nat_alt)

text \<open>What \<open>init\<close> establishes.\<close>

lemma elf32_init_ok:
  assumes "EseguibileElf32_init f = Inr (Some x)"
  shows "x32_file x = f" "x32_h x = Elf32_Ehdr_at f" "x32_curr_seg x = 0" "SIZEOF_EHDR32 \<le> length f"
    "elf32_magic_ok (x32_h x)" "elf32_kind_ok (x32_h x)"
    "read_table f (uint (e32_phoff (x32_h x))) (e32_phnum (x32_h x)) (e32_phentsize (x32_h x)) = Inr (x32_seg_buf x)"
  using assms by (auto simp: EseguibileElf32_init_def Let_def split: if_splits)

lemma elf32_init_table:
  assumes "EseguibileElf32_init f = Inr (Some x)" "SIZEOF_PHDR32 \<le> unat (e32_phentsize (x32_h x))"
  shows "elf32_ok f x"
  using assms(2) elf32_init_ok(1) [OF assms(1)] read_table_Inr(3) [OF elf32_init_ok(7) [OF assms(1)]]
  by (simp add: elf32_ok_def)

end
