(* ===== verification/Elf64.thy ===== *)
theory Elf64
  imports Executable
begin

text \<open>
  The 64-bit ELF format, \<open>elf/elf64.h\<close> and \<open>elf/elf64.cpp\<close>: the header and program header
  structures as they lie in the file, the classes \<open>EseguibileElf64\<close> and \<open>SegmentoElf64\<close>, and
  their part of the interface to the extraction loop.
\<close>

section \<open>Structures\<close>

record Elf64_Ehdr =
  e64_ident :: "u8 list"
  e64_type :: u16
  e64_machine :: u16
  e64_version :: u32
  e64_entry :: u64
  e64_phoff :: u64
  e64_shoff :: u64
  e64_flags :: u32
  e64_ehsize :: u16
  e64_phentsize :: u16
  e64_phnum :: u16
  e64_shentsize :: u16
  e64_shnum :: u16
  e64_shstrndx :: u16

record Elf64_Phdr =
  p64_type :: u32
  p64_flags :: u32
  p64_offset :: u64
  p64_vaddr :: u64
  p64_paddr :: u64
  p64_filesz :: u64
  p64_memsz :: u64
  p64_align :: u64

abbreviation SIZEOF_EHDR64 :: nat where "SIZEOF_EHDR64 \<equiv> 64"
abbreviation SIZEOF_PHDR64 :: nat where "SIZEOF_PHDR64 \<equiv> 56"

text \<open>The structures are read as raw bytes; the host is little-endian and the layout has no holes.\<close>

definition Elf64_Ehdr_at :: "u8 list \<Rightarrow> Elf64_Ehdr" where
  "Elf64_Ehdr_at b = \<lparr>
     e64_ident = get_bytes 0 16 b, e64_type = le_field 16 2 b, e64_machine = le_field 18 2 b,
     e64_version = le_field 20 4 b, e64_entry = le_field 24 8 b, e64_phoff = le_field 32 8 b,
     e64_shoff = le_field 40 8 b, e64_flags = le_field 48 4 b, e64_ehsize = le_field 52 2 b,
     e64_phentsize = le_field 54 2 b, e64_phnum = le_field 56 2 b, e64_shentsize = le_field 58 2 b,
     e64_shnum = le_field 60 2 b, e64_shstrndx = le_field 62 2 b\<rparr>"

definition Elf64_Phdr_at :: "nat \<Rightarrow> u8 list \<Rightarrow> Elf64_Phdr" where
  "Elf64_Phdr_at pos b = \<lparr>
     p64_type = le_field pos 4 b, p64_flags = le_field (pos + 4) 4 b, p64_offset = le_field (pos + 8) 8 b,
     p64_vaddr = le_field (pos + 16) 8 b, p64_paddr = le_field (pos + 24) 8 b,
     p64_filesz = le_field (pos + 32) 8 b, p64_memsz = le_field (pos + 40) 8 b, p64_align = le_field (pos + 48) 8 b\<rparr>"

section \<open>The executable\<close>

record EseguibileElf64 =
  x64_file :: exe_file
  x64_h :: Elf64_Ehdr
  x64_seg_buf :: "u8 list"
  x64_sec_buf :: "u8 list"
  x64_curr_seg :: nat

text \<open>
  \<open>init\<close>: the magic number (whose third byte is tested twice and whose fourth is not), the class,
  the byte order, the type and the machine; then the two tables. None is the result \<open>false\<close>.
\<close>

definition elf64_magic_ok :: "Elf64_Ehdr \<Rightarrow> bool" where
  "elf64_magic_ok h \<longleftrightarrow>
     e64_ident h ! 0 = 0x7f \<and> e64_ident h ! 1 = 0x45 \<and> e64_ident h ! 2 = 0x4c \<and> e64_ident h ! 2 = 0x4c"

definition elf64_kind_ok :: "Elf64_Ehdr \<Rightarrow> bool" where
  "elf64_kind_ok h \<longleftrightarrow>
     e64_ident h ! 4 = 2 \<and> e64_ident h ! 5 = 1 \<and> e64_type h = 2 \<and> e64_machine h = 62"

definition EseguibileElf64_init :: "exe_file \<Rightarrow> EseguibileElf64 option run" where
  "EseguibileElf64_init f =
     (if length f < SIZEOF_EHDR64 then Inr None
      else (let h = Elf64_Ehdr_at f
            in if \<not> elf64_magic_ok h then Inr None
               else if \<not> elf64_kind_ok h then Inr None
               else bind_res (read_table f (sint (e64_phoff h)) (e64_phnum h) (e64_phentsize h)) (\<lambda>seg_buf.
                    bind_res (read_table f (sint (e64_shoff h)) (e64_shnum h) (e64_shentsize h)) (\<lambda>sec_buf.
                      Inr (Some \<lparr>x64_file = f, x64_h = h, x64_seg_buf = seg_buf, x64_sec_buf = sec_buf,
                                 x64_curr_seg = 0\<rparr>)))))"

definition EseguibileElf64_entry_point :: "EseguibileElf64 \<Rightarrow> u64" where
  "EseguibileElf64_entry_point x = e64_entry (x64_h x)"

section \<open>Segments\<close>

abbreviation DIM_PAGINA64 :: u64 where "DIM_PAGINA64 \<equiv> 4096"

record SegmentoElf64 =
  s64_ph :: Elf64_Phdr
  s64_curr_offset :: u64
  s64_curr :: u64
  s64_da_leggere :: u32
  s64_ancora :: u32

definition page_part64 :: "u32 \<Rightarrow> u64" where
  "page_part64 da_leggere = (if da_leggere > 4096 then DIM_PAGINA64 else ucast da_leggere)"

definition SegmentoElf64_new :: "Elf64_Phdr \<Rightarrow> SegmentoElf64" where
  "SegmentoElf64_new ph =
     (let curr_offset = p64_offset ph AND NOT (DIM_PAGINA64 - 1);
          da_leggere = ucast (p64_filesz ph + (p64_offset ph - curr_offset)) :: u32
      in \<lparr>s64_ph = ph, s64_curr_offset = curr_offset, s64_curr = page_part64 da_leggere,
          s64_da_leggere = da_leggere, s64_ancora = ucast (p64_memsz ph)\<rparr>)"

text \<open>
  \<open>prossimo_segmento\<close>: the loop over the program headers up to the next loadable one. The cast
  reads a whole structure out of the table.
\<close>

function EseguibileElf64_prossimo_segmento ::
  "EseguibileElf64 \<Rightarrow> (SegmentoElf64 \<times> EseguibileElf64) option run" where
  "EseguibileElf64_prossimo_segmento x =
     (if x64_curr_seg x < unat (e64_phnum (x64_h x)) then
        (let pos = unat (e64_phentsize (x64_h x)) * x64_curr_seg x;
             x1 = x\<lparr>x64_curr_seg := x64_curr_seg x + 1\<rparr>
         in if pos + SIZEOF_PHDR64 > length (x64_seg_buf x) then Inl (Fault OutOfBounds)
            else (let ph = Elf64_Phdr_at pos (x64_seg_buf x)
                  in if p64_type ph \<noteq> 1 then EseguibileElf64_prossimo_segmento x1
                     else Inr (Some (SegmentoElf64_new ph, x1))))
      else Inr None)"
  by pat_completeness auto
termination
  by (relation "measure (\<lambda>x. unat (e64_phnum (x64_h x)) - x64_curr_seg x)") auto

declare EseguibileElf64_prossimo_segmento.simps [simp del]

definition SegmentoElf64_scrivibile :: "SegmentoElf64 \<Rightarrow> bool" where
  "SegmentoElf64_scrivibile s \<longleftrightarrow> p64_flags (s64_ph s) AND 2 \<noteq> 0"

definition SegmentoElf64_ind_virtuale :: "SegmentoElf64 \<Rightarrow> u64" where
  "SegmentoElf64_ind_virtuale s = p64_vaddr (s64_ph s)"

definition SegmentoElf64_dimensione_filesz :: "SegmentoElf64 \<Rightarrow> u64" where
  "SegmentoElf64_dimensione_filesz s = p64_filesz (s64_ph s)"

definition SegmentoElf64_dimensione :: "SegmentoElf64 \<Rightarrow> u64" where
  "SegmentoElf64_dimensione s = p64_memsz (s64_ph s)"

definition SegmentoElf64_finito :: "SegmentoElf64 \<Rightarrow> bool" where
  "SegmentoElf64_finito s \<longleftrightarrow> s64_ancora s \<le> 0"

definition SegmentoElf64_prossima_pagina :: "SegmentoElf64 \<Rightarrow> bool \<times> SegmentoElf64" where
  "SegmentoElf64_prossima_pagina s =
     (if SegmentoElf64_finito s then (False, s)
      else (let da_leggere = s64_da_leggere s - ucast (s64_curr s)
            in (True, s\<lparr>s64_da_leggere := da_leggere, s64_curr_offset := s64_curr_offset s + s64_curr s,
                       s64_curr := page_part64 da_leggere\<rparr>)))"

definition SegmentoElf64_pagina_di_zeri :: "SegmentoElf64 \<Rightarrow> bool" where
  "SegmentoElf64_pagina_di_zeri s \<longleftrightarrow> s64_da_leggere s \<le> 0"

definition SegmentoElf64_copia_pagina :: "exe_file \<Rightarrow> SegmentoElf64 \<Rightarrow> nat \<Rightarrow> guest_mem \<Rightarrow> (bool \<times> guest_mem) run" where
  "SegmentoElf64_copia_pagina f s dest m =
     (let n = unat (s64_curr s)
      in if s64_curr s = 0 then Inr (True, m)
         else if \<not> fseek_ok (sint (s64_curr_offset s)) then Inl ExitFailure
         else bind_res (if s64_curr s < DIM_PAGINA64 then memset dest 0 4096 m else Inr m) (\<lambda>m1.
              bind_res (fread_into f (nat (sint (s64_curr_offset s))) n dest m1) (\<lambda>(k, m2).
                if k < n then Inl ExitFailure else Inr (True, m2))))"

definition SegmentoElf64_copia_segmento :: "exe_file \<Rightarrow> SegmentoElf64 \<Rightarrow> nat \<Rightarrow> guest_mem \<Rightarrow> (u64 \<times> guest_mem) run" where
  "SegmentoElf64_copia_segmento f s dest m =
     (let off = sint (p64_offset (s64_ph s));
          filesz = SegmentoElf64_dimensione_filesz s; memsz = SegmentoElf64_dimensione s
      in if \<not> fseek_ok off then Inl ExitFailure
         else bind_res (fread_into f (nat off) (unat filesz) dest m) (\<lambda>(read_count, m1).
           if memsz > filesz then
             bind_res (memset (dest + unat filesz) 0 (unat (memsz - filesz)) m1) (\<lambda>m2.
               Inr (of_nat read_count + (memsz - filesz), m2))
           else Inr (of_nat read_count, m1)))"

definition InterpreteElf64_interpreta :: "exe_file \<Rightarrow> EseguibileElf64 option run" where
  "InterpreteElf64_interpreta f = EseguibileElf64_init f"

section \<open>The sequence of segments\<close>

text \<open>The segments \<open>prossimo_segmento\<close> has still to deliver, and when it does so without a fault.\<close>

definition elf64_phdrs :: "EseguibileElf64 \<Rightarrow> nat \<Rightarrow> Elf64_Phdr list" where
  "elf64_phdrs x k = map (\<lambda>i. Elf64_Phdr_at (unat (e64_phentsize (x64_h x)) * i) (x64_seg_buf x))
     [k..<unat (e64_phnum (x64_h x))]"

definition elf64_segments :: "EseguibileElf64 \<Rightarrow> SegmentoElf64 list" where
  "elf64_segments x =
     map SegmentoElf64_new (filter (\<lambda>ph. p64_type ph = 1) (elf64_phdrs x (x64_curr_seg x)))"

definition elf64_ok :: "exe_file \<Rightarrow> EseguibileElf64 \<Rightarrow> bool" where
  "elf64_ok f x \<longleftrightarrow> x64_file x = f \<and> SIZEOF_PHDR64 \<le> unat (e64_phentsize (x64_h x)) \<and>
     length (x64_seg_buf x) = unat (e64_phnum (x64_h x)) * unat (e64_phentsize (x64_h x))"

text \<open>A segment whose bytes are in the file and whose file part is not longer than its memory.\<close>

definition elf64_seg_ok :: "exe_file \<Rightarrow> SegmentoElf64 \<Rightarrow> bool" where
  "elf64_seg_ok f s \<longleftrightarrow> fseek_ok (sint (p64_offset (s64_ph s))) \<and>
     unat (p64_offset (s64_ph s)) + unat (p64_filesz (s64_ph s)) \<le> length f \<and>
     p64_filesz (s64_ph s) \<le> p64_memsz (s64_ph s)"

definition elf64_image :: "exe_file \<Rightarrow> SegmentoElf64 \<Rightarrow> u8 list" where
  "elf64_image f s = seg_image f (unat (p64_offset (s64_ph s))) (unat (p64_filesz (s64_ph s)))
     (unat (p64_memsz (s64_ph s)))"

lemma elf64_segments_end:
  assumes "\<not> x64_curr_seg x < unat (e64_phnum (x64_h x))"
  shows "elf64_segments x = []"
  using assms by (simp add: elf64_segments_def elf64_phdrs_def)

lemma elf64_segments_step:
  assumes "x64_curr_seg x < unat (e64_phnum (x64_h x))"
    and "ph = Elf64_Phdr_at (unat (e64_phentsize (x64_h x)) * x64_curr_seg x) (x64_seg_buf x)"
    and "x1 = x\<lparr>x64_curr_seg := x64_curr_seg x + 1\<rparr>"
  shows "elf64_segments x =
    (if p64_type ph = 1 then SegmentoElf64_new ph # elf64_segments x1 else elf64_segments x1)"
  using assms by (simp add: elf64_segments_def elf64_phdrs_def upt_conv_Cons)

lemma elf64_prossimo:
  assumes "elf64_ok f x"
  shows "case elf64_segments x of
      [] \<Rightarrow> EseguibileElf64_prossimo_segmento x = Inr None
    | s # ss \<Rightarrow>
        (\<exists>x'. EseguibileElf64_prossimo_segmento x = Inr (Some (s, x')) \<and> elf64_ok f x' \<and> elf64_segments x' = ss)"
  using assms
proof (induction x rule: EseguibileElf64_prossimo_segmento.induct)
  case (1 x)
  show ?case
  proof (cases "x64_curr_seg x < unat (e64_phnum (x64_h x))")
    case False
    then show ?thesis using elf64_segments_end by (simp add: EseguibileElf64_prossimo_segmento.simps [of x])
  next
    case True
    define x1 where "x1 = x\<lparr>x64_curr_seg := x64_curr_seg x + 1\<rparr>"
    define pos where "pos = unat (e64_phentsize (x64_h x)) * x64_curr_seg x"
    define ph where "ph = Elf64_Phdr_at pos (x64_seg_buf x)"
    note segs = elf64_segments_step [OF True ph_def [unfolded pos_def] x1_def]
    have inside: "\<not> pos + SIZEOF_PHDR64 > length (x64_seg_buf x)"
      using table_entry_inside [OF True] "1.prems" by (simp add: pos_def elf64_ok_def not_less)
    have ok1: "elf64_ok f x1" using "1.prems" by (simp add: elf64_ok_def x1_def)
    have eq: "EseguibileElf64_prossimo_segmento x =
        (if p64_type ph \<noteq> 1 then EseguibileElf64_prossimo_segmento x1 else Inr (Some (SegmentoElf64_new ph, x1)))"
      using True inside
      by (simp add: EseguibileElf64_prossimo_segmento.simps [of x] Let_def ph_def pos_def x1_def)
    show ?thesis
    proof (cases "p64_type ph \<noteq> 1")
      case False
      then show ?thesis using eq segs ok1 by simp
    next
      case other: True
      then show ?thesis
        using eq segs "1.IH" [OF True pos_def x1_def inside ph_def other ok1]
        by (auto split: list.splits)
    qed
  qed
qed

lemma elf64_prossimo_none:
  "elf64_ok f x \<Longrightarrow> elf64_segments x = [] \<Longrightarrow> EseguibileElf64_prossimo_segmento x = Inr None"
  using elf64_prossimo [of f x] by simp

lemma elf64_prossimo_some:
  "elf64_ok f x \<Longrightarrow> elf64_segments x = s # ss \<Longrightarrow>
   \<exists>x'. EseguibileElf64_prossimo_segmento x = Inr (Some (s, x')) \<and> elf64_ok f x' \<and> elf64_segments x' = ss"
  using elf64_prossimo [of f x] by simp

text \<open>The loop makes progress: the executable it returns is further on.\<close>

lemma elf64_prossimo_progress:
  "EseguibileElf64_prossimo_segmento x = Inr (Some (s, x')) \<Longrightarrow>
   x64_h x' = x64_h x \<and> x64_file x' = x64_file x \<and> x64_curr_seg x < x64_curr_seg x' \<and>
   x64_curr_seg x' \<le> unat (e64_phnum (x64_h x))"
proof (induction x rule: EseguibileElf64_prossimo_segmento.induct)
  case (1 x)
  show ?case
    using "1.prems" "1.IH"
    by (subst (asm) EseguibileElf64_prossimo_segmento.simps [of x]) (fastforce simp: Let_def split: if_splits)
qed

section \<open>Copying\<close>

lemmas elf64_sizes = SegmentoElf64_dimensione_def SegmentoElf64_dimensione_filesz_def

lemma elf64_copy_image:
  assumes "elf64_seg_ok f s" "a + unat (SegmentoElf64_dimensione s) \<le> length m"
  shows "\<exists>n. SegmentoElf64_copia_segmento f s a m = Inr (n, put_bytes a (elf64_image f s) m)"
proof -
  let ?off = "unat (p64_offset (s64_ph s))"
  let ?fs = "SegmentoElf64_dimensione_filesz s" and ?ms = "SegmentoElf64_dimensione s"
  have off: "fseek_ok (sint (p64_offset (s64_ph s)))" "nat (sint (p64_offset (s64_ph s))) = ?off"
    using assms(1) nat_sint_offset [of "p64_offset (s64_ph s)"] by (simp_all add: elf64_seg_ok_def fseek_ok_def)
  have sz: "?off + unat ?fs \<le> length f" "unat ?fs \<le> unat ?ms"
    using assms(1) by (simp_all add: elf64_seg_ok_def elf64_sizes word_le_nat_alt)
  have img: "elf64_image f s = seg_image f ?off (unat ?fs) (unat ?ms)"
    by (simp add: elf64_image_def elf64_sizes)
  note whole = fread_memset_image [OF sz assms(2)]
  show ?thesis
  proof (cases "?ms > ?fs")
    case True
    then have "unat (?ms - ?fs) = unat ?ms - unat ?fs" using sz(2) by (simp add: unat_sub word_le_nat_alt)
    then show ?thesis
      using True whole off img by (auto simp: SegmentoElf64_copia_segmento_def Let_def)
  next
    case False
    then have "unat ?ms = unat ?fs" using sz(2) by (simp add: word_less_nat_alt)
    then show ?thesis
      using False whole off img by (auto simp: SegmentoElf64_copia_segmento_def Let_def memset_def)
  qed
qed

lemma elf64_image_length:
  assumes "elf64_seg_ok f s"
  shows "length (elf64_image f s) = unat (SegmentoElf64_dimensione s)"
  using assms by (simp add: elf64_image_def elf64_seg_ok_def elf64_sizes length_seg_image word_le_nat_alt)

text \<open>What \<open>init\<close> establishes.\<close>

lemma elf64_init_ok:
  assumes "EseguibileElf64_init f = Inr (Some x)"
  shows "x64_file x = f" "x64_h x = Elf64_Ehdr_at f" "x64_curr_seg x = 0" "SIZEOF_EHDR64 \<le> length f"
    "elf64_magic_ok (x64_h x)" "elf64_kind_ok (x64_h x)"
    "read_table f (sint (e64_phoff (x64_h x))) (e64_phnum (x64_h x)) (e64_phentsize (x64_h x)) = Inr (x64_seg_buf x)"
  using assms by (auto simp: EseguibileElf64_init_def Let_def split: if_splits)

lemma elf64_init_table:
  assumes "EseguibileElf64_init f = Inr (Some x)" "SIZEOF_PHDR64 \<le> unat (e64_phentsize (x64_h x))"
  shows "elf64_ok f x"
  using assms(2) elf64_init_ok(1) [OF assms(1)] read_table_Inr(3) [OF elf64_init_ok(7) [OF assms(1)]]
  by (simp add: elf64_ok_def)

end
