(* ===== verification/ElfLoader.thy ===== *)
theory ElfLoader
  imports Elf32 Elf64
begin

text \<open>
  The loader, \<open>elf/interp.h\<close>, \<open>elf/interp.cpp\<close> and \<open>elf/estrattore.cpp\<close>: the list of registered
  interpreters, the dynamic dispatch to the 32-bit and the 64-bit format, and \<open>estrai_segmento\<close>,
  which recognises the file and copies its segments into the guest memory.
\<close>

section \<open>Interpreters\<close>

text \<open>
  The two static objects \<open>int_elf32\<close> and \<open>int_elf64\<close> register themselves when the program starts,
  in an order the language leaves open.
\<close>

datatype interprete = int_elf32 | int_elf64

datatype eseguibile = Exe32 EseguibileElf32 | Exe64 EseguibileElf64

datatype segmento = Seg32 SegmentoElf32 | Seg64 SegmentoElf64

record ListaInterpreti =
  li_testa :: "interprete list"
  li_curr :: "interprete list"

definition ListaInterpreti_new :: ListaInterpreti where
  "ListaInterpreti_new = \<lparr>li_testa = [], li_curr = []\<rparr>"

definition aggiungi :: "interprete \<Rightarrow> ListaInterpreti \<Rightarrow> ListaInterpreti" where
  "aggiungi i l = l\<lparr>li_testa := i # li_testa l\<rparr>"

definition li_rewind :: "ListaInterpreti \<Rightarrow> ListaInterpreti" where
  "li_rewind l = l\<lparr>li_curr := li_testa l\<rparr>"

definition ancora :: "ListaInterpreti \<Rightarrow> bool" where
  "ancora l \<longleftrightarrow> li_curr l \<noteq> []"

definition prossimo :: "ListaInterpreti \<Rightarrow> interprete option \<times> ListaInterpreti" where
  "prossimo l = (case li_curr l of [] \<Rightarrow> (None, l) | i # r \<Rightarrow> (Some i, l\<lparr>li_curr := r\<rparr>))"

section \<open>Dispatch\<close>

primrec interpreta :: "interprete \<Rightarrow> exe_file \<Rightarrow> eseguibile option run" where
  "interpreta int_elf32 f = bind_res (InterpreteElf32_interpreta f) (\<lambda>r. Inr (map_option Exe32 r))"
| "interpreta int_elf64 f = bind_res (InterpreteElf64_interpreta f) (\<lambda>r. Inr (map_option Exe64 r))"

primrec entry_point :: "eseguibile \<Rightarrow> u64" where
  "entry_point (Exe32 x) = EseguibileElf32_entry_point x"
| "entry_point (Exe64 x) = EseguibileElf64_entry_point x"

primrec prossimo_segmento :: "eseguibile \<Rightarrow> (segmento \<times> eseguibile) option run" where
  "prossimo_segmento (Exe32 x) =
     bind_res (EseguibileElf32_prossimo_segmento x) (\<lambda>r. Inr (map_option (map_prod Seg32 Exe32) r))"
| "prossimo_segmento (Exe64 x) =
     bind_res (EseguibileElf64_prossimo_segmento x) (\<lambda>r. Inr (map_option (map_prod Seg64 Exe64) r))"

primrec ind_virtuale :: "segmento \<Rightarrow> u64" where
  "ind_virtuale (Seg32 s) = SegmentoElf32_ind_virtuale s"
| "ind_virtuale (Seg64 s) = SegmentoElf64_ind_virtuale s"

primrec dimensione :: "segmento \<Rightarrow> u64" where
  "dimensione (Seg32 s) = SegmentoElf32_dimensione s"
| "dimensione (Seg64 s) = SegmentoElf64_dimensione s"

primrec exe_file_of :: "eseguibile \<Rightarrow> exe_file" where
  "exe_file_of (Exe32 x) = x32_file x"
| "exe_file_of (Exe64 x) = x64_file x"

text \<open>\<open>copia_segmento\<close> reads through the file of the executable the segment belongs to.\<close>

primrec copia_segmento :: "exe_file \<Rightarrow> segmento \<Rightarrow> nat \<Rightarrow> guest_mem \<Rightarrow> (u64 \<times> guest_mem) run" where
  "copia_segmento f (Seg32 s) dest m = SegmentoElf32_copia_segmento f s dest m"
| "copia_segmento f (Seg64 s) dest m = SegmentoElf64_copia_segmento f s dest m"

section \<open>Extraction\<close>

primrec segs_left :: "eseguibile \<Rightarrow> nat" where
  "segs_left (Exe32 x) = unat (e32_phnum (x32_h x)) - x32_curr_seg x"
| "segs_left (Exe64 x) = unat (e64_phnum (x64_h x)) - x64_curr_seg x"

lemma prossimo_segmento_less:
  assumes "prossimo_segmento e = Inr (Some (s, e'))"
  shows "segs_left e' < segs_left e"
proof (cases e)
  case (Exe32 x)
  then obtain s1 x' where x': "EseguibileElf32_prossimo_segmento x = Inr (Some (s1, x'))" "e' = Exe32 x'"
    using assms by auto
  show ?thesis using elf32_prossimo_progress [OF x'(1)] x'(2) Exe32 by auto
next
  case (Exe64 x)
  then obtain s1 x' where x': "EseguibileElf64_prossimo_segmento x = Inr (Some (s1, x'))" "e' = Exe64 x'"
    using assms by auto
  show ?thesis using elf64_prossimo_progress [OF x'(1)] x'(2) Exe64 by auto
qed

text \<open>
  The loop of \<open>estrai_segmento\<close>. The end of a segment is computed in 64 bits; a segment that ends
  behind the destination is skipped with a message.
\<close>

function carica :: "u64 \<Rightarrow> eseguibile \<Rightarrow> guest_mem \<Rightarrow> guest_mem run" where
  "carica dest_size e m =
     (case prossimo_segmento e of
        Inl err \<Rightarrow> Inl err
      | Inr None \<Rightarrow> Inr m
      | Inr (Some (s, e')) \<Rightarrow>
          (let end_addr = ind_virtuale s + dimensione s
           in if end_addr > dest_size then carica dest_size e' m
              else (case copia_segmento (exe_file_of e) s (unat (ind_virtuale s)) m of
                  Inl err \<Rightarrow> Inl err
                | Inr (n, m1) \<Rightarrow> carica dest_size e' m1)))"
  by pat_completeness auto
termination
  by (relation "measure (\<lambda>(dest_size, e, m). segs_left e)") (auto dest: prossimo_segmento_less)

declare carica.simps [simp del]

text \<open>The loop over the interpreters: the first one that accepts the file.\<close>

function riconosci :: "ListaInterpreti \<Rightarrow> exe_file \<Rightarrow> (eseguibile option \<times> ListaInterpreti) run" where
  "riconosci l f =
     (if \<not> ancora l then Inr (None, l)
      else (case prossimo l of
          (None, l') \<Rightarrow> Inl (Fault NullDeref)
        | (Some i, l') \<Rightarrow>
            (case interpreta i f of
               Inl err \<Rightarrow> Inl err
             | Inr (Some e) \<Rightarrow> Inr (Some e, l')
             | Inr None \<Rightarrow> riconosci l' f)))"
  by pat_completeness auto
termination
  by (relation "measure (\<lambda>(l, f). length (li_curr l))") (auto simp: prossimo_def split: list.splits)

declare riconosci.simps [simp del]

definition estrai_segmento ::
  "exe_file option \<Rightarrow> u64 \<Rightarrow> ListaInterpreti \<Rightarrow> guest_mem \<Rightarrow> (u64 \<times> ListaInterpreti \<times> guest_mem) run" where
  "estrai_segmento fopened dest_size li dest =
     (case fopened of
        None \<Rightarrow> Inl ExitFailure
      | Some f \<Rightarrow>
          bind_res (riconosci (li_rewind li) f) (\<lambda>(exe, li').
            case exe of
              None \<Rightarrow> Inl ExitFailure
            | Some e \<Rightarrow>
                bind_res (carica dest_size e dest) (\<lambda>m.
                  Inr (entry_point e, li', m))))"

lemma carica_eq:
  "carica dest_size e m =
     bind_res (prossimo_segmento e) (\<lambda>r. case r of
         None \<Rightarrow> Inr m
       | Some (s, e') \<Rightarrow>
           if ind_virtuale s + dimensione s > dest_size then carica dest_size e' m
           else bind_res (copia_segmento (exe_file_of e) s (unat (ind_virtuale s)) m)
             (\<lambda>(n, m1). carica dest_size e' m1))"
  by (subst carica.simps) (auto simp: bind_res_def Let_def split: sum.splits option.splits prod.splits)


section \<open>The formats as sources of segments\<close>

interpretation e32: segment_source elf32_segments EseguibileElf32_prossimo_segmento
  SegmentoElf32_dimensione "SegmentoElf32_copia_segmento f" "elf32_image f" "elf32_ok f" "elf32_seg_ok f" for f
  by unfold_locales (auto intro: elf32_prossimo_none elf32_prossimo_some elf32_copy_image elf32_image_length)

interpretation e64: segment_source elf64_segments EseguibileElf64_prossimo_segmento
  SegmentoElf64_dimensione "SegmentoElf64_copia_segmento f" "elf64_image f" "elf64_ok f" "elf64_seg_ok f" for f
  by unfold_locales (auto intro: elf64_prossimo_none elf64_prossimo_some elf64_copy_image elf64_image_length)

text \<open>The loadable segments of a recognised file, in the order of its table, and their bytes.\<close>

primrec segmenti :: "eseguibile \<Rightarrow> segmento list" where
  "segmenti (Exe32 x) = map Seg32 (elf32_segments x)"
| "segmenti (Exe64 x) = map Seg64 (elf64_segments x)"

primrec immagine :: "exe_file \<Rightarrow> segmento \<Rightarrow> u8 list" where
  "immagine f (Seg32 s) = elf32_image f s"
| "immagine f (Seg64 s) = elf64_image f s"

primrec seg_valido :: "exe_file \<Rightarrow> segmento \<Rightarrow> bool" where
  "seg_valido f (Seg32 s) = elf32_seg_ok f s"
| "seg_valido f (Seg64 s) = elf64_seg_ok f s"

primrec exe_ok :: "exe_file \<Rightarrow> eseguibile \<Rightarrow> bool" where
  "exe_ok f (Exe32 x) = elf32_ok f x"
| "exe_ok f (Exe64 x) = elf64_ok f x"

lemma exe_ok_file: "exe_ok f e \<Longrightarrow> exe_file_of e = f"
  by (cases e) (simp_all add: elf32_ok_def elf64_ok_def)

text \<open>The dispatching interface keeps the contract because both formats do.\<close>

interpretation exe: extraction segmenti prossimo_segmento dimensione "copia_segmento f" "immagine f"
  "exe_ok f" "seg_valido f" ind_virtuale carica for f
proof unfold_locales
  fix x assume "exe_ok f x" "segmenti x = []"
  then show "prossimo_segmento x = Inr None"
    using e32.next_none [of f] e64.next_none [of f] by (cases x) simp_all
next
  fix x s ss assume a: "exe_ok f x" "segmenti x = s # ss"
  show "\<exists>x'. prossimo_segmento x = Inr (Some (s, x')) \<and> exe_ok f x' \<and> segmenti x' = ss"
  proof (cases x)
    case (Exe32 y)
    then obtain t ts where t: "elf32_segments y = t # ts" "s = Seg32 t" "ss = map Seg32 ts" using a by auto
    obtain y' where "EseguibileElf32_prossimo_segmento y = Inr (Some (t, y'))" "elf32_ok f y'" "elf32_segments y' = ts"
      using e32.next_some [OF _ t(1)] a Exe32 by auto
    then show ?thesis using t Exe32 by (intro exI [of _ "Exe32 y'"]) simp
  next
    case (Exe64 y)
    then obtain t ts where t: "elf64_segments y = t # ts" "s = Seg64 t" "ss = map Seg64 ts" using a by auto
    obtain y' where "EseguibileElf64_prossimo_segmento y = Inr (Some (t, y'))" "elf64_ok f y'" "elf64_segments y' = ts"
      using e64.next_some [OF _ t(1)] a Exe64 by auto
    then show ?thesis using t Exe64 by (intro exI [of _ "Exe64 y'"]) simp
  qed
next
  fix s a and m :: guest_mem assume "seg_valido f s" "a + unat (dimensione s) \<le> length m"
  then show "\<exists>n. copia_segmento f s a m = Inr (n, put_bytes a (immagine f s) m)"
    using e32.copy_image [of f] e64.copy_image [of f] by (cases s) simp_all
next
  fix s assume "seg_valido f s"
  then show "length (immagine f s) = unat (dimensione s)"
    using e32.image_length [of f] e64.image_length [of f] by (cases s) simp_all
next
  fix lim x m assume ok: "exe_ok f x"
  from carica_eq [of lim x m, unfolded exe_ok_file [OF ok]]
  show "carica lim x m =
      bind_res (prossimo_segmento x) (\<lambda>r. case r of
          None \<Rightarrow> Inr m
        | Some (s, x') \<Rightarrow>
            if lim < ind_virtuale s + dimensione s then carica lim x' m
            else bind_res (copia_segmento f s (unat (ind_virtuale s)) m) (\<lambda>(n, m1). carica lim x' m1))"
    .
qed

section \<open>Recognising the file\<close>

lemma riconosci_Nil: "li_curr l = [] \<Longrightarrow> riconosci l f = Inr (None, l)"
  by (subst riconosci.simps) (simp add: ancora_def)

lemma riconosci_Cons:
  "li_curr l = i # is \<Longrightarrow> riconosci l f =
     bind_res (interpreta i f) (\<lambda>r. case r of
         Some e \<Rightarrow> Inr (Some e, l\<lparr>li_curr := is\<rparr>)
       | None \<Rightarrow> riconosci (l\<lparr>li_curr := is\<rparr>) f)"
  by (subst riconosci.simps) (auto simp: ancora_def prossimo_def bind_res_def split: sum.splits option.splits)

lemma same_ident: "e32_ident (Elf32_Ehdr_at f) = e64_ident (Elf64_Ehdr_at f)"
  by (simp add: Elf32_Ehdr_at_def Elf64_Ehdr_at_def)

text \<open>At most one interpreter does anything with a file.\<close>

lemma interpreta_exclusive:
  assumes "interpreta i f \<noteq> Inr None" "interpreta j f \<noteq> Inr None"
  shows "i = j"
proof (rule ccontr)
  assume "i \<noteq> j"
  then have "InterpreteElf32_interpreta f \<noteq> Inr None" "InterpreteElf64_interpreta f \<noteq> Inr None"
    using assms by (cases i; cases j; auto)+
  then have "elf32_kind_ok (Elf32_Ehdr_at f)" "elf64_kind_ok (Elf64_Ehdr_at f)"
    by (auto simp: InterpreteElf32_interpreta_def InterpreteElf64_interpreta_def
        EseguibileElf32_init_def EseguibileElf64_init_def Let_def split: if_splits)
  then show False by (simp add: elf32_kind_ok_def elf64_kind_ok_def same_ident)
qed

lemma riconosci_reject:
  "\<forall>i \<in> set (li_curr l). interpreta i f = Inr None \<Longrightarrow> \<exists>l'. riconosci l f = Inr (None, l')"
proof (induction "li_curr l" arbitrary: l)
  case Nil
  then show ?case using riconosci_Nil [of l] by simp
next
  case (Cons i "is")
  have rest: "\<forall>j \<in> set is. interpreta j f = Inr None" "interpreta i f = Inr None"
    using Cons.prems Cons.hyps(2) [symmetric] by simp_all
  then have "\<exists>l'. riconosci (l\<lparr>li_curr := is\<rparr>) f = Inr (None, l')"
    using Cons.hyps(1) [of "l\<lparr>li_curr := is\<rparr>"] by simp
  then show ?case using riconosci_Cons [OF Cons.hyps(2) [symmetric]] rest by simp
qed

lemma riconosci_accept:
  "i \<in> set (li_curr l) \<Longrightarrow> interpreta i f \<noteq> Inr None \<Longrightarrow>
   \<exists>l'. riconosci l f = bind_res (interpreta i f) (\<lambda>r. Inr (r, l'))"
proof (induction "li_curr l" arbitrary: l)
  case (Cons j js)
  note eq = riconosci_Cons [OF Cons.hyps(2) [symmetric], of f]
  show ?case
  proof (cases "interpreta j f = Inr None")
    case False
    then have "j = i" using interpreta_exclusive Cons.prems(2) by blast
    then show ?thesis
      using eq Cons.prems(2) by (cases "interpreta i f") (auto split: option.splits)
  next
    case True
    then have "i \<in> set js" using Cons.prems Cons.hyps(2) by (metis set_ConsD)
    then show ?thesis using eq True Cons.hyps(1) [of "l\<lparr>li_curr := js\<rparr>"] Cons.prems(2) by simp
  qed
qed simp

lemma riconosci_testa: "riconosci l f = Inr (r, l') \<Longrightarrow> li_testa l' = li_testa l"
proof (induction "li_curr l" arbitrary: l)
  case Nil
  then show ?case using riconosci_Nil [of l f] by simp
next
  case (Cons i "is")
  then show ?case
    using riconosci_Cons [OF Cons.hyps(2) [symmetric], of f] Cons.hyps(1) [of "l\<lparr>li_curr := is\<rparr>"]
    by (auto split: option.splits)
qed

text \<open>What a caller sees of a load: the entry point and the memory.\<close>

definition carico :: "(u64 \<times> ListaInterpreti \<times> guest_mem) run \<Rightarrow> (u64 \<times> guest_mem) run" where
  "carico r = map_sum id (\<lambda>(ep, li, m). (ep, m)) r"

lemma estrai_accept:
  assumes "i \<in> set (li_testa li)" "interpreta i f \<noteq> Inr None"
  shows "carico (estrai_segmento (Some f) lim li m) =
    bind_res (interpreta i f) (\<lambda>r. case r of
        None \<Rightarrow> Inl ExitFailure
      | Some e \<Rightarrow> bind_res (carica lim e m) (\<lambda>m'. Inr (entry_point e, m')))"
proof -
  obtain l' where "riconosci (li_rewind li) f = bind_res (interpreta i f) (\<lambda>r. Inr (r, l'))"
    using riconosci_accept [of i "li_rewind li" f] assms by (auto simp: li_rewind_def)
  then show ?thesis
    by (auto simp: estrai_segmento_def carico_def bind_res_def split: sum.splits option.splits)
qed

lemma estrai_reject:
  assumes "\<forall>i \<in> set (li_testa li). interpreta i f = Inr None"
  shows "carico (estrai_segmento (Some f) lim li m) = Inl ExitFailure"
  using riconosci_reject [of "li_rewind li" f] assms
  by (auto simp: estrai_segmento_def carico_def li_rewind_def)

text \<open>
  The order of registration does not matter: whatever order the static interpreter objects
  were constructed in, a load of any file, present or not, well formed or not, ends the same way,
  with the same entry point and the same memory.
\<close>

theorem elf_registration_order:
  assumes "set (li_testa l1) = set (li_testa l2)"
  shows "carico (estrai_segmento fo lim l1 m) = carico (estrai_segmento fo lim l2 m)"
proof (cases fo)
  case None
  then show ?thesis by (simp add: estrai_segmento_def)
next
  case (Some f)
  show ?thesis
  proof (cases "\<exists>i \<in> set (li_testa l1). interpreta i f \<noteq> Inr None")
    case True
    then obtain i where i: "i \<in> set (li_testa l1)" "i \<in> set (li_testa l2)" "interpreta i f \<noteq> Inr None"
      using assms by auto
    show ?thesis using estrai_accept [OF i(1,3)] estrai_accept [OF i(2,3)] Some by simp
  next
    case False
    then show ?thesis using estrai_reject [of l1 f] estrai_reject [of l2 f] assms Some by simp
  qed
qed

section \<open>What is loaded\<close>

primrec tabella_valida :: "eseguibile \<Rightarrow> bool" where
  "tabella_valida (Exe32 x) \<longleftrightarrow> SIZEOF_PHDR32 \<le> unat (e32_phentsize (x32_h x))"
| "tabella_valida (Exe64 x) \<longleftrightarrow> SIZEOF_PHDR64 \<le> unat (e64_phentsize (x64_h x))"

definition fine :: "segmento \<Rightarrow> nat" where
  "fine s = unat (ind_virtuale s) + unat (dimensione s)"

text \<open>
  A well-formed executable: entries as long as the structure, and for every loadable segment the
  bytes are in the file, its file part fits its memory part, and its end is a 64-bit number.
\<close>

definition ben_formato :: "exe_file \<Rightarrow> eseguibile \<Rightarrow> bool" where
  "ben_formato f e \<longleftrightarrow> tabella_valida e \<and> (\<forall>s \<in> set (segmenti e). seg_valido f s \<and> fine s < 2 ^ 64)"

definition separati :: "nat \<Rightarrow> nat \<Rightarrow> segmento \<Rightarrow> bool" where
  "separati a n s \<longleftrightarrow> a + n \<le> unat (ind_virtuale s) \<or> fine s \<le> a"

definition caricato_bene :: "exe_file \<Rightarrow> u64 \<Rightarrow> segmento list \<Rightarrow> guest_mem \<Rightarrow> guest_mem \<Rightarrow> bool" where
  "caricato_bene f lim ss m m' \<longleftrightarrow> length m' = length m \<and>
     (\<forall>ss1 s ss2. ss = ss1 @ s # ss2 \<and> fine s \<le> unat lim \<and>
        (\<forall>s' \<in> set ss2. unat lim < fine s' \<or> separati (unat (ind_virtuale s)) (unat (dimensione s)) s') \<longrightarrow>
        get_bytes (unat (ind_virtuale s)) (unat (dimensione s)) m' = immagine f s) \<and>
     (\<forall>a n. a + n \<le> length m \<and> (\<forall>s \<in> set ss. unat lim < fine s \<or> separati a n s) \<longrightarrow>
        get_bytes a n m' = get_bytes a n m)"

lemma carica_bene:
  assumes "exe_ok f e" "ben_formato f e" "unat lim \<le> length m"
  shows "\<exists>m'. carica lim e m = Inr m' \<and> caricato_bene f lim (segmenti e) m m'"
proof -
  let ?ss = "segmenti e"
  have good: "list_all (exe.good f) ?ss"
    using assms(2) by (auto simp: ben_formato_def list_all_iff exe.good_def fine_def)
  have "caricato_bene f lim ?ss m (fold (exe.place f lim) ?ss m)"
    unfolding caricato_bene_def
  proof (intro conjI allI impI)
    show "length (fold (exe.place f lim) ?ss m) = length m" using exe.length_places [OF good assms(3)] .
  next
    fix ss1 s ss2
    assume a: "?ss = ss1 @ s # ss2 \<and> fine s \<le> unat lim \<and>
      (\<forall>s' \<in> set ss2. unat lim < fine s' \<or> separati (unat (ind_virtuale s)) (unat (dimensione s)) s')"
    then show "get_bytes (unat (ind_virtuale s)) (unat (dimensione s)) (fold (exe.place f lim) ?ss m) = immagine f s"
      using exe.places_image [of f ss1 s ss2 lim m] good assms(3) by (auto simp: fine_def separati_def)
  next
    fix a n
    assume "a + n \<le> length m \<and> (\<forall>s \<in> set ?ss. unat lim < fine s \<or> separati a n s)"
    then show "get_bytes a n (fold (exe.place f lim) ?ss m) = get_bytes a n m"
      using exe.places_outside [OF good assms(3), of a n] by (auto simp: fine_def separati_def)
  qed
  then show ?thesis using exe.loop_places [OF assms(1) good assms(3)] by simp
qed

lemma interpreta_ok:
  assumes "interpreta i f = Inr (Some e)" "tabella_valida e"
  shows "exe_ok f e"
  using assms elf32_init_table [of f] elf64_init_table [of f]
  by (cases i) (auto simp: InterpreteElf32_interpreta_def InterpreteElf64_interpreta_def)

lemma estrai_bene:
  assumes "i \<in> set (li_testa li)" "interpreta i f = Inr (Some e)" "ben_formato f e" "unat lim \<le> length m"
  shows "\<exists>li' m'. estrai_segmento (Some f) lim li m = Inr (entry_point e, li', m') \<and>
    li_testa li' = li_testa li \<and> caricato_bene f lim (segmenti e) m m'"
proof -
  have "exe_ok f e" using interpreta_ok [OF assms(2)] assms(3) by (simp add: ben_formato_def)
  then obtain m' where m': "carica lim e m = Inr m'" "caricato_bene f lim (segmenti e) m m'"
    using carica_bene assms(3,4) by blast
  obtain l' where l': "riconosci (li_rewind li) f = Inr (Some e, l')"
    using riconosci_accept [of i "li_rewind li" f] assms(1,2) by (auto simp: li_rewind_def)
  then have "li_testa l' = li_testa li" using riconosci_testa by (fastforce simp: li_rewind_def)
  then show ?thesis using l' m' by (auto simp: estrai_segmento_def)
qed

text \<open>
  (C7) Loading: a file that one of the registered interpreters accepts and whose segments are well
  formed is loaded completely, whatever the memory held before. The entry point is the one of
  the header. Every loadable segment that ends inside the destination, and that no later one
  overwrites, is found at its address with its bytes from the file followed by zeros up to its
  memory size; segments that do not fit are skipped; and no other byte of the memory changes.
\<close>

theorem elf_load:
  assumes "i \<in> set (li_testa li)" "interpreta i f = Inr (Some e)" "ben_formato f e" "unat lim \<le> length m"
  shows "\<exists>li' m'. estrai_segmento (Some f) lim li m = Inr (entry_point e, li', m') \<and>
    caricato_bene f lim (segmenti e) m m'"
  using estrai_bene [OF assms] by blast

text \<open>A 64-bit file with a note and one segment of four bytes for address 2 that takes up six.\<close>

definition example_elf :: exe_file where
  "example_elf =
     [0x7f, 0x45, 0x4c, 0x46, 2, 1, 1] @ replicate 9 0 @ le_bytes 2 2 @ le_bytes 2 62 @ le_bytes 4 1 @
     le_bytes 8 3 @ le_bytes 8 64 @ le_bytes 8 0 @ le_bytes 4 0 @
     le_bytes 2 64 @ le_bytes 2 56 @ le_bytes 2 2 @ le_bytes 2 64 @ le_bytes 2 0 @ le_bytes 2 0 @
     le_bytes 4 4 @ le_bytes 4 4 @ replicate 48 0 @
     le_bytes 4 1 @ le_bytes 4 5 @ le_bytes 8 176 @ le_bytes 8 2 @ le_bytes 8 2 @
     le_bytes 8 4 @ le_bytes 8 6 @ le_bytes 8 1 @
     [0xDE, 0xAD, 0xBE, 0xEF]"

definition registrati :: ListaInterpreti where
  "registrati = aggiungi int_elf64 (aggiungi int_elf32 ListaInterpreti_new)"

definition example_seg :: SegmentoElf64 where
  "example_seg = \<lparr>s64_ph = \<lparr>p64_type = 1, p64_flags = 5, p64_offset = 176, p64_vaddr = 2, p64_paddr = 2,
     p64_filesz = 4, p64_memsz = 6, p64_align = 1\<rparr>, s64_curr_offset = 0, s64_curr = 180,
     s64_da_leggere = 180, s64_ancora = 6\<rparr>"

definition example_exe :: EseguibileElf64 where
  "example_exe = \<lparr>x64_file = example_elf, x64_h = Elf64_Ehdr_at example_elf,
     x64_seg_buf = get_bytes 64 112 example_elf, x64_sec_buf = [], x64_curr_seg = 0\<rparr>"

lemma example_init: "interpreta int_elf64 example_elf = Inr (Some (Exe64 example_exe))"
proof -
  have "EseguibileElf64_init example_elf = Inr (Some example_exe)" by code_simp
  then show ?thesis by (simp add: InterpreteElf64_interpreta_def)
qed

lemma example_segments: "elf64_segments example_exe = [example_seg]"
  by code_simp

lemma example_image: "elf64_image example_elf example_seg = [0xDE, 0xAD, 0xBE, 0xEF, 0, 0]"
  by code_simp

lemma example_header:
  "e64_entry (x64_h example_exe) = 3" "e64_phentsize (x64_h example_exe) = 56" "length example_elf = 180"
  by code_simp+

lemma example_seg_fields:
  "SegmentoElf64_ind_virtuale example_seg = 2" "SegmentoElf64_dimensione example_seg = 6" "fine (Seg64 example_seg) = 8"
  by (simp_all add: fine_def SegmentoElf64_ind_virtuale_def SegmentoElf64_dimensione_def example_seg_def)

lemma example_ben_formato: "ben_formato example_elf (Exe64 example_exe)"
proof -
  have "elf64_seg_ok example_elf example_seg"
    by (simp add: elf64_seg_ok_def example_header fseek_ok_def) (simp add: example_seg_def)
  then show ?thesis by (simp add: ben_formato_def example_header example_segments example_seg_fields)
qed

theorem elf_load_witness:
  "\<exists>li' m'. estrai_segmento (Some example_elf) 16 registrati (replicate 16 0xFF) = Inr (3, li', m') \<and>
     get_bytes 2 6 m' = [0xDE, 0xAD, 0xBE, 0xEF, 0, 0] \<and> get_bytes 8 8 m' = get_bytes 8 8 (replicate 16 0xFF)"
proof -
  have "int_elf64 \<in> set (li_testa registrati)" by (simp add: registrati_def aggiungi_def)
  from elf_load [OF this example_init example_ben_formato, of 16 "replicate 16 0xFF"]
  obtain li' m' where r: "estrai_segmento (Some example_elf) 16 registrati (replicate 16 0xFF) = Inr (3, li', m')"
    "caricato_bene example_elf 16 [Seg64 example_seg] (replicate 16 0xFF) m'"
    by (auto simp: EseguibileElf64_entry_point_def example_header example_segments)
  from r(2) have "get_bytes 2 6 m' = [0xDE, 0xAD, 0xBE, 0xEF, 0, 0]"
    unfolding caricato_bene_def
    by (elim conjE allE [of _ "[]"] allE [of _ "Seg64 example_seg"])
       (simp add: example_seg_fields example_image)
  moreover from r(2) have "get_bytes 8 8 m' = get_bytes 8 8 (replicate 16 0xFF)"
    unfolding caricato_bene_def by (simp add: example_seg_fields separati_def)
  ultimately show ?thesis using r(1) by blast
qed

text \<open>
  Recognition: exactly which files an interpreter does not decline. The fourth byte of the magic
  number plays no part, because the test repeats the third.
\<close>

theorem elf_recognition:
  "(interpreta int_elf64 f \<noteq> Inr None \<longleftrightarrow>
     64 \<le> length f \<and>
     (f ! 0 = 0x7f \<and> f ! 1 = 0x45 \<and> f ! 2 = 0x4c \<and> f ! 4 = 2 \<and> f ! 5 = 1 \<and>
        le_field 16 2 f = (2 :: u16) \<and> le_field 18 2 f = (62 :: u16))) \<and>
   (interpreta int_elf32 f \<noteq> Inr None \<longleftrightarrow>
     52 \<le> length f \<and>
     (f ! 0 = 0x7f \<and> f ! 1 = 0x45 \<and> f ! 2 = 0x4c \<and> f ! 4 = 1 \<and> f ! 5 = 1 \<and>
        le_field 16 2 f = (2 :: u16) \<and> le_field 18 2 f = (3 :: u16)))"
  by (auto simp: InterpreteElf32_interpreta_def InterpreteElf64_interpreta_def EseguibileElf64_init_def
      EseguibileElf32_init_def Let_def elf64_magic_ok_def elf32_magic_ok_def elf64_kind_ok_def elf32_kind_ok_def
      Elf64_Ehdr_at_def Elf32_Ehdr_at_def get_bytes_def split: if_splits)

section \<open>Memory safety of the loader\<close>

primrec file_dim :: "segmento \<Rightarrow> u64" where
  "file_dim (Seg32 s) = SegmentoElf32_dimensione_filesz s"
| "file_dim (Seg64 s) = SegmentoElf64_dimensione_filesz s"

primrec file_off :: "segmento \<Rightarrow> int" where
  "file_off (Seg32 s) = uint (p32_offset (s32_ph s))"
| "file_off (Seg64 s) = sint (p64_offset (s64_ph s))"

lemma copia_segmento_eq:
  "copia_segmento f s a m =
     (if \<not> fseek_ok (file_off s) then Inl ExitFailure
      else bind_res (fread_into f (nat (file_off s)) (unat (file_dim s)) a m) (\<lambda>(n, m1).
        if dimensione s > file_dim s then
          bind_res (memset (a + unat (file_dim s)) 0 (unat (dimensione s - file_dim s)) m1) (\<lambda>m2.
            Inr (of_nat n + (dimensione s - file_dim s), m2))
        else Inr (of_nat n, m1)))"
proof (cases s)
  case (Seg32 x)
  show ?thesis 
    by (simp only: Seg32 copia_segmento.simps file_off.simps file_dim.simps dimensione.simps
        SegmentoElf32_copia_segmento_def Let_def)
next
  case (Seg64 x)
  show ?thesis 
    by (simp only: Seg64 copia_segmento.simps file_off.simps file_dim.simps dimensione.simps
        SegmentoElf64_copia_segmento_def Let_def)
qed

lemma fread_into_safe:
  assumes "a + n \<le> length m"
  shows "\<exists>k m1. fread_into f pos n a m = Inr (k, m1) \<and> length m1 = length m"
proof -
  have "length (get_bytes pos n f) \<le> n" by (simp add: get_bytes_def)
  then show ?thesis using assms by (simp add: fread_into_def store_bytes_def Let_def length_put_bytes)
qed

lemma copia_segmento_safe:
  assumes "file_dim s \<le> dimensione s" "a + unat (dimensione s) \<le> length m"
  shows "copia_segmento f s a m = Inl ExitFailure \<or>
    (\<exists>n m'. copia_segmento f s a m = Inr (n, m') \<and> length m' = length m)"
proof -
  have le: "unat (file_dim s) \<le> unat (dimensione s)" using assms(1) by (simp add: word_le_nat_alt)
  then obtain k m1 where m1: "fread_into f (nat (file_off s)) (unat (file_dim s)) a m = Inr (k, m1)" "length m1 = length m"
    using fread_into_safe [of a "unat (file_dim s)" m f "nat (file_off s)"] assms(2) by auto
  have "unat (dimensione s - file_dim s) = unat (dimensione s) - unat (file_dim s)"
    using assms(1) by (simp add: unat_sub)
  then have "memset (a + unat (file_dim s)) 0 (unat (dimensione s - file_dim s)) m1 =
      Inr (put_bytes (a + unat (file_dim s)) (replicate (unat (dimensione s - file_dim s)) 0) m1)"
    using assms(2) m1(2) le by (intro memset_ok) simp
  then show ?thesis
    using m1 le assms(2) \<open>unat (dimensione s - file_dim s) = _\<close>
    by (auto simp: copia_segmento_eq length_put_bytes)
qed

lemma carica_safe:
  assumes "exe_ok f e" "\<forall>s \<in> set (segmenti e). file_dim s \<le> dimensione s \<and> fine s < 2 ^ 64" "unat lim \<le> length m"
  shows "carica lim e m = Inl ExitFailure \<or> (\<exists>m'. carica lim e m = Inr m' \<and> length m' = length m)"
  using assms
proof (induction "segmenti e" arbitrary: e m)
  case Nil
  then show ?case using exe.loop_eq [of f e lim m] exe.next_none [of f e] by simp
next
  case (Cons s ss)
  obtain e' where e': "prossimo_segmento e = Inr (Some (s, e'))" "exe_ok f e'" "segmenti e' = ss"
    using exe.next_some [OF Cons.prems(1) Cons.hyps(2) [symmetric]] by blast
  note eq = exe.loop_eq [OF Cons.prems(1), of lim m]
  have IH: "carica lim e' m' = Inl ExitFailure \<or> (\<exists>m2. carica lim e' m' = Inr m2 \<and> length m2 = length m)"
    if "length m' = length m" for m'
    using Cons.hyps(1) [of e' m'] e' Cons.prems(2,3) Cons.hyps(2) [symmetric] that by simp
  have s: "file_dim s \<le> dimensione s" "fine s < 2 ^ 64" using Cons.prems(2) Cons.hyps(2) [symmetric] by simp_all
  show ?case
  proof (cases "lim < ind_virtuale s + dimensione s")
    case True
    then show ?thesis using eq e'(1) IH [OF refl] by simp
  next
    case False
    have "unat (ind_virtuale s + dimensione s) = fine s" using s(2) by (simp add: fine_def unat_word_ariths)
    then have "unat (ind_virtuale s) + unat (dimensione s) \<le> length m"
      using False Cons.prems(3) by (simp add: word_less_nat_alt fine_def)
    then consider "copia_segmento f s (unat (ind_virtuale s)) m = Inl ExitFailure"
      | n m' where "copia_segmento f s (unat (ind_virtuale s)) m = Inr (n, m')" "length m' = length m"
      using copia_segmento_safe [OF s(1), of "unat (ind_virtuale s)" m f] by blast
    then show ?thesis
    proof cases
      case 1
      then show ?thesis using eq e'(1) False by simp
    next
      case 2
      then show ?thesis using eq e'(1) False IH [OF 2(2)] by simp
    qed
  qed
qed



theorem elf_registration_order_witness:
  "carico (estrai_segmento (Some example_elf) 16 registrati (replicate 16 0)) =
   carico (estrai_segmento (Some example_elf) 16
     (aggiungi int_elf32 (aggiungi int_elf64 ListaInterpreti_new)) (replicate 16 0))"
  by (rule elf_registration_order) (auto simp: registrati_def aggiungi_def ListaInterpreti_new_def)

end
