(* ===== verification/Boot.thy ===== *)
theory Boot
  imports Bootloader ElfLoader
begin

text \<open>
  Starting the guest: \<open>Bootloader::run_long_mode\<close>, and what it leaves in the guest memory after
  \<open>main\<close> of \<open>kvm.cpp\<close> has loaded the target program. The file \<open>build/boot64\<close> and the program are arguments.
\<close>

section \<open>The operation\<close>

definition run_long_mode ::
  "bootloader \<Rightarrow> kvm_sregs \<Rightarrow> exe_file option \<Rightarrow> ListaInterpreti \<Rightarrow> guest_mem \<Rightarrow>
   (kvm_sregs \<times> kvm_regs \<times> ListaInterpreti \<times> guest_mem) run" where
  "run_long_mode bl sregs boot64 li m =
     bind_res (lift_res (setup_protected_mode sregs m)) (\<lambda>(s1, m1).
     bind_res (lift_res (setup_page_tables bl s1 m1)) (\<lambda>(s2, m2).
     bind_res (estrai_segmento boot64 0x10000 li m2) (\<lambda>(rip, li', m3).
       Inr (s2, \<lparr>rg_rflags = 2, rg_rip = rip, rg_rsp = 0, rg_rdi = bl_entry_point bl\<rparr>, li', m3))))"

section \<open>Memory above and below the tables\<close>

lemma nth_get_bytes: "i < n \<Longrightarrow> a + n \<le> length m \<Longrightarrow> get_bytes a n m ! i = m ! (a + i)"
  by (simp add: get_bytes_def)

text \<open>Two memories that agree on the 64-bit words from slot \<open>b\<close> on agree on the bytes.\<close>

lemma slots_bytes:
  assumes "length m' = length m" "8 dvd length m"
    "\<And>j. b \<le> j \<Longrightarrow> j < length m div 8 \<Longrightarrow> get64 (8 * j) m' = get64 (8 * j) m"
    "8 * b \<le> a" "a + n \<le> length m"
  shows "get_bytes a n m' = get_bytes a n m"
proof (rule nth_equalityI)
  show "length (get_bytes a n m') = length (get_bytes a n m)" using assms(1) by (simp add: get_bytes_def)
  fix i assume "i < length (get_bytes a n m')"
  then have i: "i < n" using assms(1,5) by (simp add: length_get_bytes)
  let ?j = "(a + i) div 8" and ?r = "(a + i) mod 8"
  have j: "b \<le> ?j" "?j < length m div 8"
    using assms(2,4,5) i by (auto elim!: dvdE simp: less_mult_imp_div_less mult.commute)
  then have len: "8 * ?j + 8 \<le> length m" by linarith
  have "m' ! (8 * ?j + ?r) = m ! (8 * ?j + ?r)"
    using get64_bytes [OF len] get64_bytes [of "8 * ?j" m'] assms(1,3) j len
      nth_get_bytes [of ?r 8 "8 * ?j" m] nth_get_bytes [of ?r 8 "8 * ?j" m'] by simp
  then have "m' ! (a + i) = m ! (a + i)" by simp
  then show "get_bytes a n m' ! i = get_bytes a n m ! i"
    using i assms(1,5) by (simp add: nth_get_bytes)
qed

lemma get_bytes_drop: "b \<le> a \<Longrightarrow> get_bytes a n m = get_bytes (a - b) n (drop b m)"
  by (simp add: get_bytes_def)

lemma get_bytes_get64: "get_bytes a 8 m' = get_bytes a 8 m \<Longrightarrow> get64 a m' = get64 a m"
  by (simp add: get64_def)

text \<open>The tables survive any change below them.\<close>

lemma tables_for_below:
  assumes "tables_for lst n m m'" "length m'' = length m" "0x10000 \<le> length m"
    "\<And>j. 0x2000 \<le> j \<Longrightarrow> get64 (8 * j) m'' = get64 (8 * j) m'"
  shows "tables_for lst n (get_bytes 0 0x10000 m'' @ drop 0x10000 m) m''"
proof -
  let ?M = "get_bytes 0 0x10000 m'' @ drop 0x10000 m"
  have len: "length ?M = length m" using assms(2,3) by (simp add: get_bytes_def)
  have low: "get64 (8 * j) ?M = get64 (8 * j) m''" if "j < 0x2000" for j
    using that assms(2,3) by (intro get_bytes_get64) (simp add: get_bytes_def drop_take)
  have high: "get64 (8 * j) ?M = get64 (8 * j) m" if "0x2000 \<le> j" for j
    using that assms(2,3) by (intro get_bytes_get64) (simp add: get_bytes_def)
  have up: "get64 (8 * j) m'' = get64 (8 * j) m'" if "0x2000 \<le> j" for j using assms(4) that .
  note t = assms(1) [unfolded tables_for_def]
  show ?thesis
    unfolding tables_for_def
  proof (intro conjI allI impI)
    show "get64 (8 * 0x4000) m'' = table_entry 0x30000" using t up [of "0x4000"] by simp
    show "get64 (8 * (0x6000 + i3)) m'' = table_entry (of_nat (0x40000 + 0x10000 * i3))" if "i3 \<le> lst" for i3
      using t up [of "0x6000 + i3"] that by simp
    show "get64 (8 * j) m'' = pd_entry lst n i3 (j - (0x8000 + 0x2000 * i3)) (get64 (8 * j) ?M)"
      if "i3 \<le> lst" "in_table i3 j" for i3 j
    proof -
      have "0x2000 \<le> j" using that(2) by (simp add: in_table_def)
      then show ?thesis using t up [of j] high [of j] that by simp
    qed
    show "get64 (8 * 0x6003) m'' = table_entry (of_nat (0x40000 + 0x10000 * (lst + 1)))"
      using t up [of "0x6003"] by simp
    show "get64 (8 * (0x8000 + 0x2000 * (lst + 1) + 502)) m'' = page_entry 0xfec00000"
      using t up [of "0x8000 + 0x2000 * (lst + 1) + 502"] by simp
    show "get64 (8 * (0x8000 + 0x2000 * (lst + 1) + 503)) m'' = page_entry 0xfee00000"
      using t up [of "0x8000 + 0x2000 * (lst + 1) + 503"] by simp
    fix j
    assume j: "j < length ?M div 8"
      "j \<noteq> 0x4000 \<and> (j < 0x6000 \<or> 0x6003 < j) \<and> (\<forall>i3\<le>lst + 1. \<not> in_table i3 j)"
    show "get64 (8 * j) m'' = get64 (8 * j) ?M"
    proof (cases "j < 0x2000")
      case True
      then show ?thesis using low by simp
    next
      case False
      moreover have "get64 (8 * j) m' = get64 (8 * j) m" using t j len by simp
      ultimately show ?thesis using up [of j] high [of j] by simp
    qed
  qed
qed

lemma caricato_above:
  assumes "caricato_bene f lim ss m m'" "unat lim \<le> a" "a + n \<le> length m"
  shows "get_bytes a n m' = get_bytes a n m"
proof -
  have "\<forall>s \<in> set ss. unat lim < fine s \<or> separati a n s" using assms(2) by (auto simp: separati_def)
  then show ?thesis using assms(1,3) by (simp add: caricato_bene_def)
qed

lemma caricato_length: "caricato_bene f lim ss m m' \<Longrightarrow> length m' = length m"
  by (simp add: caricato_bene_def)

lemma caricato_image:
  assumes "caricato_bene f lim (ss1 @ s # ss2) m m'" "fine s \<le> unat lim"
    "\<forall>s' \<in> set ss2. unat lim < fine s' \<or> separati (unat (ind_virtuale s)) (unat (dimensione s)) s'"
  shows "get_bytes (unat (ind_virtuale s)) (unat (dimensione s)) m' = immagine f s"
  using assms unfolding caricato_bene_def by blast

text \<open>The tables map the first \<open>n\<close> bytes to themselves, whatever the 64 KiB below the tables hold.\<close>

definition maps_itself :: "nat \<Rightarrow> guest_mem \<Rightarrow> bool" where
  "maps_itself n m \<longleftrightarrow>
     (\<forall>low va. length low = 0x10000 \<and> va < n \<longrightarrow> page_walk (low @ drop 0x10000 m) 0x20000 va = Some va)"

lemma maps_itself_walk:
  assumes "maps_itself n m" "drop 0x10000 m' = drop 0x10000 m" "0x10000 \<le> length m'" "va < n"
  shows "page_walk m' 0x20000 va = Some va"
proof -
  have "take 0x10000 m' @ drop 0x10000 m = m'" using assms(2) append_take_drop_id by metis
  then show ?thesis using assms unfolding maps_itself_def by (metis length_take min.absorb2)
qed

text \<open>What \<open>run_long_mode\<close> does to a memory of the given size.\<close>

lemma run_long_mode_result:
  assumes "length m = unat sz" "bl_guest_mem_size bl = sz" "2 ^ 21 dvd unat sz" "0x80000 \<le> unat sz"
    "unat sz < 3 * 2 ^ 30" "j \<in> set (li_testa li)" "interpreta j boot = Inr (Some eb)" "ben_formato boot eb"
  shows "\<exists>s r li' m2 m'. run_long_mode bl sregs (Some boot) li m = Inr (s, r, li', m') \<and> length m' = length m \<and>
    rg_rip r = entry_point eb \<and> rg_rdi r = bl_entry_point bl \<and> sr_cr3 s = 0x20000 \<and> sr_cr0 s = 0x11 \<and>
    sr_cr4 s = sr_cr4 sregs \<and> sr_efer s = sr_efer sregs \<and> sr_cs s = code_segment \<and> sr_ds s = data_segment \<and>
    maps_itself (unat sz) m' \<and> sr_gdt_base s = 0x10000 \<and> get64 0x10008 m' = 0x00CF9A000000FFFF \<and> get64 0x10010 m' = 0x00CF93000000FFFF \<and>
    (\<forall>va<unat sz. page_walk m' 0x20000 va = Some va) \<and>
    (\<forall>a n. 0x80000 \<le> a \<and> a + n \<le> length m \<longrightarrow> get_bytes a n m' = get_bytes a n m) \<and>
    caricato_bene boot 0x10000 (segmenti eb) m2 m'"
proof -
  let ?L = "unat sz div 2 ^ 30" let ?n = "unat sz mod 2 ^ 30 div 2 ^ 21"
  have big: "0x80000 \<le> length m" using assms(1,4) by simp
  have "(8 :: nat) dvd 2 ^ 21" by simp
  then have dvd: "8 dvd length m" using assms(1,3) dvd_trans by metis
  have L: "?L \<le> 2" using less_mult_imp_div_less [of "unat sz" 3 "2 ^ 30"] assms(5) by simp
  obtain s1 m1 where p: "setup_protected_mode sregs m = Inr (s1, m1)" "length m1 = length m"
    "sr_gdt_base s1 = 0x10000" "bit (sr_cr0 s1) 0"
    "\<forall>j<length m div 8. get64 (8 * j) m1 =
       (if j = 0x2001 then 0x00CF9A000000FFFF else if j = 0x2002 then 0x00CF93000000FFFF else get64 (8 * j) m)"
    using protected_mode_result [OF big] by blast
  obtain m2 where t: "setup_page_tables bl s1 m1 = Inr (s1\<lparr>sr_cr3 := 0x20000\<rparr>, m2)" "length m2 = length m1"
    "tables_for ?L ?n m1 m2"
    using page_tables_result [OF assms(2,5), of m1 s1] big p(2) by auto
  have lim: "unat (0x10000 :: u64) \<le> length m2" using big p(2) t(2) by simp
  obtain li' m3 where b: "estrai_segmento (Some boot) 0x10000 li m2 = Inr (entry_point eb, li', m3)"
    "caricato_bene boot 0x10000 (segmenti eb) m2 m3"
    using estrai_bene [OF assms(6-8) lim] by blast
  have len: "length m3 = length m" "length m2 = length m"
    using caricato_length [OF b(2)] t(2) p(2) by simp_all
  have above: "get_bytes a n m3 = get_bytes a n m2" if "0x10000 \<le> a" "a + n \<le> length m" for a n
    using caricato_above [OF b(2)] that len by simp
  have "drop 0x10000 m3 = drop 0x10000 m2"
    using above [of "0x10000" "length m - 0x10000"] big len by (simp add: get_bytes_def)
  then have slots: "get64 (8 * j) m3 = get64 (8 * j) m2" if "0x2000 \<le> j" for j
    using that get_bytes_drop [of "0x10000" "8 * j" 8 m2] get_bytes_drop [of "0x10000" "8 * j" 8 m3]
    by (intro get_bytes_get64) simp
  have itself: "maps_itself (unat sz) m3"
    unfolding maps_itself_def
  proof (intro allI impI)
    fix low :: "u8 list" and va
    assume a: "length low = 0x10000 \<and> va < unat sz"
    let ?M = "low @ drop 0x10000 m3"
    have "length ?M = length m1" using a len big p(2) by simp
    moreover have "get64 (8 * j) ?M = get64 (8 * j) m2" if "0x2000 \<le> j" for j
      using that a slots [OF that] get_bytes_drop [of "0x10000" "8 * j" 8 ?M] get_bytes_drop [of "0x10000" "8 * j" 8 m3]
      by (simp add: get64_def)
    ultimately show "page_walk ?M 0x20000 va = Some va"
      using tables_identity(1) [OF assms(3,5) tables_for_below [OF t(3), of ?M]] a big p(2) by simp
  qed
  have walk: "page_walk m3 0x20000 va = Some va" if "va < unat sz" for va
    using maps_itself_walk [OF itself refl] that len big by simp
  have low: "get64 (8 * j) m2 = get64 (8 * j) m1" if "j < 0x4000" for j
    using tables_identity(4) [OF assms(3,5) t(3), of j] that big p(2) by simp
  have gdt: "get64 0x10008 m3 = 0x00CF9A000000FFFF" "get64 0x10010 m3 = 0x00CF93000000FFFF"
    using slots [of "0x2001"] slots [of "0x2002"] low [of "0x2001"] low [of "0x2002"]
      p(5) [rule_format, of "0x2001"] p(5) [rule_format, of "0x2002"] big by simp_all
  have same: "get_bytes a n m3 = get_bytes a n m" if "0x80000 \<le> a" "a + n \<le> length m" for a n
  proof -
    have "get_bytes a n m3 = get_bytes a n m2" using above that by simp
    also have "\<dots> = get_bytes a n m1"
      using tables_identity(4) [OF assms(3,5) t(3)] L dvd that p(2) t(2)
      by (intro slots_bytes [where b = "0x10000"]) auto
    also have "\<dots> = get_bytes a n m"
      using p(5) dvd that p(2) by (intro slots_bytes [where b = "0x10000"]) auto
    finally show ?thesis .
  qed
  have "sr_cr0 s1 = 0x11 \<and> sr_cr4 s1 = sr_cr4 sregs \<and> sr_efer s1 = sr_efer sregs \<and> sr_cs s1 = code_segment \<and>
      sr_ds s1 = data_segment"
    using p(1) by (auto simp: setup_protected_mode_def bind_res_eq_Inr Let_def)
  moreover have "run_long_mode bl sregs (Some boot) li m =
      Inr (s1\<lparr>sr_cr3 := 0x20000\<rparr>, \<lparr>rg_rflags = 2, rg_rip = entry_point eb, rg_rsp = 0, rg_rdi = bl_entry_point bl\<rparr>, li', m3)"
    using p(1) t(1) b(1) by (simp add: run_long_mode_def)
  ultimately show ?thesis
    using p(3) itself b(2) len(1) walk gdt same
    by (intro exI [of _ "s1\<lparr>sr_cr3 := 0x20000\<rparr>"]) fastforce
qed

section \<open>Starting a program\<close>

text \<open>Every segment of the program that lies above 0x80000, and that no later one overlaps, is in memory.\<close>

definition program_in_place :: "u32 \<Rightarrow> exe_file \<Rightarrow> eseguibile \<Rightarrow> guest_mem \<Rightarrow> bool" where
  "program_in_place sz prog ep m \<longleftrightarrow>
    (\<forall>ss1 s ss2. segmenti ep = ss1 @ s # ss2 \<and> 0x80000 \<le> unat (ind_virtuale s) \<and> fine s \<le> unat sz \<and>
       (\<forall>s' \<in> set ss2. unat sz < fine s' \<or> separati (unat (ind_virtuale s)) (unat (dimensione s)) s') \<longrightarrow>
       get_bytes (unat (ind_virtuale s)) (unat (dimensione s)) m = immagine prog s)"

text \<open>
  A guest that is ready to run: the processor starts at the entry point of the boot file with the
  entry point of the program in \<open>rdi\<close>, in protected mode with the flat descriptors in place; the
  page tables at \<open>cr3\<close> map the whole memory to itself; the segments of the program above 0x80000 are in
  memory untouched by the tables and by the boot file; and every segment of the boot
  file that fits the first 64 KiB is in place.
\<close>

definition guest_ready ::
  "u32 \<Rightarrow> exe_file \<Rightarrow> eseguibile \<Rightarrow> exe_file \<Rightarrow> eseguibile \<Rightarrow> kvm_sregs \<Rightarrow> kvm_regs \<Rightarrow> guest_mem \<Rightarrow> bool" where
  "guest_ready sz prog ep boot eb s r m \<longleftrightarrow>
    length m = unat sz \<and> rg_rip r = entry_point eb \<and> rg_rdi r = entry_point ep \<and>
    sr_cr3 s = 0x20000 \<and> sr_cr0 s = 0x11 \<and> sr_cs s = code_segment \<and> sr_ds s = data_segment \<and>
    maps_itself (unat sz) m \<and> sr_gdt_base s = 0x10000 \<and>
    get64 0x10008 m = 0x00CF9A000000FFFF \<and> get64 0x10010 m = 0x00CF93000000FFFF \<and>
    (\<forall>va<unat sz. page_walk m 0x20000 va = Some va) \<and>
    program_in_place sz prog ep m \<and>
    (\<forall>ss1 s ss2. segmenti eb = ss1 @ s # ss2 \<and> fine s \<le> 0x10000 \<and>
       (\<forall>s' \<in> set ss2. 0x10000 < fine s' \<or> separati (unat (ind_virtuale s)) (unat (dimensione s)) s') \<longrightarrow>
       get_bytes (unat (ind_virtuale s)) (unat (dimensione s)) m = immagine boot s)"

lemma program_in_place_above:
  assumes "program_in_place sz prog ep m" "drop 0x10000 m' = drop 0x10000 m"
  shows "program_in_place sz prog ep m'"
proof -
  have "get_bytes a n m' = get_bytes a n m" if "0x80000 \<le> a" for a n
    using that assms(2) get_bytes_drop [of "0x10000" a n m] get_bytes_drop [of "0x10000" a n m'] by simp
  then show ?thesis using assms(1) unfolding program_in_place_def by auto
qed

lemma guest_ready_boot:
  assumes "guest_ready sz prog ep boot eb s r m" "segmenti eb = ss1 @ d # ss2" "fine d \<le> 0x10000"
    "\<forall>s' \<in> set ss2. 0x10000 < fine s' \<or> separati (unat (ind_virtuale d)) (unat (dimensione d)) s'"
  shows "get_bytes (unat (ind_virtuale d)) (unat (dimensione d)) m = immagine boot d"
  using assms unfolding guest_ready_def by blast

text \<open>For every memory size \<open>main\<close> can choose, and well-formed files, the guest gets ready.\<close>

lemma guest_becomes_ready:
  assumes "length m = unat sz" "2 ^ 21 dvd unat sz" "0x80000 \<le> unat sz" "unat sz < 3 * 2 ^ 30"
    "i \<in> set (li_testa li)" "interpreta i prog = Inr (Some ep)" "ben_formato prog ep"
    "j \<in> set (li_testa li)" "interpreta j boot = Inr (Some eb)" "ben_formato boot eb"
  shows "\<exists>s r li1 m1 li2 m2. estrai_segmento (Some prog) (ucast sz) li m = Inr (entry_point ep, li1, m1) \<and>
    run_long_mode (Bootloader_new (ucast sz) (entry_point ep) 0x400000) sregs (Some boot) li1 m1 = Inr (s, r, li2, m2) \<and>
    guest_ready sz prog ep boot eb s r m2"
proof -
  have sz: "unat (ucast sz :: u64) = unat sz"
    using unsigned_less [where w = sz and 'a = nat] by (simp add: unsigned_ucast_eq take_bit_nat_eq_self)
  obtain li1 m1 where l: "estrai_segmento (Some prog) (ucast sz) li m = Inr (entry_point ep, li1, m1)"
    "li_testa li1 = li_testa li" "caricato_bene prog (ucast sz) (segmenti ep) m m1"
    using estrai_bene [OF assms(5-7), of "ucast sz" m] assms(1) sz by auto
  let ?bl = "Bootloader_new (ucast sz) (entry_point ep) 0x400000"
  have bl: "bl_guest_mem_size ?bl = ucast sz" "bl_entry_point ?bl = entry_point ep"
    by (simp_all add: Bootloader_new_def)
  obtain s r li' m2 m' where r: "run_long_mode ?bl sregs (Some boot) li1 m1 = Inr (s, r, li', m')"
    "length m' = length m1" "rg_rip r = entry_point eb" "rg_rdi r = entry_point ep" "sr_cr3 s = 0x20000"
    "sr_cr0 s = 0x11" "sr_cs s = code_segment" "sr_ds s = data_segment" "maps_itself (unat sz) m'"
    "sr_gdt_base s = 0x10000" "get64 0x10008 m' = 0x00CF9A000000FFFF"
    "get64 0x10010 m' = 0x00CF93000000FFFF" "\<forall>va<unat sz. page_walk m' 0x20000 va = Some va"
    "\<forall>a n. 0x80000 \<le> a \<and> a + n \<le> length m1 \<longrightarrow> get_bytes a n m' = get_bytes a n m1"
    "caricato_bene boot 0x10000 (segmenti eb) m2 m'"
    using run_long_mode_result [OF _ bl(1), of m1 j li1 boot eb sregs] assms(1-4,8-10) l(2) sz
      caricato_length [OF l(3)] bl(2) by auto
  have prog: "get_bytes (unat (ind_virtuale s)) (unat (dimensione s)) m' = immagine prog s"
    if "segmenti ep = ss1 @ s # ss2" "0x80000 \<le> unat (ind_virtuale s)" "fine s \<le> unat sz"
      "\<forall>s' \<in> set ss2. unat sz < fine s' \<or> separati (unat (ind_virtuale s)) (unat (dimensione s)) s'" for ss1 s ss2
    using caricato_image [of prog "ucast sz" ss1 s ss2 m m1] l(3) that sz r(14) assms(1)
      caricato_length [OF l(3)] by (simp add: fine_def)
  have boot: "get_bytes (unat (ind_virtuale s)) (unat (dimensione s)) m' = immagine boot s"
    if "segmenti eb = ss1 @ s # ss2" "fine s \<le> 0x10000"
      "\<forall>s' \<in> set ss2. 0x10000 < fine s' \<or> separati (unat (ind_virtuale s)) (unat (dimensione s)) s'" for ss1 s ss2
    using caricato_image [of boot "0x10000" ss1 s ss2 m2 m'] r(15) that by simp
  have "length m' = unat sz" using r(2) caricato_length [OF l(3)] assms(1) by simp
  then have "guest_ready sz prog ep boot eb s r m'" using r(3-13) prog boot
    unfolding guest_ready_def program_in_place_def by blast
  then show ?thesis using l(1) r(1) by blast
qed

end
