(* ===== verification/ConsoleOutput.thy ===== *)
theory ConsoleOutput
  imports VgaController GuestMemory
begin

text \<open>
  The text console, \<open>backend/ConsoleOutput.h\<close> and \<open>backend/ConsoleOutput.cpp\<close>: a thread that copies
  the video memory to the terminal as characters and escape sequences, and a thread that toggles
  the blink flag. The flag is read under a mutex while a frame is written, so its value at each
  read is a parameter of the frame; so are the size of the terminal window and the guest memory.
\<close>

section \<open>State\<close>

text \<open>Threads as the handles see them (zero or not); the video matrix as its offset in guest memory.\<close>

record console_output =
  co_videoThread :: bool
  co_cursorBlink :: bool
  co_vga :: bool
  co_isBlinking :: bool
  co_videoMatrix :: "nat option"

definition console_output_new :: console_output where
  "console_output_new = \<lparr>co_videoThread = False, co_cursorBlink = False, co_vga = False, co_isBlinking = True,
     co_videoMatrix = None\<rparr>"

definition attachVGA :: "console_output \<Rightarrow> bool \<times> console_output" where
  "attachVGA c = (if co_vga c then (False, c) else (True, c\<lparr>co_vga := True\<rparr>))"

text \<open>On the path that creates the threads \<open>startThread\<close> has no \<open>return\<close>: there is no value (\<open>None\<close>).\<close>

definition startThread :: "vga_controller \<Rightarrow> console_output \<Rightarrow> bool option \<times> console_output" where
  "startThread g c =
     (if co_videoThread c \<or> co_cursorBlink c \<or> \<not> co_vga c then (Some False, c)
      else (None, c\<lparr>co_videoMatrix := vga_getVMem g, co_videoThread := True, co_cursorBlink := True\<rparr>))"

text \<open>One turn of the loop of \<open>_blinkThread\<close>.\<close>

definition blinkThread_turn :: "console_output \<Rightarrow> console_output" where
  "blinkThread_turn c = c\<lparr>co_isBlinking := \<not> co_isBlinking c\<rparr>"

section \<open>Colours\<close>

definition supportedTextColor :: "string list" where
  "supportedTextColor =
     [''30'', ''34'', ''32'', ''36'', ''31'', ''35'', ''33'', ''37'',
      ''1;30'', ''1;34'', ''1;32'', ''1;36'', ''1;31'', ''1;35'', ''1;33'', ''1;37'']"

definition supportedBackgroundColor :: "string list" where
  "supportedBackgroundColor = [''40'', ''44'', ''42'', ''46'', ''41'', ''45'', ''43'', ''47'']"

definition getTextColor :: "u32 \<Rightarrow> string" where
  "getTextColor code = (if code \<ge> 16 then supportedTextColor ! 0 else supportedTextColor ! unat code)"

definition getBackgroundColor :: "u32 \<Rightarrow> string" where
  "getBackgroundColor code = (if code \<ge> 8 then supportedBackgroundColor ! 0 else supportedBackgroundColor ! unat code)"

section \<open>A frame\<close>

abbreviation "ESC \<equiv> CHR 0x1B"

definition CLEAR :: string where "CLEAR = ESC # ''[2J''"
definition STANDARD_BACKGROUND :: string where "STANDARD_BACKGROUND = ESC # ''[30;40m''"
definition CURSOR_START :: string where "CURSOR_START = ESC # ''[0;0H''"
definition HIDE_CURSOR :: string where "HIDE_CURSOR = ESC # ''[?25l''"
definition UNDERLINED :: string where "UNDERLINED = ESC # ''[4m''"
definition RESTORE :: string where "RESTORE = ESC # ''[0m''"

text \<open>The fields of a cell of the video memory.\<close>

definition cell_char :: "u16 \<Rightarrow> char" where
  "cell_char temp = char_of (unat (ucast temp :: u8))"

definition textC :: "u16 \<Rightarrow> u32" where
  "textC temp = ucast (drop_bit 8 temp AND 0x000F)"

definition backg :: "u16 \<Rightarrow> u32" where
  "backg temp = ucast (drop_bit 12 (temp AND 0x7000))"

definition blinkC :: "u16 \<Rightarrow> bool" where
  "blinkC temp \<longleftrightarrow> drop_bit 15 (temp AND 0x8000) \<noteq> 0"

definition shown_char :: "bool \<Rightarrow> u16 \<Rightarrow> char" where
  "shown_char blinking temp = (if blinkC temp then (if blinking then cell_char temp else CHR '' '') else cell_char temp)"

definition toPrint :: "bool \<Rightarrow> u16 \<Rightarrow> string" where
  "toPrint blinking temp =
     ESC # CHR ''['' # getTextColor (textC temp) @ CHR '';'' # getBackgroundColor (backg temp) @
     CHR ''m'' # [shown_char blinking temp]"

text \<open>What is written for one cell; \<open>b1\<close> and \<open>b2\<close> are the flag at its two reads.\<close>

definition cell_out :: "bool \<Rightarrow> bool \<Rightarrow> bool \<Rightarrow> u16 \<Rightarrow> string" where
  "cell_out b1 b2 at_cursor temp =
     (if at_cursor then (if b2 then UNDERLINED @ toPrint b1 temp @ RESTORE else toPrint b1 temp)
      else toPrint b1 temp)"

definition vmem_cell :: "nat \<Rightarrow> guest_mem \<Rightarrow> nat \<Rightarrow> u16" where
  "vmem_cell start m k = of_nat (le_val (get_bytes (start + 2 * k) 2 m))"

definition vmem_read :: "nat option \<Rightarrow> guest_mem \<Rightarrow> nat \<Rightarrow> u16 res" where
  "vmem_read matrix m k =
     (case matrix of None \<Rightarrow> Inl NullDeref
      | Some start \<Rightarrow> if start + 2 * k + 2 \<le> length m then Inr (vmem_cell start m k) else Inl OutOfBounds)"

text \<open>The bodies of the two loops, and the loops: output in order, until a fault.\<close>

primrec collect :: "('a \<Rightarrow> 'b list res) \<Rightarrow> 'a list \<Rightarrow> 'b list res" where
  "collect f [] = Inr []"
| "collect f (x # xs) = bind_res (f x) (\<lambda>u. bind_res (collect f xs) (\<lambda>v. Inr (u @ v)))"

definition co_min :: "u16 \<Rightarrow> u16 \<Rightarrow> u16" where
  "co_min one two = (if one < two then one else two)"

definition row_out ::
  "(nat \<Rightarrow> bool \<times> bool) \<Rightarrow> nat \<Rightarrow> nat \<Rightarrow> u16 \<Rightarrow> nat option \<Rightarrow> guest_mem \<Rightarrow> nat \<Rightarrow> string res" where
  "row_out blink minRows minCols cursorIndex matrix m i =
     (let cursorX = cursorIndex mod 80; cursorY = cursorIndex div 80
      in bind_res
           (collect (\<lambda>j. bind_res (vmem_read matrix m (i * 80 + j)) (\<lambda>temp.
              Inr (cell_out (fst (blink (i * 80 + j))) (snd (blink (i * 80 + j)))
                     (unat cursorY * 80 + unat cursorX = i * 80 + j) temp))) [0..<minCols])
           (\<lambda>s. Inr (s @ STANDARD_BACKGROUND @ (if i \<noteq> minRows - 1 then [CHR 0x0A] else []))))"

record turn =
  tn_blink :: "nat \<Rightarrow> bool \<times> bool"
  tn_rows :: u16
  tn_cols :: u16
  tn_vga :: vga_controller
  tn_mem :: guest_mem

definition screen_frame :: "nat option \<Rightarrow> turn \<Rightarrow> string res" where
  "screen_frame matrix t =
     (let minRows = unat (co_min 25 (tn_rows t)); minCols = unat (co_min 80 (tn_cols t));
          cursorIndex = vga_cursorPosition (tn_vga t)
      in bind_res (collect (row_out (tn_blink t) minRows minCols cursorIndex matrix (tn_mem t)) [0..<minRows])
           (\<lambda>s. Inr (CURSOR_START @ s)))"

text \<open>\<open>_mainThread\<close> up to any number of turns of its endless loop.\<close>

definition mainThread :: "console_output \<Rightarrow> turn list \<Rightarrow> string res" where
  "mainThread c ts =
     bind_res (collect (screen_frame (co_videoMatrix c)) ts) (\<lambda>s. Inr (HIDE_CURSOR @ CLEAR @ s))"

section \<open>The terminal\<close>

text \<open>
  What a terminal that follows ECMA-48 makes of the bytes: a parser for control sequences and a
  pen that SGR parameters change; every other character is a glyph, drawn with the pen.
\<close>

record pen =
  pen_fg :: nat
  pen_bg :: nat
  pen_bold :: bool
  pen_under :: bool

definition default_pen :: pen where
  "default_pen = \<lparr>pen_fg = 7, pen_bg = 0, pen_bold = False, pen_under = False\<rparr>"

definition digit :: "char \<Rightarrow> nat" where
  "digit c = of_char c - 48"

definition sgr :: "string \<Rightarrow> pen \<Rightarrow> pen" where
  "sgr ps p =
     (let n = foldl (\<lambda>n c. 10 * n + digit c) 0 ps
      in if n = 0 then default_pen
         else if n = 1 then p\<lparr>pen_bold := True\<rparr>
         else if n = 4 then p\<lparr>pen_under := True\<rparr>
         else if 30 \<le> n \<and> n < 38 then p\<lparr>pen_fg := n - 30\<rparr>
         else if 40 \<le> n \<and> n < 48 then p\<lparr>pen_bg := n - 40\<rparr>
         else p)"

fun params :: "string \<Rightarrow> string list" where
  "params [] = [[]]"
| "params (c # cs) =
     (if c = CHR '';'' then [] # params cs
      else (case params cs of [] \<Rightarrow> [[c]] | q # qs \<Rightarrow> (c # q) # qs))"

datatype mode = Normal | Escape | Csi string

fun feed :: "char \<Rightarrow> mode \<times> pen \<times> (char \<times> pen) list \<Rightarrow> mode \<times> pen \<times> (char \<times> pen) list" where
  "feed c (Normal, p, gs) = (if c = ESC then (Escape, p, gs) else (Normal, p, gs @ [(c, p)]))"
| "feed c (Escape, p, gs) = (if c = CHR ''['' then (Csi [], p, gs) else (Normal, p, gs))"
| "feed c (Csi ps, p, gs) =
     (if c \<in> set ''0123456789;?'' then (Csi (ps @ [c]), p, gs)
      else if c = CHR ''m'' then (Normal, fold sgr (params ps) p, gs)
      else (Normal, p, gs))"

definition terminal :: "string \<Rightarrow> pen \<Rightarrow> (char \<times> pen) list" where
  "terminal s p = snd (snd (fold feed s (Normal, p, [])))"

text \<open>The VGA numbers its colours blue-green-red, the terminal red-green-blue.\<close>

definition ansi_of_vga :: "nat \<Rightarrow> nat" where
  "ansi_of_vga c = 4 * (c mod 2) + 2 * (c div 2 mod 2) + c div 4 mod 2"

section \<open>The colour tables\<close>

definition plain :: "string \<Rightarrow> bool" where
  "plain ps \<longleftrightarrow> set ps \<subseteq> set ''0123456789;?''"

lemma params_nonempty: "params cs \<noteq> []"
  by (induction cs) (auto split: list.splits)

lemma params_append: "params (a @ CHR '';'' # b) = params a @ params b"
proof (induction a)
  case (Cons c a)
  then show ?case using params_nonempty [of a] by (auto split: list.splits)
qed simp

lemma less_8: "n < 8 \<longleftrightarrow> n \<in> {0, 1, 2, 3, 4, 5, 6, 7 :: nat}"
  unfolding insert_iff empty_iff by presburger

lemma text_table:
  assumes "n < 16"
  shows "plain (supportedTextColor ! n) \<and>
    fold sgr (params (supportedTextColor ! n)) p = p\<lparr>pen_fg := ansi_of_vga (n mod 8), pen_bold := pen_bold p \<or> 8 \<le> n\<rparr>"
  using assms unfolding less_16
  by (auto simp: supportedTextColor_def plain_def sgr_def digit_def ansi_of_vga_def)

lemma background_table:
  assumes "n < 8"
  shows "plain (supportedBackgroundColor ! n) \<and>
    fold sgr (params (supportedBackgroundColor ! n)) p = p\<lparr>pen_bg := ansi_of_vga n\<rparr>"
  using assms unfolding less_8
  by (auto simp: supportedBackgroundColor_def plain_def sgr_def digit_def ansi_of_vga_def)

lemma field_bounds: "unat (textC temp) < 16" "unat (backg temp) < 8"
proof -
  have "drop_bit 8 temp AND 0x000F \<le> 0x000F" "temp AND 0x7000 \<le> 0x7000" by (rule word_and_le1)+
  then have "unat (drop_bit 8 temp AND 0x000F) \<le> 15" "unat (temp AND 0x7000) \<le> 0x7000"
    by (simp_all add: word_le_nat_alt)
  then show "unat (textC temp) < 16" "unat (backg temp) < 8"
    unfolding textC_def backg_def unat_ucast_u16 unat_drop_bit_word by simp_all
qed

lemma colour_strings:
  "getTextColor (textC temp) = supportedTextColor ! unat (textC temp)"
  "getBackgroundColor (backg temp) = supportedBackgroundColor ! unat (backg temp)"
  using field_bounds [of temp]
  by (simp_all add: getTextColor_def getBackgroundColor_def word_le_nat_alt not_le)

section \<open>What the terminal shows\<close>

lemma feed_params: "plain ps \<Longrightarrow> fold feed ps (Csi qs, p, gs) = (Csi (qs @ ps), p, gs)"
  by (induction ps arbitrary: qs) (simp_all add: plain_def)

lemma feed_sgr:
  assumes "plain ps"
  shows "fold feed (ESC # CHR ''['' # ps @ CHR ''m'' # rst) (Normal, p, gs) =
    fold feed rst (Normal, fold sgr (params ps) p, gs)"
  using feed_params [OF assms, of "[]" p gs] by (simp add: fold_append del: fold_append_concat_rev)

definition cell_pen :: "u16 \<Rightarrow> pen \<Rightarrow> pen" where
  "cell_pen temp p = p\<lparr>pen_fg := ansi_of_vga (unat (textC temp) mod 8),
     pen_bold := pen_bold p \<or> 8 \<le> unat (textC temp), pen_bg := ansi_of_vga (unat (backg temp))\<rparr>"

lemma feed_toPrint:
  assumes "shown_char b temp \<noteq> ESC"
  shows "fold feed (toPrint b temp) (Normal, p, gs) =
    (Normal, cell_pen temp p, gs @ [(shown_char b temp, cell_pen temp p)])"
proof -
  let ?t = "supportedTextColor ! unat (textC temp)" and ?b = "supportedBackgroundColor ! unat (backg temp)"
  note t = text_table [OF field_bounds(1), of temp] and b = background_table [OF field_bounds(2), of temp]
  have "plain (?t @ CHR '';'' # ?b)" using t b by (auto simp: plain_def)
  from feed_sgr [OF this, of "[shown_char b temp]" p gs] t b assms
  show ?thesis by (simp add: toPrint_def colour_strings params_append cell_pen_def)
qed

lemma feed_controls:
  "fold feed UNDERLINED (Normal, p, gs) = (Normal, p\<lparr>pen_under := True\<rparr>, gs)"
  "fold feed RESTORE (Normal, p, gs) = (Normal, default_pen, gs)"
  "fold feed STANDARD_BACKGROUND (Normal, p, gs) = (Normal, p\<lparr>pen_fg := 0, pen_bg := 0\<rparr>, gs)"
  "fold feed CURSOR_START (Normal, p, gs) = (Normal, p, gs)"
  by (simp_all add: UNDERLINED_def RESTORE_def STANDARD_BACKGROUND_def CURSOR_START_def sgr_def digit_def)

text \<open>What matters of a glyph: the character, the two colours and whether it is underlined.\<close>

definition look :: "char \<times> pen \<Rightarrow> char \<times> nat \<times> nat \<times> bool" where
  "look g = (fst g, pen_fg (snd g), pen_bg (snd g), pen_under (snd g))"

definition draws :: "string \<Rightarrow> (char \<times> nat \<times> nat \<times> bool) list \<Rightarrow> bool" where
  "draws s L \<longleftrightarrow> (\<forall>p gs. \<not> pen_under p \<longrightarrow>
     (\<exists>p' gs'. fold feed s (Normal, p, gs) = (Normal, p', gs @ gs') \<and> \<not> pen_under p' \<and> map look gs' = L))"

lemma draws_Nil: "draws [] []"
  by (simp add: draws_def)

lemma draws_append:
  assumes "draws s L" "draws s' L'"
  shows "draws (s @ s') (L @ L')"
  unfolding draws_def
proof (intro allI impI)
  fix p :: pen and gs assume "\<not> pen_under p"
  then obtain p1 g1 where 1: "fold feed s (Normal, p, gs) = (Normal, p1, gs @ g1)" "\<not> pen_under p1" "map look g1 = L"
    using assms(1) unfolding draws_def by blast
  then obtain p2 g2 where 2: "fold feed s' (Normal, p1, gs @ g1) = (Normal, p2, (gs @ g1) @ g2)" "\<not> pen_under p2"
    "map look g2 = L'"
    using assms(2) unfolding draws_def by blast
  have "fold feed (s @ s') (Normal, p, gs) = (Normal, p2, gs @ (g1 @ g2))" using 1 2 by (simp add: fold_append)
  moreover have "map look (g1 @ g2) = L @ L'" using 1 2 by simp
  ultimately show "\<exists>p' gs'. fold feed (s @ s') (Normal, p, gs) = (Normal, p', gs @ gs') \<and> \<not> pen_under p' \<and>
      map look gs' = L @ L'"
    using 2(2) by blast
qed

lemma draws_concat: "(\<And>x. x \<in> set xs \<Longrightarrow> draws (f x) (g x)) \<Longrightarrow> draws (concat (map f xs)) (concat (map g xs))"
  by (induction xs) (simp_all add: draws_Nil draws_append)

definition cell_look :: "bool \<Rightarrow> bool \<Rightarrow> bool \<Rightarrow> u16 \<Rightarrow> char \<times> nat \<times> nat \<times> bool" where
  "cell_look b1 b2 at_cursor temp =
     (shown_char b1 temp, ansi_of_vga (unat (textC temp) mod 8), ansi_of_vga (unat (backg temp)), at_cursor \<and> b2)"

lemma draws_cell:
  assumes "cell_char temp \<noteq> ESC"
  shows "draws (cell_out b1 b2 at_cursor temp) [cell_look b1 b2 at_cursor temp]"
proof -
  have c: "shown_char b1 temp \<noteq> ESC" using assms by (simp add: shown_char_def)
  show ?thesis
  proof (cases "at_cursor \<and> b2")
    case True
    then show ?thesis
      by (simp add: draws_def cell_out_def feed_toPrint [OF c] feed_controls cell_look_def look_def cell_pen_def
          default_pen_def)
  next
    case False
    then show ?thesis
      by (auto simp: feed_toPrint [OF c] draws_def cell_out_def cell_look_def look_def cell_pen_def)
  qed
qed

lemma draws_row_end:
  "draws (STANDARD_BACKGROUND @ (if nl then [CHR 0x0A] else [])) (if nl then [(CHR 0x0A, 0, 0, False)] else [])"
  by (simp add: draws_def feed_controls look_def)

section \<open>Rows and frames\<close>

lemma collect_Inr: "(\<And>x. x \<in> set xs \<Longrightarrow> f x = Inr (g x)) \<Longrightarrow> collect f xs = Inr (concat (map g xs))"
  by (induction xs) simp_all

definition row_look ::
  "(nat \<Rightarrow> bool \<times> bool) \<Rightarrow> nat \<Rightarrow> nat \<Rightarrow> u16 \<Rightarrow> (nat \<Rightarrow> u16) \<Rightarrow> nat \<Rightarrow> (char \<times> nat \<times> nat \<times> bool) list" where
  "row_look blink rows cols cursor cell i =
     map (\<lambda>j. let k = i * 80 + j in cell_look (fst (blink k)) (snd (blink k)) (unat cursor = k) (cell k)) [0..<cols] @
     (if i \<noteq> rows - 1 then [(CHR 0x0A, 0, 0, False)] else [])"

definition screen :: "nat \<Rightarrow> turn \<Rightarrow> (char \<times> nat \<times> nat \<times> bool) list" where
  "screen start t =
     (let rows = min 25 (unat (tn_rows t)); cols = min 80 (unat (tn_cols t))
      in concat (map (row_look (tn_blink t) rows cols (vga_cursorPosition (tn_vga t)) (vmem_cell start (tn_mem t))) [0..<rows]))"

text \<open>The video memory is inside the guest memory, and holds no escape character.\<close>

definition screen_ok :: "nat \<Rightarrow> guest_mem \<Rightarrow> bool" where
  "screen_ok start m \<longleftrightarrow> start + 4000 \<le> length m \<and> (\<forall>k < 2000. cell_char (vmem_cell start m k) \<noteq> ESC)"

lemma cursor_split: "unat (c div 80 :: u16) * 80 + unat (c mod 80) = unat c"
  by (simp add: unat_div unat_mod)

lemma unat_co_min: "unat (co_min a b) = min (unat a) (unat b)"
  by (simp add: co_min_def word_less_nat_alt)

lemma row_drawn:
  assumes "screen_ok start m" "i < 25" "cols \<le> 80"
  shows "\<exists>s. row_out blink rows cols cursor (Some start) m i = Inr s \<and>
    draws s (row_look blink rows cols cursor (vmem_cell start m) i)"
proof -
  have k: "i * 80 + j < 2000" if "j < cols" for j using assms(2,3) that by linarith
  let ?u = "\<lambda>j. cell_out (fst (blink (i * 80 + j))) (snd (blink (i * 80 + j))) (unat cursor = i * 80 + j)
      (vmem_cell start m (i * 80 + j))"
  let ?v = "\<lambda>j. [cell_look (fst (blink (i * 80 + j))) (snd (blink (i * 80 + j))) (unat cursor = i * 80 + j)
      (vmem_cell start m (i * 80 + j))]"
  have "vmem_read (Some start) m (i * 80 + j) = Inr (vmem_cell start m (i * 80 + j))" if "j < cols" for j
    using k [OF that] assms(1) by (simp add: vmem_read_def screen_ok_def)
  then have "row_out blink rows cols cursor (Some start) m i =
      Inr (concat (map ?u [0..<cols]) @ STANDARD_BACKGROUND @ (if i \<noteq> rows - 1 then [CHR 0x0A] else []))"
    unfolding row_out_def Let_def cursor_split by (subst collect_Inr [where g = ?u]) simp_all
  moreover have "draws (concat (map ?u [0..<cols])) (concat (map ?v [0..<cols]))"
    using k assms(1) by (intro draws_concat draws_cell) (simp add: screen_ok_def)
  moreover have "concat (map ?v [0..<cols]) @ (if i \<noteq> rows - 1 then [(CHR 0x0A, 0, 0, False)] else []) =
      row_look blink rows cols cursor (vmem_cell start m) i"
    by (simp add: row_look_def Let_def concat_map_singleton)
  ultimately show ?thesis
    using draws_append [OF _ draws_row_end [of "i \<noteq> rows - 1"], of "concat (map ?u [0..<cols])"] by fastforce
qed

lemma screen_frame_drawn:
  assumes "screen_ok start (tn_mem t)"
  shows "\<exists>s. screen_frame (Some start) t = Inr s \<and> draws s (screen start t)"
proof -
  define rows cols where "rows = min 25 (unat (tn_rows t))" and "cols = min 80 (unat (tn_cols t))"
  let ?r = "row_out (tn_blink t) rows cols (vga_cursorPosition (tn_vga t)) (Some start) (tn_mem t)"
  let ?l = "row_look (tn_blink t) rows cols (vga_cursorPosition (tn_vga t)) (vmem_cell start (tn_mem t))"
  have "\<forall>i \<in> set [0..<rows]. \<exists>s. ?r i = Inr s \<and> draws s (?l i)"
    using row_drawn [OF assms] by (simp add: rows_def cols_def)
  then obtain u where u: "\<And>i. i \<in> set [0..<rows] \<Longrightarrow> ?r i = Inr (u i) \<and> draws (u i) (?l i)" by metis
  have "collect ?r [0..<rows] = Inr (concat (map u [0..<rows]))" using u by (intro collect_Inr) blast
  then have "screen_frame (Some start) t = Inr (CURSOR_START @ concat (map u [0..<rows]))"
    by (simp add: screen_frame_def unat_co_min rows_def cols_def Let_def)
  moreover have "draws (concat (map u [0..<rows])) (screen start t)"
    unfolding screen_def Let_def rows_def [symmetric] cols_def [symmetric] using u by (intro draws_concat) blast
  moreover have "draws CURSOR_START []" by (simp add: draws_def feed_controls)
  ultimately show ?thesis using draws_append by (metis append_Nil)
qed

lemma screen_frames_drawn:
  assumes "\<forall>t \<in> set ts. screen_ok start (tn_mem t)"
  shows "\<exists>s. collect (screen_frame (Some start)) ts = Inr s \<and> draws s (concat (map (screen start) ts))"
  using assms
proof (induction ts)
  case (Cons t ts)
  then show ?case using screen_frame_drawn [of start t] draws_append by fastforce
qed (simp add: draws_Nil)

section \<open>Properties\<close>


text \<open>A one-line window on a screen that starts with a blinking white A on blue.\<close>

definition example_turn :: turn where
  "example_turn = \<lparr>tn_blink = (\<lambda>k. (True, k = 1)), tn_rows = 1, tn_cols = 2,
     tn_vga = vga_new\<lparr>vga_CUR_LOW := 1\<rparr>, tn_mem = [0x41, 0x97] @ replicate 3998 0x20\<rparr>"


text \<open>
  Bright text is not undone: a cell with one of the bright colours turns on the bold attribute
  of the terminal, and the sequences for the dim cells after it do not turn it off, so they are
  drawn bold too.
\<close>

theorem console_bold_leaks:
  assumes "8 \<le> unat (textC x)" "unat (textC y) < 8" "cell_char x \<noteq> ESC" "cell_char y \<noteq> ESC"
  shows "map (\<lambda>g. pen_bold (snd g)) (terminal (toPrint b x @ toPrint b y) p) = [True, True] \<and>
    map (\<lambda>g. pen_bold (snd g)) (terminal (toPrint b y) default_pen) = [False]"
proof -
  have "shown_char b x \<noteq> ESC" "shown_char b y \<noteq> ESC" using assms(3,4) by (simp_all add: shown_char_def)
  then show ?thesis using assms(1,2) by (simp add: terminal_def feed_toPrint cell_pen_def default_pen_def)
qed

theorem console_bold_leaks_witness:
  "map (\<lambda>g. pen_bold (snd g)) (terminal (toPrint True 0x0F41 @ toPrint True 0x0742) default_pen) = [True, True]"
proof -
  have "unat (textC 0x0F41) = 15" "unat (textC 0x0742) = 7" "cell_char 0x0F41 \<noteq> ESC" "cell_char 0x0742 \<noteq> ESC"
    by code_simp+
  then show ?thesis using console_bold_leaks [of "0x0F41" "0x0742" True default_pen] by simp
qed

end
