(* ===== verification/Ini.thy ===== *)
theory Ini
  imports Prelude
begin

text \<open>
  The configuration reader, \<open>INIReader.h\<close>, with its options at their defaults. A file is the string
  of its characters; a C string is a list without zero characters, and the pointers into a line
  (\<open>start\<close>, \<open>end\<close>, \<open>name\<close>, \<open>value\<close>) are the strings they point to.
\<close>

section \<open>Characters and strings\<close>

definition isspace :: "char \<Rightarrow> bool" where
  "isspace c \<longleftrightarrow> c \<in> set [CHR '' '', CHR 0x09, CHR 0x0A, CHR 0x0B, CHR 0x0C, CHR 0x0D]"

definition tolower :: "char \<Rightarrow> char" where
  "tolower c = (let n = of_char c :: nat in if 65 \<le> n \<and> n \<le> 90 then char_of (n + 32) else c)"

text \<open>\<open>fgets\<close> with room for \<open>n\<close> characters, and the C string in the buffer.\<close>

fun fgets :: "nat \<Rightarrow> string \<Rightarrow> string \<times> string" where
  "fgets 0 s = ([], s)"
| "fgets (Suc n) [] = ([], [])"
| "fgets (Suc n) (c # cs) =
     (if c = CHR 0x0A then ([c], cs) else (let (l, r) = fgets n cs in (c # l, r)))"

definition c_str :: "string \<Rightarrow> string" where
  "c_str s = takeWhile (\<lambda>c. c \<noteq> CHR 0x00) s"

definition rstrip :: "string \<Rightarrow> string" where
  "rstrip s = rev (dropWhile isspace (rev s))"

definition lskip :: "string \<Rightarrow> string" where
  "lskip s = dropWhile isspace s"

text \<open>The part before the character that is found, and the string from it on.\<close>

fun find_loop :: "bool \<Rightarrow> string \<Rightarrow> string \<Rightarrow> string \<times> string" where
  "find_loop was_space chars [] = ([], [])"
| "find_loop was_space chars (c # s) =
     (if c \<in> set chars \<or> was_space \<and> c = CHR '';'' then ([], c # s)
      else (let (a, b) = find_loop (isspace c) chars s in (c # a, b)))"

definition find_chars_or_comment :: "string \<Rightarrow> string \<Rightarrow> string \<times> string" where
  "find_chars_or_comment s chars = find_loop False chars s"

definition strncpy0 :: "string \<Rightarrow> nat \<Rightarrow> string" where
  "strncpy0 src n = take (n - 1) src"

section \<open>The reader\<close>

record INIReader =
  ini_error :: int
  ini_values :: "string \<rightharpoonup> string"
  ini_sections :: "string set"

definition MakeKey :: "string \<Rightarrow> string \<Rightarrow> string" where
  "MakeKey section name = map tolower (section @ ''='' @ name)"

definition ValueHandler :: "string \<Rightarrow> string \<Rightarrow> string \<Rightarrow> INIReader \<Rightarrow> INIReader" where
  "ValueHandler section name value r =
     (let key = MakeKey section name;
          old = (case ini_values r key of None \<Rightarrow> [] | Some v \<Rightarrow> v);
          old1 = (if length old > 0 then old @ [CHR 0x0A] else old)
      in r\<lparr>ini_values := (ini_values r)(key \<mapsto> old1 @ value), ini_sections := insert section (ini_sections r)\<rparr>)"

text \<open>The local variables of \<open>ini_parse_stream\<close> and the object the handler fills.\<close>

record parser =
  p_section :: string
  p_prev_name :: string
  p_lineno :: int
  p_error :: int
  p_reader :: INIReader

definition set_error :: "parser \<Rightarrow> parser" where
  "set_error p = (if p_error p = 0 then p\<lparr>p_error := p_lineno p\<rparr> else p)"

definition starts_with_bom :: "string \<Rightarrow> bool" where
  "starts_with_bom s \<longleftrightarrow> take 3 s = [CHR 0xEF, CHR 0xBB, CHR 0xBF]"

definition ini_line :: "string \<Rightarrow> parser \<Rightarrow> parser" where
  "ini_line line p0 =
     (let p = p0\<lparr>p_lineno := p_lineno p0 + 1\<rparr>;
          bom = (p_lineno p = 1 \<and> starts_with_bom line);
          stripped = rstrip (if bom then drop 3 line else line);
          start = lskip stripped;
          moved = (bom \<or> length start < length stripped)
      in if start \<noteq> [] \<and> (hd start = CHR '';'' \<or> hd start = CHR ''#'') then p
         else if p_prev_name p \<noteq> [] \<and> start \<noteq> [] \<and> moved then
           p\<lparr>p_reader := ValueHandler (p_section p) (p_prev_name p) (rstrip (fst (find_chars_or_comment start []))) (p_reader p)\<rparr>
         else if start \<noteq> [] \<and> hd start = CHR ''['' then
           (let (before, end) = find_chars_or_comment (tl start) '']''
            in if end \<noteq> [] \<and> hd end = CHR '']'' then p\<lparr>p_section := strncpy0 before 50, p_prev_name := []\<rparr>
               else set_error p)
         else if start \<noteq> [] then
           (let (before, end) = find_chars_or_comment start ''=:''
            in if end \<noteq> [] \<and> (hd end = CHR ''='' \<or> hd end = CHR '':'') then
                 (let name = rstrip before;
                      value = rstrip (fst (find_chars_or_comment (lskip (tl end)) []))
                  in p\<lparr>p_prev_name := strncpy0 name 50, p_reader := ValueHandler (p_section p) name value (p_reader p)\<rparr>)
               else set_error p)
         else p)"

lemma fgets_length: "fgets n s = (l, r) \<Longrightarrow> length l + length r = length s \<and> (s \<noteq> [] \<longrightarrow> n > 0 \<longrightarrow> l \<noteq> [])"
proof (induction n s arbitrary: l r rule: fgets.induct)
  case (3 n c cs)
  then show ?case by (auto split: if_splits prod.splits)
qed simp_all

function ini_parse_stream :: "string \<Rightarrow> parser \<Rightarrow> parser" where
  "ini_parse_stream s p =
     (if s = [] then p else (let (l, r) = fgets 199 s in ini_parse_stream r (ini_line (c_str l) p)))"
  by pat_completeness auto
termination
proof (relation "measure (\<lambda>(s, p). length s)")
  fix s p x y l r
  assume "s \<noteq> []" "x = fgets 199 s" "(l, r) = x"
  then show "((r, ini_line (c_str l) p), (s, p)) \<in> measure (\<lambda>(s, p). length s)"
    using fgets_length [of 199 s l r] by (cases l) auto
qed simp

declare ini_parse_stream.simps [simp del]

definition ini_parse :: "string option \<Rightarrow> INIReader \<Rightarrow> INIReader" where
  "ini_parse opened r =
     (case opened of None \<Rightarrow> r\<lparr>ini_error := - 1\<rparr>
      | Some s \<Rightarrow>
          (let p = ini_parse_stream s \<lparr>p_section = [], p_prev_name = [], p_lineno = 0, p_error = 0, p_reader = r\<rparr>
           in (p_reader p)\<lparr>ini_error := p_error p\<rparr>))"

definition INIReader_new :: "string option \<Rightarrow> INIReader" where
  "INIReader_new opened = ini_parse opened \<lparr>ini_error = 0, ini_values = Map.empty, ini_sections = {}\<rparr>"

definition ParseError :: "INIReader \<Rightarrow> int" where
  "ParseError r = ini_error r"

definition Sections :: "INIReader \<Rightarrow> string set" where
  "Sections r = ini_sections r"

definition ini_Get :: "INIReader \<Rightarrow> string \<Rightarrow> string \<Rightarrow> string \<Rightarrow> string" where
  "ini_Get r section name default_value =
     (case ini_values r (MakeKey section name) of None \<Rightarrow> default_value | Some v \<Rightarrow> v)"

text \<open>\<open>strtol\<close> with base 0: the value, if there are any digits.\<close>

definition digit_value :: "char \<Rightarrow> nat" where
  "digit_value c =
     (let n = of_char c :: nat
      in if 48 \<le> n \<and> n \<le> 57 then n - 48
         else if 97 \<le> n \<and> n \<le> 122 then n - 87
         else if 65 \<le> n \<and> n \<le> 90 then n - 55 else 36)"

definition strtol :: "string \<Rightarrow> int option" where
  "strtol s =
     (let s1 = lskip s;
          neg = (s1 \<noteq> [] \<and> hd s1 = CHR ''-'');
          s2 = (if s1 \<noteq> [] \<and> (hd s1 = CHR ''-'' \<or> hd s1 = CHR ''+'') then tl s1 else s1);
          hex = (length s2 > 2 \<and> s2 ! 0 = CHR ''0'' \<and> (s2 ! 1 = CHR ''x'' \<or> s2 ! 1 = CHR ''X'') \<and> digit_value (s2 ! 2) < 16);
          base = (if hex then 16 else if s2 \<noteq> [] \<and> hd s2 = CHR ''0'' then 8 else 10);
          digits = takeWhile (\<lambda>c. digit_value c < base) (if hex then drop 2 s2 else s2);
          n = foldl (\<lambda>n c. n * int base + int (digit_value c)) 0 digits
      in if digits = [] then None
         else Some (if neg then max (- (2 ^ 63)) (- n) else min (2 ^ 63 - 1) n))"

definition GetInteger :: "INIReader \<Rightarrow> string \<Rightarrow> string \<Rightarrow> int \<Rightarrow> int" where
  "GetInteger r section name default_value =
     (case strtol (c_str (ini_Get r section name [])) of None \<Rightarrow> default_value | Some n \<Rightarrow> n)"

definition GetBoolean :: "INIReader \<Rightarrow> string \<Rightarrow> string \<Rightarrow> bool \<Rightarrow> bool" where
  "GetBoolean r section name default_value =
     (let valstr = map tolower (ini_Get r section name [])
      in if valstr \<in> {''true'', ''yes'', ''on'', ''1''} then True
         else if valstr \<in> {''false'', ''no'', ''off'', ''0''} then False
         else default_value)"

section \<open>Files as they are written\<close>

type_synonym config = "(string \<times> (string \<times> string) list) list"

abbreviation "NL \<equiv> CHR 0x0A"

definition print_entry :: "string \<times> string \<Rightarrow> string" where
  "print_entry e = fst e @ CHR ''='' # snd e @ [NL]"

definition print_section :: "string \<times> (string \<times> string) list \<Rightarrow> string" where
  "print_section x = CHR ''['' # fst x @ CHR '']'' # NL # concat (map print_entry (snd x))"

definition print_config :: "config \<Rightarrow> string" where
  "print_config cfg = concat (map print_section cfg)"

definition graphic :: "string \<Rightarrow> bool" where
  "graphic s \<longleftrightarrow> (\<forall>c \<in> set s. \<not> isspace c \<and> c \<noteq> CHR 0x00)"

definition section_ok :: "string \<Rightarrow> bool" where
  "section_ok s \<longleftrightarrow> graphic s \<and> CHR '']'' \<notin> set s \<and> length s < 50"

definition entry_ok :: "string \<times> string \<Rightarrow> bool" where
  "entry_ok e \<longleftrightarrow> fst e \<noteq> [] \<and> graphic (fst e) \<and> graphic (snd e) \<and> CHR ''='' \<notin> set (fst e) \<and>
     CHR '':'' \<notin> set (fst e) \<and> hd (fst e) \<notin> {CHR '';'', CHR ''#'', CHR ''[''} \<and>
     length (fst e) + length (snd e) < 198"

definition config_ok :: "config \<Rightarrow> bool" where
  "config_ok cfg \<longleftrightarrow> (\<forall>x \<in> set cfg. section_ok (fst x) \<and> (\<forall>e \<in> set (snd x). entry_ok e))"

definition config_keys :: "config \<Rightarrow> string list" where
  "config_keys cfg = concat (map (\<lambda>x. map (\<lambda>e. MakeKey (fst x) (fst e)) (snd x)) cfg)"

section \<open>Lines\<close>

lemma graphic_simps [simp]:
  "graphic []" "graphic (c # s) \<longleftrightarrow> \<not> isspace c \<and> c \<noteq> CHR 0x00 \<and> graphic s" "graphic (s @ t) \<longleftrightarrow> graphic s \<and> graphic t"
  by (auto simp: graphic_def)

lemma space_chars [simp]:
  "isspace NL" "\<not> isspace (CHR ''='')" "\<not> isspace (CHR ''['')" "\<not> isspace (CHR '']'')"
  by (simp_all add: isspace_def)

lemma fgets_line:
  assumes "NL \<notin> set l" "length l < n"
  shows "fgets n (l @ NL # r) = (l @ [NL], r)"
  using assms
proof (induction l arbitrary: n)
  case Nil
  then show ?case by (cases n) auto
next
  case (Cons c l)
  then show ?case by (cases n) auto
qed

lemma graphic_not_NL: "graphic l \<Longrightarrow> NL \<notin> set l"
  using space_chars(1) unfolding graphic_def by blast

lemma parse_line:
  assumes "graphic l" "length l < 199"
  shows "ini_parse_stream (l @ NL # r) p = ini_parse_stream r (ini_line (l @ [NL]) p)"
proof -
  have "c_str (l @ [NL]) = l @ [NL]"
    using assms(1) by (induction l) (simp_all add: c_str_def)
  moreover have "fgets 199 (l @ NL # r) = (l @ [NL], r)" by (rule fgets_line [OF graphic_not_NL [OF assms(1)] assms(2)])
  ultimately show ?thesis unfolding ini_parse_stream.simps [of "l @ NL # r"] by simp
qed

lemma strip_graphic: "graphic l \<Longrightarrow> rstrip (l @ [NL]) = l" "graphic l \<Longrightarrow> rstrip l = l" "graphic l \<Longrightarrow> lskip l = l"
proof -
  have d: "graphic s \<Longrightarrow> dropWhile isspace s = s" for s by (cases s) simp_all
  have r: "graphic (rev l) = graphic l" by (simp add: graphic_def)
  show "graphic l \<Longrightarrow> rstrip (l @ [NL]) = l" "graphic l \<Longrightarrow> rstrip l = l" "graphic l \<Longrightarrow> lskip l = l"
    using d r by (simp_all add: rstrip_def lskip_def)
qed

lemma find_graphic:
  assumes "graphic s"
  shows "set s \<inter> set chars = {} \<Longrightarrow> c \<in> set chars \<Longrightarrow> find_chars_or_comment (s @ c # t) chars = (s, c # t)"
    "find_chars_or_comment s [] = (s, [])"
  using assms unfolding find_chars_or_comment_def by (induction s) auto

lemma section_line:
  assumes "section_ok s"
  shows "ini_line (CHR ''['' # s @ CHR '']'' # [NL]) p = p\<lparr>p_lineno := p_lineno p + 1, p_section := s, p_prev_name := []\<rparr>"
proof -
  let ?l = "CHR ''['' # s @ [CHR '']'']"
  have l: "graphic ?l" "\<not> starts_with_bom (?l @ [NL])" using assms by (auto simp: section_ok_def starts_with_bom_def)
  have "find_chars_or_comment (s @ [CHR '']'']) '']'' = (s, [CHR '']''])"
    using assms by (intro find_graphic(1)) (auto simp: section_ok_def)
  moreover have "strncpy0 s 50 = s" using assms by (simp add: strncpy0_def section_ok_def)
  ultimately show ?thesis
    using l strip_graphic [OF l(1)] by (simp add: ini_line_def Let_def)
qed

lemma entry_line:
  assumes "entry_ok e" "0 < p_lineno p"
  shows "ini_line (print_entry e) p =
    p\<lparr>p_lineno := p_lineno p + 1, p_prev_name := strncpy0 (fst e) 50,
      p_reader := ValueHandler (p_section p) (fst e) (snd e) (p_reader p)\<rparr>"
proof -
  obtain n v where e: "e = (n, v)" by (cases e)
  let ?l = "n @ CHR ''='' # v"
  have ok: "n \<noteq> []" "graphic n" "graphic v" "CHR ''='' \<notin> set n" "CHR '':'' \<notin> set n"
    "hd n \<noteq> CHR '';''" "hd n \<noteq> CHR ''#''" "hd n \<noteq> CHR ''[''"
    using assms(1) by (auto simp: e entry_ok_def)
  then have l: "graphic ?l" "hd ?l = hd n" by simp_all
  have "find_chars_or_comment ?l ''=:'' = (n, CHR ''='' # v)" using ok by (intro find_graphic(1)) auto
  moreover have "find_chars_or_comment v [] = (v, [])" using ok by (intro find_graphic(2))
  ultimately show ?thesis
    using ok l strip_graphic [OF l(1)] strip_graphic(2,3) [OF ok(2)] strip_graphic(2,3) [OF ok(3)] assms(2)
    by (simp add: ini_line_def e Let_def print_entry_def)
qed

section \<open>Whole files\<close>

definition config_entries :: "config \<Rightarrow> (string \<times> string \<times> string) list" where
  "config_entries cfg = concat (map (\<lambda>x. map (\<lambda>e. (fst x, fst e, snd e)) (snd x)) cfg)"

abbreviation handle_all :: "(string \<times> string \<times> string) list \<Rightarrow> INIReader \<Rightarrow> INIReader" where
  "handle_all \<equiv> fold (\<lambda>(s, n, v). ValueHandler s n v)"

lemma parse_entries:
  assumes "\<forall>e \<in> set es. entry_ok e" "0 < p_lineno p"
  shows "\<exists>p'. ini_parse_stream (concat (map print_entry es) @ r) p = ini_parse_stream r p' \<and>
    p_section p' = p_section p \<and> p_error p' = p_error p \<and> 0 < p_lineno p' \<and>
    p_reader p' = handle_all (map (\<lambda>e. (p_section p, fst e, snd e)) es) (p_reader p)"
  using assms
proof (induction es arbitrary: p)
  case (Cons e es)
  let ?l = "fst e @ CHR ''='' # snd e"
  have ok: "graphic ?l" "length ?l < 199" using Cons.prems(1) by (auto simp: entry_ok_def)
  have "ini_parse_stream (concat (map print_entry (e # es)) @ r) p =
      ini_parse_stream (concat (map print_entry es) @ r) (ini_line (print_entry e) p)"
    using parse_line [OF ok, of "concat (map print_entry es) @ r" p] by (simp add: print_entry_def)
  then show ?case
    using Cons.IH [of "ini_line (print_entry e) p"] Cons.prems by (simp add: entry_line case_prod_beta)
qed auto

lemma parse_config:
  assumes "config_ok cfg" "0 \<le> p_lineno p"
  shows "\<exists>p'. ini_parse_stream (print_config cfg) p = p' \<and> p_error p' = p_error p \<and>
    p_reader p' = handle_all (config_entries cfg) (p_reader p)"
  using assms
proof (induction cfg arbitrary: p)
  case Nil
  show ?case by (simp add: print_config_def config_entries_def ini_parse_stream.simps)
next
  case (Cons x cfg)
  let ?l = "CHR ''['' # fst x @ [CHR '']'']"
  have x: "section_ok (fst x)" "\<forall>e \<in> set (snd x). entry_ok e" and cfg: "config_ok cfg"
    using Cons.prems(1) by (simp_all add: config_ok_def)
  then have ok: "graphic ?l" "length ?l < 199" by (auto simp: section_ok_def)
  let ?p1 = "p\<lparr>p_lineno := p_lineno p + 1, p_section := fst x, p_prev_name := []\<rparr>"
  have "ini_parse_stream (print_config (x # cfg)) p =
      ini_parse_stream (concat (map print_entry (snd x)) @ print_config cfg) ?p1"
    using parse_line [OF ok, of "concat (map print_entry (snd x)) @ print_config cfg" p] section_line [OF x(1)]
    by (simp add: print_config_def print_section_def)
  moreover obtain p2 where p2:
    "ini_parse_stream (concat (map print_entry (snd x)) @ print_config cfg) ?p1 = ini_parse_stream (print_config cfg) p2"
    "p_error p2 = p_error p" "0 < p_lineno p2"
    "p_reader p2 = handle_all (map (\<lambda>e. (fst x, fst e, snd e)) (snd x)) (p_reader p)"
    using parse_entries [OF x(2), of ?p1 "print_config cfg"] Cons.prems(2) by auto
  ultimately show ?case
    using Cons.IH [OF cfg, of p2] by (simp add: config_entries_def)
qed

lemma handle_all_values:
  assumes "distinct (map (\<lambda>(s, n, v). MakeKey s n) ts)"
    "\<forall>(s, n, v) \<in> set ts. ini_values r (MakeKey s n) = None"
  shows "ini_values (handle_all ts r) k =
    (case map_of (map (\<lambda>(s, n, v). (MakeKey s n, v)) ts) k of None \<Rightarrow> ini_values r k | Some v \<Rightarrow> Some v)"
  using assms
proof (induction ts arbitrary: r)
  case (Cons t ts)
  obtain s n v where t: "t = (s, n, v)" by (cases t) auto
  let ?r = "ValueHandler s n v r"
  have v: "ini_values ?r = (ini_values r)(MakeKey s n \<mapsto> v)"
    using Cons.prems(2) by (simp add: t ValueHandler_def Let_def)
  have d: "MakeKey s n \<notin> (\<lambda>(s, n, v). MakeKey s n) ` set ts" "distinct (map (\<lambda>(s, n, v). MakeKey s n) ts)"
    using Cons.prems(1) by (simp_all add: t)
  have "ini_values ?r (MakeKey s' n') = None" if "(s', n', v') \<in> set ts" for s' n' v'
  proof -
    have "MakeKey s' n' \<noteq> MakeKey s n" using d(1) that by (force simp: image_iff)
    moreover have "ini_values r (MakeKey s' n') = None" using Cons.prems(2) that by auto
    ultimately show ?thesis using v by simp
  qed
  then have "\<forall>(s', n', v') \<in> set ts. ini_values ?r (MakeKey s' n') = None" by blast
  moreover have "map_of (map (\<lambda>(s, n, v). (MakeKey s n, v)) ts) (MakeKey s n) = None"
    using d(1) by (force simp: map_of_eq_None_iff)
  ultimately show ?case
    using Cons.IH [of ?r] d(2) v by (auto simp: t split: option.splits)
qed simp

lemma handle_all_sections: "ini_sections (handle_all ts r) = ini_sections r \<union> fst ` set ts"
  by (induction ts arbitrary: r) (auto simp: ValueHandler_def Let_def)

lemma entries_sections: "fst ` set (config_entries cfg) = {s. \<exists>es. (s, es) \<in> set cfg \<and> es \<noteq> []}"
proof -
  have "fst ` set (config_entries [x]) = (if snd x = [] then {} else {fst x})" for x :: "string \<times> (string \<times> string) list"
    by (cases "snd x") (auto simp: config_entries_def image_image)
  moreover have "fst ` set (config_entries cfg) = (\<Union>x \<in> set cfg. fst ` set (config_entries [x]))"
    by (simp add: config_entries_def image_UN)
  ultimately show ?thesis by (auto split: if_splits)
qed

text \<open>A file that can be opened never gives a negative result.\<close>

definition no_negative :: "parser \<Rightarrow> bool" where
  "no_negative p \<longleftrightarrow> 0 \<le> p_lineno p \<and> 0 \<le> p_error p"

lemma no_negative_if: "no_negative x \<Longrightarrow> no_negative y \<Longrightarrow> no_negative (if b then x else y)"
  by simp

lemma ini_line_error:
  assumes "no_negative p"
  shows "no_negative (ini_line l p)"
proof -
  have e: "no_negative (set_error q)" if "no_negative q" for q
    using that by (simp add: set_error_def no_negative_def)
  have n: "no_negative (p\<lparr>p_lineno := p_lineno p + 1\<rparr>)" using assms by (simp add: no_negative_def)
  have u: "no_negative (q\<lparr>p_reader := r\<rparr>) = no_negative q" "no_negative (q\<lparr>p_section := x\<rparr>) = no_negative q"
    "no_negative (q\<lparr>p_prev_name := x\<rparr>) = no_negative q" for q r x
    by (simp_all add: no_negative_def)
  show ?thesis
    unfolding ini_line_def Let_def case_prod_beta
    by (intro no_negative_if) (simp_all only: u n e)
qed

lemma ini_parse_stream_error: "no_negative p \<Longrightarrow> no_negative (ini_parse_stream s p)"
proof (induction s p rule: ini_parse_stream.induct)
  case (1 s p)
  obtain l r where f: "fgets 199 s = (l, r)" by fastforce
  show ?case
  proof (cases "s = []")
    case True
    then show ?thesis using 1(2) by (simp add: ini_parse_stream.simps)
  next
    case False
    have "no_negative (ini_parse_stream r (ini_line (c_str l) p))"
      by (rule 1(1) [OF False refl f [symmetric] ini_line_error [OF 1(2)]])
    then show ?thesis unfolding ini_parse_stream.simps [of s p] f using False by simp
  qed
qed

lemma ParseError_opened: "0 \<le> ParseError (INIReader_new (Some s))"
  using ini_parse_stream_error by (simp add: ParseError_def INIReader_new_def ini_parse_def Let_def no_negative_def)

section \<open>Properties\<close>

text \<open>
  (C40) Configuration files are read as they are written: the file made of sections and
  \<open>name=value\<close> lines parses without error, and a lookup of any of its entries (in any mixture of
  upper and lower case) returns the value that was written, any other lookup the default. The sections
  reported are those that have entries. (Names and
  values have no blanks, lines are shorter than 200 characters, section names shorter than 50,
  and no key occurs twice.)
\<close>

theorem ini_roundtrip:
  assumes "config_ok cfg" "distinct (config_keys cfg)"
  shows "ParseError (INIReader_new (Some (print_config cfg))) = 0 \<and>
    (\<forall>(s, es) \<in> set cfg. \<forall>(n, v) \<in> set es. \<forall>s' n'. map tolower s' = map tolower s \<and> map tolower n' = map tolower n \<longrightarrow>
       ini_Get (INIReader_new (Some (print_config cfg))) s' n' d = v) \<and>
    (\<forall>s n. MakeKey s n \<notin> set (config_keys cfg) \<longrightarrow>
       ini_Get (INIReader_new (Some (print_config cfg))) s n d = d) \<and>
    Sections (INIReader_new (Some (print_config cfg))) = {s. \<exists>es. (s, es) \<in> set cfg \<and> es \<noteq> []}"
proof -
  let ?ini = "\<lparr>ini_error = 0, ini_values = Map.empty, ini_sections = {}\<rparr>"
  let ?r = "INIReader_new (Some (print_config cfg))"
  let ?kv = "map (\<lambda>(s, n, v). (MakeKey s n, v)) (config_entries cfg)"
  have keys: "map (\<lambda>(s, n, v). MakeKey s n) (config_entries cfg) = config_keys cfg"
    by (simp add: config_entries_def config_keys_def map_concat comp_def case_prod_beta)
  have r: "ini_error ?r = 0" "ini_values ?r = ini_values (handle_all (config_entries cfg) ?ini)"
    "ini_sections ?r = ini_sections (handle_all (config_entries cfg) ?ini)"
    using parse_config [OF assms(1), of "\<lparr>p_section = [], p_prev_name = [], p_lineno = 0, p_error = 0, p_reader = ?ini\<rparr>"]
    by (simp_all add: INIReader_new_def ini_parse_def Let_def)
  have v: "ini_values ?r k = map_of ?kv k" for k
    using handle_all_values [of "config_entries cfg" ?ini k] assms(2) keys r(2) by (auto split: option.splits)
  have "map fst ?kv = config_keys cfg" unfolding keys [symmetric] by (simp add: comp_def case_prod_beta)
  then have dist: "distinct (map fst ?kv)" using assms(2) by simp
  have "ini_Get ?r s' n' d = v"
    if "(s, es) \<in> set cfg" "(n, v) \<in> set es" "map tolower s' = map tolower s" "map tolower n' = map tolower n" for s es n v s' n'
  proof -
    have "(s, n, v) \<in> set (config_entries cfg)" using that(1,2) by (force simp: config_entries_def)
    then have "(MakeKey s n, v) \<in> set ?kv" by force
    moreover have "MakeKey s' n' = MakeKey s n" using that(3,4) by (simp add: MakeKey_def)
    ultimately show ?thesis using v dist by (simp add: ini_Get_def map_of_is_SomeI)
  qed
  moreover have "ini_Get ?r s n d = d" if "MakeKey s n \<notin> set (config_keys cfg)" for s n
  proof -
    have "map_of ?kv (MakeKey s n) = None"
      using that unfolding keys [symmetric] by (force simp: map_of_eq_None_iff)
    then show ?thesis using v by (simp add: ini_Get_def)
  qed
  moreover have "Sections ?r = {s. \<exists>es. (s, es) \<in> set cfg \<and> es \<noteq> []}"
    using handle_all_sections [of "config_entries cfg" ?ini] r(3)
    by (simp add: Sections_def entries_sections)
  ultimately show ?thesis using r(1) by (auto simp: ParseError_def)
qed

text \<open>The settings of the \<open>config.ini\<close> that comes with the program.\<close>

definition shipped_config :: config where
  "shipped_config =
     [(''vm-spec'', [(''memsize'', ''10'')]),
      (''debug-server'', [(''enable'', ''no''), (''port'', ''5553'')]),
      (''gdb-server'', [(''enable'', ''no''), (''address'', ''127.0.0.1''), (''port'', ''1234'')])]"

theorem ini_roundtrip_witness:
  "GetInteger (INIReader_new (Some (print_config shipped_config))) ''vm-spec'' ''memsize'' 8 = 10 \<and>
   GetInteger (INIReader_new (Some (print_config shipped_config))) ''Debug-Server'' ''PORT'' (- 1) = 5553"
proof -
  have ok: "config_ok shipped_config" "distinct (config_keys shipped_config)" by code_simp+
  note rt = ini_roundtrip [OF ok, of "[]"]
  have "ini_Get (INIReader_new (Some (print_config shipped_config))) ''vm-spec'' ''memsize'' [] = ''10''"
    using rt [THEN conjunct2, THEN conjunct1] by (auto simp: shipped_config_def)
  moreover have "map tolower ''Debug-Server'' = map tolower ''debug-server''" "map tolower ''PORT'' = map tolower ''port''"
    by code_simp+
  then have "ini_Get (INIReader_new (Some (print_config shipped_config))) ''Debug-Server'' ''PORT'' [] = ''5553''"
    using rt [THEN conjunct2, THEN conjunct1] by (auto simp: shipped_config_def)
  moreover have "strtol (c_str ''10'') = Some 10" "strtol (c_str ''5553'') = Some 5553" by code_simp+
  ultimately show ?thesis by (simp add: GetInteger_def)
qed

text \<open>The file itself, with its comments and blank lines, reads the same.\<close>

definition config_ini :: string where
  "config_ini =
     ''; Test config file for ini_example.c and INIReaderTest.cpp'' @ [NL, NL] @
     ''[vm-spec]'' @ [NL] @ ''#mem size in MB'' @ [NL] @ ''memsize=10'' @ [NL, NL] @
     ''[debug-server]'' @ [NL] @ ''enable=no'' @ [NL] @ ''port=5553'' @ [NL, NL] @
     ''[gdb-server]'' @ [NL] @ ''enable=no'' @ [NL] @ ''address=127.0.0.1'' @ [NL] @ ''port=1234'' @ [NL]"

lemma config_ini_read:
  "ParseError (INIReader_new (Some config_ini)) = 0 \<and>
   GetInteger (INIReader_new (Some config_ini)) ''vm-spec'' ''memsize'' 8 = 10 \<and>
   GetInteger (INIReader_new (Some config_ini)) ''gdb-server'' ''port'' (- 1) = 1234 \<and>
   GetBoolean (INIReader_new (Some config_ini)) ''gdb-server'' ''enable'' True = False"
  by code_simp

end
