(* ===== verification/Startup.thy ===== *)
theory Startup
  imports Machine Boot ConsoleOutput Ini
begin

text \<open>
  The part of \<open>main\<close> in \<open>kvm.cpp\<close> before the run loop: the command line, the configuration, the
  allocation of the guest memory, the calls that create the virtual machine, the loading of the
  program and of the boot file, and the devices. What the operating system and KVM answer, and the
  contents of the files, are the record \<open>host\<close>. The two debug servers come in \<open>MainProgram\<close>.
\<close>

section \<open>The environment and the outcome\<close>

datatype kvm_call =
    OpenKvm | CreateVm | SetUserMemoryRegion | CreateIrqchip | CreateVcpu | GetIrqchip | SetLapic
  | GetVcpuMmapSize | Mmap

record host =
  h_argv :: "string list"
  h_elf :: "exe_file option"
  h_boot64 :: "exe_file option"
  h_config :: "string option"
  h_alloc :: "nat \<Rightarrow> guest_mem option"
  h_kvm :: "kvm_call \<Rightarrow> bool"
  h_sregs :: kvm_sregs
  h_junk :: "u32 \<times> u32 \<times> u32 \<times> u32"
  h_disk :: hard_disk

text \<open>How the start can end: \<open>main\<close> returns a code, or the process stops in a callee.\<close>

datatype start_error = Returns int | StoppedIn stop

record started =
  st_sregs :: kvm_sregs
  st_regs :: kvm_regs
  st_mem :: guest_mem
  st_machine :: machine
  st_console :: console_output

definition stopped_in :: "stop + 'a \<Rightarrow> start_error + 'a" where
  "stopped_in = map_sum StoppedIn id"

lemma stopped_in_simps [simp]: "stopped_in (Inl e) = Inl (StoppedIn e)" "stopped_in (Inr x) = Inr x"
  by (simp_all add: stopped_in_def)

section \<open>Operations\<close>

definition usage_error :: "string list \<Rightarrow> bool" where
  "usage_error argv \<longleftrightarrow>
     (let argc = length argv
      in argc \<noteq> 2 \<and> (argc = 1 \<or> argc = 3 \<or> argc = 4 \<and> argv ! 2 \<noteq> ''-logfile''))"

definition log_file :: "string list \<Rightarrow> string" where
  "log_file argv = (if length argv = 4 \<and> argv ! 2 = ''-logfile'' then argv ! 3 else ''console.log'')"

text \<open>The console part of \<open>initIO\<close>: the controller is attached and the threads are started.\<close>

definition init_console :: "machine \<Rightarrow> console_output" where
  "init_console m = snd (startThread (m_vga m) (snd (attachVGA console_output_new)))"

text \<open>Up to the allocation of the memory.\<close>

definition main_configure :: "host \<Rightarrow> start_error + u32 \<times> guest_mem" where
  "main_configure h =
     (if usage_error (h_argv h) then Inl (Returns 1)
      else if length (h_argv h) < 2 then Inl (StoppedIn (Fault OutOfBounds))
      else if h_elf h = None then Inl (Returns 1)
      else if ParseError (INIReader_new (h_config h)) < 0 then Inl (Returns 2)
      else
        (let mem_size = guest_memory_size (word_of_int (GetInteger (INIReader_new (h_config h)) ''vm-spec'' ''memsize'' 8))
         in case h_alloc h (unat mem_size) of None \<Rightarrow> Inl (Returns 3) | Some m \<Rightarrow> Inr (mem_size, m)))"

text \<open>The virtual machine with its memory and its interrupt controller.\<close>

definition main_create_vm :: "host \<Rightarrow> start_error + unit" where
  "main_create_vm h =
     (if \<not> h_kvm h OpenKvm then Inl (Returns 4)
      else if \<not> h_kvm h CreateVm then Inl (Returns 5)
      else if \<not> h_kvm h SetUserMemoryRegion then Inl (Returns 1)
      else if \<not> h_kvm h CreateIrqchip then Inl (Returns 1)
      else Inr ())"

text \<open>The virtual processor and its run structure.\<close>

definition main_create_vcpu :: "host \<Rightarrow> start_error + unit" where
  "main_create_vcpu h =
     (if \<not> h_kvm h CreateVcpu then Inl (Returns 1)
      else if \<not> h_kvm h GetIrqchip then Inl (Returns 1)
      else if \<not> h_kvm h SetLapic then Inl (Returns 1)
      else if \<not> h_kvm h GetVcpuMmapSize then Inl (Returns 1)
      else if \<not> h_kvm h Mmap then Inl (Returns 1)
      else Inr ())"

text \<open>Everything before the devices: the loaded memory and the registers of the processor.\<close>

definition main_load :: "host \<Rightarrow> start_error + kvm_sregs \<times> kvm_regs \<times> guest_mem" where
  "main_load h =
     bind_res (main_configure h) (\<lambda>(mem_size, m).
     bind_res (main_create_vm h) (\<lambda>_.
     bind_res (stopped_in (estrai_segmento (h_elf h) (ucast mem_size) registrati m)) (\<lambda>(entry_point, li, m1).
     bind_res (main_create_vcpu h) (\<lambda>_.
     bind_res (stopped_in (run_long_mode (Bootloader_new (ucast mem_size) entry_point 0x400000)
                 (h_sregs h) (h_boot64 h) li m1)) (\<lambda>(sregs, regs, li2, m2).
       Inr (sregs, regs, m2))))))"

definition main_setup :: "host \<Rightarrow> start_error + started" where
  "main_setup h =
     bind_res (main_load h) (\<lambda>(sregs, regs, m).
     bind_res (stopped_in (lift_res (initIO (h_junk h) (h_disk h)))) (\<lambda>mach.
       Inr \<lparr>st_sregs = sregs, st_regs = regs, st_mem = m, st_machine = mach, st_console = init_console mach\<rparr>))"

section \<open>Loading\<close>

lemma main_loads_guest:
  assumes "\<not> usage_error (h_argv h)" "h_argv h \<noteq> []" "h_config h = Some cfg" "\<And>c. h_kvm h c"
    and "sz = guest_memory_size (word_of_int (GetInteger (INIReader_new (Some cfg)) ''vm-spec'' ''memsize'' 8))" "h_alloc h (unat sz) = Some m" "length m = unat sz"
    and "h_elf h = Some prog" "i \<in> set (li_testa registrati)" "interpreta i prog = Inr (Some ep)" "ben_formato prog ep"
    and "h_boot64 h = Some boot" "j \<in> set (li_testa registrati)" "interpreta j boot = Inr (Some eb)" "ben_formato boot eb"
  shows "\<exists>s r m'. main_load h = Inr (s, r, m') \<and> guest_ready sz prog ep boot eb s r m'"
proof -
  note range = guest_memory_size_range [of "word_of_int (GetInteger (INIReader_new (Some cfg)) ''vm-spec'' ''memsize'' 8)", folded assms(5)]
  obtain s r li1 m1 li2 m2 where b: "estrai_segmento (Some prog) (ucast sz) registrati m = Inr (entry_point ep, li1, m1)"
    "run_long_mode (Bootloader_new (ucast sz) (entry_point ep) 0x400000) (h_sregs h) (Some boot) li1 m1 = Inr (s, r, li2, m2)"
    "guest_ready sz prog ep boot eb s r m2"
    using guest_becomes_ready [OF assms(7) range(1) _ _ assms(9-11,13-15), of "h_sregs h"] range(2,3) by auto
  have "length (h_argv h) \<noteq> 1" using assms(1) by (auto simp: usage_error_def)
  then have "\<not> length (h_argv h) < 2" using assms(2) by (cases "h_argv h") (auto simp: less_Suc_eq numeral_2_eq_2)
  then have "main_load h = Inr (s, r, m2)"
    using assms(1,3,4,6,8,12) b(1,2) ParseError_opened [of cfg]
    by (simp add: main_load_def main_configure_def main_create_vm_def main_create_vcpu_def assms(5) [symmetric] Let_def)
  then show ?thesis using b(3) by blast
qed

text \<open>A host on which everything works, with the configuration file of the repository, and the
  example program as program and as boot file.\<close>

definition example_host :: "guest_mem \<Rightarrow> host" where
  "example_host m = \<lparr>h_argv = [''kvm'', ''prog''], h_elf = Some example_elf, h_boot64 = Some example_elf,
     h_config = Some config_ini, h_alloc = (\<lambda>_. Some m), h_kvm = (\<lambda>_. True), h_sregs = zero_sregs,
     h_junk = (0, 0, 0, 0), h_disk = small_disk\<rparr>"

lemma example_host_ok:
  assumes "length m = unat (0xA00000 :: u32)"
  shows "\<not> usage_error (h_argv (example_host m))" "h_argv (example_host m) \<noteq> []"
    "h_config (example_host m) = Some config_ini" "h_kvm (example_host m) c"
    "0xA00000 = guest_memory_size (word_of_int (GetInteger (INIReader_new (Some config_ini)) ''vm-spec'' ''memsize'' 8))"
    "h_alloc (example_host m) (unat (0xA00000 :: u32)) = Some m" "length m = unat (0xA00000 :: u32)"
    "h_elf (example_host m) = Some example_elf" "int_elf64 \<in> set (li_testa registrati)"
    "interpreta int_elf64 example_elf = Inr (Some (Exe64 example_exe))" "ben_formato example_elf (Exe64 example_exe)"
    "h_boot64 (example_host m) = Some example_elf" "HardDisk_new [] 2 two_blocks = Inr (h_disk (example_host m))"
  using assms config_ini_read small_disk_new example_init example_ben_formato
  by (simp_all add: example_host_def usage_error_def guest_memory_size_def registrati_def aggiungi_def)

section \<open>Properties\<close>

text \<open>
  (C4) From the command line to the run loop: when the command line and the files are in order,
  the memory is allocated and KVM grants every call, the start succeeds. The memory has the
  size that the configuration file asks for; the guest is ready (entry points, descriptors, identity
  mapping, segments in place, as \<open>guest_ready\<close> says); all devices satisfy their invariants; and
  the console thread watches the text screen at 0xB8000, which lies inside the guest memory.
\<close>

theorem main_starts_guest:
  assumes "\<not> usage_error (h_argv h)" "h_argv h \<noteq> []" "h_config h = Some cfg" "\<And>c. h_kvm h c"
    and "sz = guest_memory_size (word_of_int (GetInteger (INIReader_new (Some cfg)) ''vm-spec'' ''memsize'' 8))" "h_alloc h (unat sz) = Some m" "length m = unat sz"
    and "h_elf h = Some prog" "i \<in> set (li_testa registrati)" "interpreta i prog = Inr (Some ep)" "ben_formato prog ep"
    and "h_boot64 h = Some boot" "j \<in> set (li_testa registrati)" "interpreta j boot = Inr (Some eb)" "ben_formato boot eb"
    and "HardDisk_new blk nsec f = Inr (h_disk h)"
  shows "\<exists>st. main_setup h = Inr st \<and> guest_ready sz prog ep boot eb (st_sregs st) (st_regs st) (st_mem st) \<and>
    machine_inv (st_machine st) \<and> co_videoMatrix (st_console st) = Some 0xB8000 \<and>
    0xB8000 + 2 * 2000 \<le> length (st_mem st)"
proof -
  obtain s r m2 where b: "main_load h = Inr (s, r, m2)" "guest_ready sz prog ep boot eb s r m2"
    using main_loads_guest [OF assms(1-15)] by blast
  have "hd_inv (h_disk h)" using HardDisk_new_inv [OF assms(16)] by simp
  then obtain mach where mach: "initIO (h_junk h) (h_disk h) = Inr mach" "machine_inv mach"
    using initIO_defined by blast
  have "vga_memoryStart (m_vga mach) = Some 0xB8000" using mach(2) by (simp add: machine_inv_def)
  then have con: "co_videoMatrix (init_console mach) = Some 0xB8000"
    by (simp add: init_console_def startThread_def attachVGA_def console_output_new_def vga_getVMem_def)
  have "main_setup h = Inr \<lparr>st_sregs = s, st_regs = r, st_mem = m2, st_machine = mach, st_console = init_console mach\<rparr>"
    using b(1) mach(1) by (simp add: main_setup_def)
  moreover have "length m2 = unat sz" using b(2) by (simp add: guest_ready_def)
  moreover have "8 * 2 ^ 20 \<le> unat sz" unfolding assms(5) by (rule guest_memory_size_range(2))
  ultimately show ?thesis using b(2) mach(2) con by simp
qed

theorem main_starts_guest_witness:
  "\<exists>m st. main_setup (example_host m) = Inr st \<and> machine_inv (st_machine st) \<and> rg_rip (st_regs st) = 3 \<and>
     page_walk (st_mem st) 0x20000 0x1234 = Some 0x1234 \<and>
     get_bytes 2 6 (st_mem st) = [0xDE, 0xAD, 0xBE, 0xEF, 0, 0]"
proof -
  obtain m :: guest_mem where m: "length m = unat (0xA00000 :: u32)" using Ex_list_of_length by blast
  note h = example_host_ok [OF m]
  obtain st where st: "main_setup (example_host m) = Inr st" "machine_inv (st_machine st)"
    "guest_ready 0xA00000 example_elf (Exe64 example_exe) example_elf (Exe64 example_exe) (st_sregs st) (st_regs st) (st_mem st)"
    using main_starts_guest [OF h(1-12) h(9-11,13)] by blast
  have fl: "segmenti (Exe64 example_exe) = [] @ Seg64 example_seg # []" by (simp add: example_segments)
  note g = st(3) [unfolded guest_ready_def]
  have "rg_rip (st_regs st) = 3" using g by (simp add: EseguibileElf64_entry_point_def example_header)
  moreover have "page_walk (st_mem st) 0x20000 0x1234 = Some 0x1234" using g by simp
  moreover have "get_bytes 2 6 (st_mem st) = [0xDE, 0xAD, 0xBE, 0xEF, 0, 0]"
    using guest_ready_boot [OF st(3) fl] by (simp add: example_seg_fields example_image)
  ultimately show ?thesis using st by blast
qed

text \<open>Which command lines are taken, and the code that \<open>main\<close> returns for the others.\<close>

lemma usage:
  "usage_error argv \<Longrightarrow> main_setup (h\<lparr>h_argv := argv\<rparr>) = Inl (Returns 1)"
  "usage_error [k, prog, ''-logfile'', f] = False" "usage_error (k # prog # x # y # z # zs) = False"
  "log_file (k # prog # ''-logfile'' # f # z # zs) = ''console.log''"
  by (simp_all add: main_setup_def main_load_def main_configure_def usage_error_def log_file_def)

end
