(* ===== verification/Lifecycle.thy ===== *)
theory Lifecycle
  imports ConsoleInput ConsoleOutput
begin

text \<open>
  The terminal and the end of the process: the console objects of \<open>backend/ConsoleInput.cpp\<close> and
  \<open>backend/ConsoleOutput.cpp\<close> as far as they change the attributes of the terminal, the console part of
  \<open>initIO\<close>, and \<open>endIO\<close> of \<open>kvm.cpp\<close>, which runs as an exit handler and on an interrupt from the
  keyboard.
\<close>

section \<open>Terminals\<close>

text \<open>Attributes of a terminal, and the bits of \<open>termios.h\<close> that the constructor changes.\<close>

record termios =
  c_iflag :: u32
  c_oflag :: u32
  c_cflag :: u32
  c_lflag :: u32

abbreviation IGNBRK :: u32 where "IGNBRK \<equiv> 0x1"
abbreviation BRKINT :: u32 where "BRKINT \<equiv> 0x2"
abbreviation PARMRK :: u32 where "PARMRK \<equiv> 0x8"
abbreviation ISTRIP :: u32 where "ISTRIP \<equiv> 0x20"
abbreviation INLCR :: u32 where "INLCR \<equiv> 0x40"
abbreviation IGNCR :: u32 where "IGNCR \<equiv> 0x80"
abbreviation ICRNL :: u32 where "ICRNL \<equiv> 0x100"
abbreviation IXON :: u32 where "IXON \<equiv> 0x400"
abbreviation ICANON :: u32 where "ICANON \<equiv> 0x2"
abbreviation ECHO :: u32 where "ECHO \<equiv> 0x8"
abbreviation ECHONL :: u32 where "ECHONL \<equiv> 0x40"
abbreviation IEXTEN :: u32 where "IEXTEN \<equiv> 0x8000"
abbreviation CSIZE :: u32 where "CSIZE \<equiv> 0x30"
abbreviation CS8 :: u32 where "CS8 \<equiv> 0x30"
abbreviation PARENB :: u32 where "PARENB \<equiv> 0x100"

definition raw_attr :: "termios \<Rightarrow> termios" where
  "raw_attr t =
     t\<lparr>c_iflag := c_iflag t AND NOT (IGNBRK OR BRKINT OR PARMRK OR ISTRIP OR INLCR OR IGNCR OR ICRNL OR IXON),
       c_lflag := c_lflag t AND NOT (ICANON OR ECHO OR ECHONL OR IEXTEN),
       c_cflag := (c_cflag t AND NOT (CSIZE OR PARENB)) OR CS8\<rparr>"

text \<open>
  Standard input and standard output are terminals, the same one or two: \<open>tty_in\<close> and \<open>tty_out\<close> name
  them. \<open>screen\<close> is what the process writes on standard output.
\<close>

record ttys =
  tty_in :: nat
  tty_out :: nat
  tty_attr :: "nat \<Rightarrow> termios"
  screen :: string

section \<open>The process\<close>

text \<open>
  The pointer \<open>debug_serv\<close>: null, a server, or a server that has been deleted. The handlers are what
  \<open>exit\<close> has to run, the last one registered first.
\<close>

datatype server_ptr = NoServer | LiveServer | DeletedServer

datatype exit_handler = EndIO | DestroyConsoleInput | DestroyConsoleOutput

record console_in =
  cin_tty_attr_old :: termios
  cin_attached :: bool
  cin_thread :: bool

record process =
  pr_ttys :: ttys
  pr_console_in :: "console_in option"
  pr_console_out :: "termios option"
  pr_debug_serv :: server_ptr
  pr_handlers :: "exit_handler list"
  pr_sigint :: bool

datatype end_error = NoConsole | DoubleDelete

section \<open>The console objects\<close>

definition ConsoleInput_new :: "process \<Rightarrow> process" where
  "ConsoleInput_new p =
     (let t = pr_ttys p; tty = tty_in t; old = tty_attr t tty
      in p\<lparr>pr_ttys := t\<lparr>tty_attr := (tty_attr t)(tty := raw_attr old)\<rparr>,
           pr_console_in := Some \<lparr>cin_tty_attr_old = old, cin_attached = False, cin_thread = False\<rparr>,
           pr_handlers := DestroyConsoleInput # pr_handlers p\<rparr>)"

definition ConsoleInput_getInstance :: "process \<Rightarrow> process" where
  "ConsoleInput_getInstance p = (if pr_console_in p = None then ConsoleInput_new p else p)"

definition ConsoleInput_resetConsole :: "process \<Rightarrow> (end_error + process)" where
  "ConsoleInput_resetConsole p =
     (case pr_console_in p of
        None \<Rightarrow> Inl NoConsole
      | Some c \<Rightarrow>
          (let t = pr_ttys p
           in Inr (p\<lparr>pr_ttys := t\<lparr>tty_attr := (tty_attr t)(tty_in t := cin_tty_attr_old c)\<rparr>\<rparr>)))"

text \<open>
  Both methods return false when they have nothing to do; on the path that does the work they have
  no \<open>return\<close>, so the value is not determined (\<open>None\<close>).
\<close>

definition attachKeyboard :: "console_in \<Rightarrow> bool option \<times> console_in" where
  "attachKeyboard c = (if cin_attached c then (Some False, c) else (None, c\<lparr>cin_attached := True\<rparr>))"

definition startEventThread :: "console_in \<Rightarrow> bool option \<times> console_in" where
  "startEventThread c =
     (if cin_thread c \<or> \<not> cin_attached c then (Some False, c) else (None, c\<lparr>cin_thread := True\<rparr>))"

definition ConsoleOutput_new :: "process \<Rightarrow> process" where
  "ConsoleOutput_new p =
     (let t = pr_ttys p
      in p\<lparr>pr_console_out := Some (tty_attr t (tty_out t)),
           pr_handlers := DestroyConsoleOutput # pr_handlers p\<rparr>)"

definition ConsoleOutput_getInstance :: "process \<Rightarrow> process" where
  "ConsoleOutput_getInstance p = (if pr_console_out p = None then ConsoleOutput_new p else p)"

definition RESET_CONSOLE :: string where
  "RESET_CONSOLE = [CHR 0x1B, CHR ''c'']"

definition ConsoleOutput_resetConsole :: "process \<Rightarrow> (end_error + process)" where
  "ConsoleOutput_resetConsole p =
     (case pr_console_out p of
        None \<Rightarrow> Inl NoConsole
      | Some old \<Rightarrow>
          (let t = pr_ttys p
           in Inr (p\<lparr>pr_ttys := t\<lparr>tty_attr := (tty_attr t)(tty_out t := old), screen := screen t @ RESET_CONSOLE\<rparr>\<rparr>)))"

section \<open>Start and end\<close>

text \<open>The console part of \<open>initIO\<close>, and the registration of the handlers at its end.\<close>

definition initIO_consoles :: "process \<Rightarrow> process" where
  "initIO_consoles p =
     (let p = ConsoleInput_getInstance p;
          p = p\<lparr>pr_console_in := map_option (\<lambda>c. snd (startEventThread (snd (attachKeyboard c)))) (pr_console_in p)\<rparr>;
          p = ConsoleOutput_getInstance p
      in p\<lparr>pr_handlers := EndIO # pr_handlers p, pr_sigint := True\<rparr>)"

text \<open>\<open>endIO\<close> before its call of \<open>exit\<close>. The pointer is not cleared after the deletion.\<close>

definition endIO_body :: "process \<Rightarrow> (end_error + process)" where
  "endIO_body p =
     bind_res (ConsoleOutput_resetConsole p) (\<lambda>p.
     bind_res (ConsoleInput_resetConsole p) (\<lambda>p.
       case pr_debug_serv p of
         NoServer \<Rightarrow> Inr p
       | LiveServer \<Rightarrow> Inr (p\<lparr>pr_debug_serv := DeletedServer\<rparr>)
       | DeletedServer \<Rightarrow> Inl DoubleDelete))"

text \<open>
  \<open>exit\<close>: it takes the handlers one by one. \<open>endIO\<close> calls \<open>exit\<close> again, with status 0; on Linux that
  call goes on with the handlers that are left and its status is the one that counts.
\<close>

function do_exit :: "int \<Rightarrow> process \<Rightarrow> (end_error + int \<times> process)" where
  "do_exit status p =
     (case pr_handlers p of
        [] \<Rightarrow> Inr (status, p)
      | h # hs \<Rightarrow>
          (let p = p\<lparr>pr_handlers := hs\<rparr>
           in case h of
                DestroyConsoleOutput \<Rightarrow>
                  (case ConsoleOutput_resetConsole p of Inl e \<Rightarrow> Inl e | Inr p' \<Rightarrow> do_exit status (p'\<lparr>pr_handlers := hs\<rparr>))
              | DestroyConsoleInput \<Rightarrow>
                  (case ConsoleInput_resetConsole p of Inl e \<Rightarrow> Inl e | Inr p' \<Rightarrow> do_exit status (p'\<lparr>pr_handlers := hs\<rparr>))
              | EndIO \<Rightarrow>
                  (case endIO_body p of Inl e \<Rightarrow> Inl e | Inr p' \<Rightarrow> do_exit 0 (p'\<lparr>pr_handlers := hs\<rparr>))))"
  by pat_completeness auto
termination
  by (relation "measure (\<lambda>(status, p). length (pr_handlers p))") auto

declare do_exit.simps [simp del]

definition endIO :: "process \<Rightarrow> (end_error + int \<times> process)" where
  "endIO p = bind_res (endIO_body p) (do_exit 0)"

text \<open>
  How the process can end once it runs: \<open>main\<close> returns, some function calls \<open>exit\<close>, or the user
  types ctrl-c, which runs \<open>endIO\<close> if it has been installed and kills the process otherwise.
\<close>

datatype ending = MainReturns int | CallsExit int | Interrupted

datatype outcome = Status int | Killed

primrec finish :: "ending \<Rightarrow> process \<Rightarrow> (end_error + outcome \<times> process)" where
  "finish (MainReturns c) p = bind_res (do_exit c p) (\<lambda>(st, p). Inr (Status st, p))"
| "finish (CallsExit c) p = bind_res (do_exit c p) (\<lambda>(st, p). Inr (Status st, p))"
| "finish Interrupted p =
     (if pr_sigint p then bind_res (endIO p) (\<lambda>(st, p). Inr (Status st, p)) else Inr (Killed, p))"

section \<open>Properties\<close>

definition fresh_process :: "process \<Rightarrow> bool" where
  "fresh_process p \<longleftrightarrow> pr_console_in p = None \<and> pr_console_out p = None \<and> pr_handlers p = [] \<and>
     \<not> pr_sigint p \<and> pr_debug_serv p \<noteq> DeletedServer"

lemma initIO_consoles_result:
  assumes "fresh_process p"
  shows "pr_handlers (initIO_consoles p) = [EndIO, DestroyConsoleOutput, DestroyConsoleInput]"
    "\<exists>c. pr_console_in (initIO_consoles p) = Some c \<and> cin_thread c \<and>
       cin_tty_attr_old c = tty_attr (pr_ttys p) (tty_in (pr_ttys p))"
    "pr_console_out (initIO_consoles p) = Some (tty_attr (pr_ttys (initIO_consoles p)) (tty_out (pr_ttys p)))"
    "pr_ttys (initIO_consoles p) = (pr_ttys p)\<lparr>tty_attr := (tty_attr (pr_ttys p))
       (tty_in (pr_ttys p) := raw_attr (tty_attr (pr_ttys p) (tty_in (pr_ttys p))))\<rparr>"
    "pr_debug_serv (initIO_consoles p) = pr_debug_serv p" "pr_sigint (initIO_consoles p)"
  using assms
  by (simp_all add: fresh_process_def initIO_consoles_def ConsoleInput_getInstance_def ConsoleInput_new_def
      ConsoleOutput_getInstance_def ConsoleOutput_new_def attachKeyboard_def startEventThread_def Let_def)

lemma do_exit_Nil: "pr_handlers p = [] \<Longrightarrow> do_exit st p = Inr (st, p)"
  by (subst do_exit.simps) simp

lemma do_exit_Out:
  "pr_handlers p = DestroyConsoleOutput # hs \<Longrightarrow> ConsoleOutput_resetConsole (p\<lparr>pr_handlers := hs\<rparr>) = Inr p' \<Longrightarrow>
   do_exit st p = do_exit st (p'\<lparr>pr_handlers := hs\<rparr>)"
  by (subst do_exit.simps) (simp add: Let_def)

lemma do_exit_In:
  "pr_handlers p = DestroyConsoleInput # hs \<Longrightarrow> ConsoleInput_resetConsole (p\<lparr>pr_handlers := hs\<rparr>) = Inr p' \<Longrightarrow>
   do_exit st p = do_exit st (p'\<lparr>pr_handlers := hs\<rparr>)"
  by (subst do_exit.simps) (simp add: Let_def)

lemma do_exit_EndIO:
  "pr_handlers p = EndIO # hs \<Longrightarrow>
   do_exit st p = (case endIO_body (p\<lparr>pr_handlers := hs\<rparr>) of Inl e \<Rightarrow> Inl e
                   | Inr p' \<Rightarrow> do_exit 0 (p'\<lparr>pr_handlers := hs\<rparr>))"
  by (subst do_exit.simps) (simp add: Let_def)

text \<open>
  Both consoles exist, and the input console remembers the attributes \<open>orig\<close>. Whatever the other
  attributes are, resetting output and then input leaves the input terminal at \<open>orig\<close>.
\<close>

definition consoles_at :: "termios \<Rightarrow> termios \<Rightarrow> process \<Rightarrow> bool" where
  "consoles_at orig out p \<longleftrightarrow>
     (\<exists>c. pr_console_in p = Some c \<and> cin_tty_attr_old c = orig) \<and> pr_console_out p = Some out"

definition reset_ttys :: "termios \<Rightarrow> termios \<Rightarrow> ttys \<Rightarrow> ttys" where
  "reset_ttys orig out t =
     t\<lparr>screen := screen t @ RESET_CONSOLE, tty_attr := (tty_attr t)(tty_out t := out, tty_in t := orig)\<rparr>"

lemma endIO_body_result:
  assumes "consoles_at orig out p"
  shows "endIO_body p =
    (if pr_debug_serv p = DeletedServer then Inl DoubleDelete
     else Inr (p\<lparr>pr_ttys := reset_ttys orig out (pr_ttys p),
                 pr_debug_serv := (if pr_debug_serv p = NoServer then NoServer else DeletedServer)\<rparr>))"
  using assms
  by (auto simp: endIO_body_def consoles_at_def ConsoleOutput_resetConsole_def ConsoleInput_resetConsole_def
      reset_ttys_def Let_def split: server_ptr.splits)

lemma destructors_result:
  assumes "consoles_at orig out p" "pr_handlers p = [DestroyConsoleOutput, DestroyConsoleInput]"
  shows "do_exit st p = Inr (st, p\<lparr>pr_ttys := reset_ttys orig out (pr_ttys p), pr_handlers := []\<rparr>)"
proof -
  obtain c where c: "pr_console_in p = Some c" "cin_tty_attr_old c = orig" "pr_console_out p = Some out"
    using assms(1) by (auto simp: consoles_at_def)
  let ?t = "pr_ttys p"
  let ?p1 = "p\<lparr>pr_ttys := ?t\<lparr>tty_attr := (tty_attr ?t)(tty_out ?t := out), screen := screen ?t @ RESET_CONSOLE\<rparr>,
    pr_handlers := [DestroyConsoleInput]\<rparr>"
  have "do_exit st p = do_exit st ?p1"
    using do_exit_Out [OF assms(2)] c by (simp add: ConsoleOutput_resetConsole_def Let_def)
  also have "\<dots> = do_exit st (p\<lparr>pr_ttys := reset_ttys orig out ?t, pr_handlers := []\<rparr>)"
    using do_exit_In [of ?p1 "[]"] c by (simp add: ConsoleInput_resetConsole_def reset_ttys_def Let_def)
  finally show ?thesis by (simp add: do_exit_Nil)
qed

lemma reset_twice:
  "reset_ttys orig out (reset_ttys orig out t) =
   (reset_ttys orig out t)\<lparr>screen := screen t @ RESET_CONSOLE @ RESET_CONSOLE\<rparr>"
  by (cases "tty_in t = tty_out t") (simp_all add: reset_ttys_def fun_upd_twist)

lemma exit_result:
  assumes "consoles_at orig out p" "pr_handlers p = [EndIO, DestroyConsoleOutput, DestroyConsoleInput]"
  shows "do_exit st p =
    (if pr_debug_serv p = DeletedServer then Inl DoubleDelete
     else Inr (0, p\<lparr>pr_ttys := reset_ttys orig out (reset_ttys orig out (pr_ttys p)), pr_handlers := [],
                 pr_debug_serv := (if pr_debug_serv p = NoServer then NoServer else DeletedServer)\<rparr>))"
proof -
  have "consoles_at orig out (p\<lparr>pr_handlers := [DestroyConsoleOutput, DestroyConsoleInput]\<rparr>)"
    using assms(1) by (simp add: consoles_at_def)
  note b = endIO_body_result [OF this]
  let ?q = "p\<lparr>pr_ttys := reset_ttys orig out (pr_ttys p),
      pr_debug_serv := (if pr_debug_serv p = NoServer then NoServer else DeletedServer),
      pr_handlers := [DestroyConsoleOutput, DestroyConsoleInput]\<rparr>"
  have "consoles_at orig out ?q" using assms(1) by (simp add: consoles_at_def)
  from destructors_result [OF this, of 0] show ?thesis
    using do_exit_EndIO [OF assms(2), of st] b by simp
qed

text \<open>
  The end of the process: the consoles were set up on any terminals, with or without a debug
  server, and the process now ends in any of the three ways. While it runs the input terminal
  neither echoes nor waits for a newline. Afterwards every attribute of every terminal is back at
  its value from before the start, although the output console saved the attributes the input
  console had changed, and the exit status is 0, also where \<open>main\<close> returns 1. The exception is
  ctrl-c with a debug server: \<open>endIO\<close> runs a second time as an exit handler, and deletes the server
  again.
\<close>

theorem terminal_restored:
  assumes "fresh_process p"
  defines "q \<equiv> initIO_consoles p"
  shows "c_lflag (tty_attr (pr_ttys q) (tty_in (pr_ttys q))) AND (ICANON OR ECHO) = 0 \<and>
    (if how = Interrupted \<and> pr_debug_serv p = LiveServer then finish how q = Inl DoubleDelete
     else \<exists>r. finish how q = Inr (Status 0, r) \<and> tty_attr (pr_ttys r) = tty_attr (pr_ttys p) \<and>
       pr_debug_serv r \<noteq> LiveServer \<and> pr_handlers r = [])"
proof -
  let ?t = "pr_ttys p"
  let ?orig = "tty_attr ?t (tty_in ?t)" and ?out = "tty_attr (pr_ttys q) (tty_out ?t)"
  note i = initIO_consoles_result [OF assms(1), folded q_def]
  have at: "consoles_at ?orig ?out q" using i(2,3) by (auto simp: consoles_at_def)
  have live: "pr_debug_serv q \<noteq> DeletedServer" using assms(1) i(5) by (simp add: fresh_process_def)
  have raw: "c_lflag (tty_attr (pr_ttys q) (tty_in (pr_ttys q))) AND (ICANON OR ECHO) = 0"
    unfolding i(4) by (simp add: raw_attr_def and.assoc)
  have once: "tty_attr (reset_ttys ?orig ?out (pr_ttys q)) = tty_attr ?t"
    unfolding i(4) by (auto simp: reset_ttys_def fun_eq_iff)
  have twice: "tty_attr (reset_ttys ?orig ?out (reset_ttys ?orig ?out (pr_ttys q))) = tty_attr ?t"
    unfolding reset_twice using once by simp
  have ex: "\<exists>r. do_exit st q = Inr (0, r) \<and> tty_attr (pr_ttys r) = tty_attr ?t \<and> pr_debug_serv r \<noteq> LiveServer \<and>
      pr_handlers r = []" for st
    using exit_result [OF at i(1), of st] live twice by simp
  let ?b = "q\<lparr>pr_ttys := reset_ttys ?orig ?out (pr_ttys q),
    pr_debug_serv := (if pr_debug_serv q = NoServer then NoServer else DeletedServer)\<rparr>"
  have "consoles_at ?orig ?out ?b" "pr_handlers ?b = [EndIO, DestroyConsoleOutput, DestroyConsoleInput]"
    using at i(1) by (simp_all add: consoles_at_def)
  note e2 = exit_result [OF this]
  have "tty_attr (reset_ttys ?orig ?out (reset_ttys ?orig ?out (reset_ttys ?orig ?out (pr_ttys q)))) = tty_attr ?t"
    unfolding reset_twice [of ?orig ?out "reset_ttys ?orig ?out (pr_ttys q)"] using twice by simp
  then have int: "if pr_debug_serv p = LiveServer then endIO q = Inl DoubleDelete
    else \<exists>r. endIO q = Inr (0, r) \<and> tty_attr (pr_ttys r) = tty_attr ?t \<and> pr_debug_serv r \<noteq> LiveServer \<and>
      pr_handlers r = []"
    using endIO_body_result [OF at] live e2 [of 0] i(5)
    by (cases "pr_debug_serv p") (simp_all add: endIO_def)
  show ?thesis
  proof (cases how)
    case Interrupted
    then show ?thesis using raw int i(6) by (auto split: if_splits)
  qed (use raw ex in \<open>fastforce\<close>)+
qed

definition one_tty :: process where
  "one_tty = \<lparr>pr_ttys = \<lparr>tty_in = 0, tty_out = 0, tty_attr = (\<lambda>_. \<lparr>c_iflag = 0x500, c_oflag = 5, c_cflag = 0xBF, c_lflag = 0x8A3B\<rparr>),
       screen = []\<rparr>, pr_console_in = None, pr_console_out = None, pr_debug_serv = LiveServer, pr_handlers = [], pr_sigint = False\<rparr>"

theorem terminal_restored_witness:
  "finish Interrupted (initIO_consoles one_tty) = Inl DoubleDelete \<and>
   (\<exists>r. finish (MainReturns 1) (initIO_consoles one_tty) = Inr (Status 0, r) \<and>
      c_lflag (tty_attr (pr_ttys r) 0) = 0x8A3B)"
proof -
  have f: "fresh_process one_tty" by (simp add: fresh_process_def one_tty_def)
  show ?thesis
    using terminal_restored [OF f, of Interrupted] terminal_restored [OF f, of "MainReturns 1"]
    by (auto simp: one_tty_def simp del: finish.simps)
qed

end
