(* ===== verification/GdbServer.thy ===== *)
theory GdbServer
  imports GuestMemory
begin

text \<open>
  The remote debugging stub, \<open>gdbserver/gdbserver.h\<close> and \<open>gdbserver/gdbserver.cpp\<close>, with its two
  callbacks in \<open>kvm.cpp\<close>: the packet layer with checksums and acknowledgements, the hexadecimal
  codecs, the command interpreter and its session loop. The socket is a list of the bytes the
  client will send; the bytes the stub sends are a result. When the list is used up the stub is
  waiting for input, which is the value None. The input and output buffers are kept with all
  their 400 bytes between packets, as in the program.
\<close>

section \<open>Characters and digits\<close>

definition ascii :: "string \<Rightarrow> u8 list" where
  "ascii s = map of_char s"

abbreviation BUFMAX :: nat where "BUFMAX \<equiv> 400"
abbreviation NUMREGS :: nat where "NUMREGS \<equiv> 24"
abbreviation NUMREGBYTES :: nat where "NUMREGBYTES \<equiv> 192"

text \<open>The codes of the framing characters \<open>$\<close>, \<open>#\<close>, \<open>+\<close>, \<open>-\<close> and the colon.\<close>

abbreviation CH_START :: u8 where "CH_START \<equiv> 0x24"
abbreviation CH_END :: u8 where "CH_END \<equiv> 0x23"
abbreviation CH_ACK :: u8 where "CH_ACK \<equiv> 0x2B"
abbreviation CH_NAK :: u8 where "CH_NAK \<equiv> 0x2D"
abbreviation CH_COLON :: u8 where "CH_COLON \<equiv> 0x3A"

definition hexchars :: "u8 list" where
  "hexchars = [0x30, 0x31, 0x32, 0x33, 0x34, 0x35, 0x36, 0x37, 0x38, 0x39,
     0x61, 0x62, 0x63, 0x64, 0x65, 0x66]"

definition hex :: "u8 \<Rightarrow> int" where
  "hex ch =
     (if ch \<ge> 0x61 \<and> ch \<le> 0x66 then uint ch - 0x61 + 10
      else if ch \<ge> 0x30 \<and> ch \<le> 0x39 then uint ch - 0x30
      else if ch \<ge> 0x41 \<and> ch \<le> 0x46 then uint ch - 0x41 + 10
      else - 1)"

section \<open>Packets\<close>

text \<open>The loop that waits for the start character.\<close>

fun wait_start :: "u8 list \<Rightarrow> u8 list option" where
  "wait_start [] = None"
| "wait_start (c # cs) = (if c = CH_START then Some cs else wait_start cs)"

text \<open>
  The loop that reads the body of a packet: whether it ended with the end character, the
  buffer, the number of characters, the checksum and the rest of the input. A start character
  inside the body starts it over; when the buffer is full the loop ends without a terminator.
\<close>

fun read_body :: "u8 list \<Rightarrow> nat \<Rightarrow> u8 \<Rightarrow> u8 list \<Rightarrow> (bool \<times> u8 list \<times> nat \<times> u8 \<times> u8 list) option" where
  "read_body buf count csum [] =
     (if count < BUFMAX - 1 then None else Some (False, buf, count, csum, []))"
| "read_body buf count csum (c # cs) =
     (if count < BUFMAX - 1 then
        (if c = CH_START then read_body buf 0 0 cs
         else if c = CH_END then Some (True, buf, count, csum, cs)
         else read_body (buf[count := c]) (count + 1) (csum + c) cs)
      else Some (False, buf, count, csum, c # cs))"

lemma wait_start_length: "wait_start inp = Some rest \<Longrightarrow> length rest < length inp"
  by (induction inp) (auto split: if_splits)

lemma read_body_length:
  "read_body buf count csum inp = Some (h, buf', n, s, rest) \<Longrightarrow> length rest \<le> length inp"
proof (induction buf count csum inp rule: read_body.induct)
  case (2 buf count csum c cs)
  then show ?case by (auto split: if_splits)
qed (simp split: if_splits)

text \<open>The transmitted checksum; an invalid digit counts as -1.\<close>

definition sent_checksum :: "u8 \<Rightarrow> u8 \<Rightarrow> u8" where
  "sent_checksum c1 c2 = word_of_int (hex c1 * 16) + word_of_int (hex c2)"

text \<open>
  \<open>getpacket\<close>: the index in the buffer where the packet starts, the buffer, the characters sent
  and the rest of the input. The sequence check looks at the third byte of the buffer whether
  or not the packet is that long.
\<close>

function getpacket :: "u8 list \<Rightarrow> u8 list \<Rightarrow> (nat \<times> u8 list \<times> u8 list \<times> u8 list) option" where
  "getpacket buf inp =
     (case wait_start inp of
        None \<Rightarrow> None
      | Some inp1 \<Rightarrow>
          (case read_body buf 0 0 inp1 of
             None \<Rightarrow> None
           | Some (ended, buf1, count, csum, inp2) \<Rightarrow>
               (let buf2 = buf1[count := 0]
                in if \<not> ended then getpacket buf2 inp2
                   else (case inp2 of
                       c1 # c2 # rest \<Rightarrow>
                         if csum \<noteq> sent_checksum c1 c2 then
                           map_option (\<lambda>(p, b, sent, r). (p, b, CH_NAK # sent, r)) (getpacket buf2 rest)
                         else if buf2 ! 2 = CH_COLON then
                           Some (3, buf2, [CH_ACK, buf2 ! 0, buf2 ! 1], rest)
                         else Some (0, buf2, [CH_ACK], rest)
                     | _ \<Rightarrow> None))))"
  by pat_completeness auto
termination
proof (relation "measure (\<lambda>(buf, inp). length inp)")
qed (auto dest!: wait_start_length read_body_length)

declare getpacket.simps [simp del]

text \<open>\<open>putpacket\<close>: the frame of the C string in the buffer, sent again until it is acknowledged.\<close>

definition cstring :: "u8 list \<Rightarrow> u8 list" where
  "cstring buf = takeWhile (\<lambda>c. c \<noteq> 0) buf"

definition frame :: "u8 list \<Rightarrow> u8 list" where
  "frame p =
     (let csum = sum_list p
      in CH_START # p @ [CH_END, hexchars ! unat (drop_bit 4 csum), hexchars ! unat (csum mod 16)])"

fun putpacket :: "u8 list \<Rightarrow> u8 list \<Rightarrow> (u8 list \<times> u8 list) option" where
  "putpacket p [] = None"
| "putpacket p (c # cs) =
     (if c = CH_ACK then Some (frame p, cs)
      else map_option (\<lambda>(sent, rest). (frame p @ sent, rest)) (putpacket p cs))"

section \<open>Hexadecimal codecs\<close>

text \<open>The digits \<open>mem2hex\<close> writes for a run of bytes.\<close>

definition byte_hex :: "u8 \<Rightarrow> u8 list" where
  "byte_hex ch = [hexchars ! unat (drop_bit 4 ch), hexchars ! unat (ch mod 16)]"

definition hex_digits :: "u8 list \<Rightarrow> u8 list" where
  "hex_digits bs = concat (map byte_hex bs)"

text \<open>
  \<open>mem2hex\<close> with the source bytes at \<open>off\<close> of \<open>src\<close> and the destination at \<open>pos\<close> of the output
  buffer, which also takes the terminator; the result is the buffer and the position of the
  terminator. A negative count runs no iteration.
\<close>

definition mem2hex :: "u8 list \<Rightarrow> int \<Rightarrow> nat \<Rightarrow> u8 list \<Rightarrow> int \<Rightarrow> (u8 list \<times> nat) res" where
  "mem2hex src off pos buf count =
     (let n = nat count
      in if n \<noteq> 0 \<and> (off < 0 \<or> nat off + n > length src) then Inl OutOfBounds
         else if pos + 2 * n + 1 > length buf then Inl OutOfBounds
         else Inr (put_bytes pos (hex_digits (get_bytes (nat off) n src) @ [0]) buf, pos + 2 * n))"

definition hex_byte :: "u8 \<Rightarrow> u8 \<Rightarrow> u8" where
  "hex_byte c1 c2 = word_of_int (hex c1 * 16) + word_of_int (hex c2)"

fun unhex :: "u8 list \<Rightarrow> u8 list" where
  "unhex (c1 # c2 # cs) = hex_byte c1 c2 # unhex cs"
| "unhex _ = []"

text \<open>\<open>hex2mem\<close> with the digits at \<open>pos\<close> of the input buffer and the destination at \<open>off\<close>.\<close>

definition hex2mem :: "u8 list \<Rightarrow> nat \<Rightarrow> u8 list \<Rightarrow> int \<Rightarrow> int \<Rightarrow> u8 list res" where
  "hex2mem buf pos dest off count =
     (let n = nat count
      in if n = 0 then Inr dest
         else if pos + 2 * n > length buf then Inl OutOfBounds
         else if off < 0 \<or> nat off + n > length dest then Inl OutOfBounds
         else Inr (put_bytes (nat off) (unhex (get_bytes pos (2 * n) buf)) dest))"

text \<open>
  \<open>hexToInt\<close>: the number of digits, the value as a 32-bit \<open>int\<close> (the left shift drops the upper
  bits) and the position behind the digits. The string ends with a zero byte.
\<close>

fun hexToInt_loop :: "u8 list \<Rightarrow> u32 \<Rightarrow> nat \<Rightarrow> nat \<times> u32 \<times> nat" where
  "hexToInt_loop [] v n = (n, v, n)"
| "hexToInt_loop (c # cs) v n =
     (if c = 0 \<or> hex c < 0 then (n, v, n)
      else hexToInt_loop cs (push_bit 4 v OR word_of_int (hex c)) (n + 1))"

definition hexToInt :: "u8 list \<Rightarrow> nat \<Rightarrow> nat \<times> int \<times> nat" where
  "hexToInt buf pos =
     (let (n, v, k) = hexToInt_loop (drop pos buf) 0 0 in (n, sint v, pos + k))"

section \<open>State of the stub\<close>

text \<open>
  \<open>registers\<close> is kept as the 192 bytes of the array, because the commands address it as bytes;
  \<open>g_vcpu\<close> are the general registers last handed to the processor, in the order of the register
  numbers (\<open>rax\<close> to \<open>r15\<close>, \<open>rip\<close>, \<open>rflags\<close>).
\<close>

record gdb =
  g_registers :: "u8 list"
  g_extended :: "u64 list"
  g_remote_debug :: bool
  g_in :: "u8 list"
  g_out :: "u8 list"
  g_mem :: guest_mem
  g_vcpu :: "u64 list"
  g_single_step :: bool

definition gdbserver_get_register :: "nat \<Rightarrow> gdb \<Rightarrow> u64" where
  "gdbserver_get_register name g = get64 (8 * name) (g_registers g)"

definition gdbserver_set_register :: "nat \<Rightarrow> u64 \<Rightarrow> gdb \<Rightarrow> gdb res" where
  "gdbserver_set_register name v g =
     bind_res (put64 (8 * name) v (g_registers g)) (\<lambda>r. Inr (g\<lparr>g_registers := r\<rparr>))"

definition gdbserver_set_custom_register :: "nat \<Rightarrow> u64 \<Rightarrow> gdb \<Rightarrow> gdb" where
  "gdbserver_set_custom_register name v g = g\<lparr>g_extended := (g_extended g)[name := v]\<rparr>"

text \<open>
  The callbacks of \<open>kvm.cpp\<close>: \<open>gdb_submit_registers\<close> copies the 18 general registers, the six
  segment selectors and five control registers of the processor into the stub;
  \<open>kvm_load_registers_from_gdbcache\<close> hands the general registers back.
\<close>

definition set_registers :: "nat \<Rightarrow> u64 list \<Rightarrow> gdb \<Rightarrow> gdb res" where
  "set_registers base vs g =
     fold (\<lambda>i r. bind_res r (gdbserver_set_register (base + i) (vs ! i))) [0..<length vs] (Inr g)"

definition gdb_submit_registers :: "u64 list \<Rightarrow> u16 list \<Rightarrow> u64 list \<Rightarrow> gdb \<Rightarrow> gdb res" where
  "gdb_submit_registers gprs selectors controls g =
     bind_res (set_registers 0 gprs g) (\<lambda>g1.
     bind_res (set_registers 18 (map ucast selectors) g1) (\<lambda>g2.
       Inr (fold (\<lambda>i. gdbserver_set_custom_register i (controls ! i)) [0..<length controls] g2)))"

definition kvm_load_registers_from_gdbcache :: "gdb \<Rightarrow> gdb" where
  "kvm_load_registers_from_gdbcache g =
     g\<lparr>g_vcpu := map (\<lambda>i. gdbserver_get_register i g) [0..<18]\<rparr>"

definition kvm_debug_set_step :: "bool \<Rightarrow> gdb \<Rightarrow> gdb" where
  "kvm_debug_set_step enable_step g = g\<lparr>g_single_step := enable_step\<rparr>"

section \<open>Commands\<close>

definition peek :: "u8 list \<Rightarrow> nat \<Rightarrow> u8 res" where
  "peek buf i = (if i < length buf then Inr (buf ! i) else Inl OutOfBounds)"

definition strcpy_out :: "u8 list \<Rightarrow> gdb \<Rightarrow> gdb" where
  "strcpy_out s g = g\<lparr>g_out := put_bytes 0 (s @ [0]) (g_out g)\<rparr>"

text \<open>What happens next: a reply is sent, the processor resumes, the process exits, or (only at the
  end of the program) the server is closed.\<close>

datatype cmd_next = Reply | Resume | Exit | Stop

text \<open>A 64-bit value as 16 hexadecimal digits, most significant first, as \<open>%016lx\<close> prints it.\<close>

definition print_x16 :: "u64 \<Rightarrow> u8 list" where
  "print_x16 v = hex_digits (rev (le_bytes 8 (unat v)))"

definition regs_response :: "gdb \<Rightarrow> u8 list" where
  "regs_response g =
     ascii ''Privileged Registers (Custom command):'' @ [0x0A] @
     ascii ''CR4 0x'' @ print_x16 (g_extended g ! 0) @ [0x0A] @
     ascii ''CR3 0x'' @ print_x16 (g_extended g ! 1) @ [0x0A] @
     ascii ''CR2 0x'' @ print_x16 (g_extended g ! 2) @ [0x0A] @
     ascii ''CR0 0x'' @ print_x16 (g_extended g ! 3) @ [0x0A] @
     ascii ''EFER 0x'' @ print_x16 (g_extended g ! 4) @ [0x0A]"

definition cmd_qRcmd :: "nat \<Rightarrow> gdb \<Rightarrow> gdb res" where
  "cmd_qRcmd pos g =
     bind_res (hex2mem (g_in g) (pos + 6) (replicate 5 0) 0 4) (\<lambda>command_str.
       if cstring (command_str[4 := 0]) = ascii ''regs'' then
         bind_res (mem2hex (regs_response g) 0 0 (g_out g) (int (length (regs_response g))))
           (\<lambda>(out, _). Inr (g\<lparr>g_out := out\<rparr>))
       else Inr g)"

definition cmd_p :: "nat \<Rightarrow> gdb \<Rightarrow> gdb res" where
  "cmd_p pos g =
     (let (n, regno, p1) = hexToInt (g_in g) pos
      in if n \<noteq> 0 \<and> regno \<ge> 0 \<and> regno < int NUMREGS then
           bind_res (mem2hex (g_registers g) (8 * regno) 0 (g_out g) 8)
             (\<lambda>(out, _). Inr (g\<lparr>g_out := out\<rparr>))
         else Inr (strcpy_out (ascii ''E01'') g))"

definition cmd_P :: "nat \<Rightarrow> gdb \<Rightarrow> gdb res" where
  "cmd_P pos g =
     (let (n, regno, p1) = hexToInt (g_in g) pos
      in if n = 0 then Inr (strcpy_out (ascii ''E01'') g)
         else bind_res (peek (g_in g) p1) (\<lambda>c.
           if c = 0x3D \<and> regno \<ge> 0 \<and> regno < int NUMREGS then
             bind_res (hex2mem (g_in g) (p1 + 1) (g_registers g) (8 * regno) 8) (\<lambda>r.
               Inr (strcpy_out (ascii ''OK'') (kvm_load_registers_from_gdbcache (g\<lparr>g_registers := r\<rparr>))))
           else Inr (strcpy_out (ascii ''E01'') g)))"

definition cmd_m :: "nat \<Rightarrow> gdb \<Rightarrow> gdb res" where
  "cmd_m pos g =
     (let (n1, addr, p1) = hexToInt (g_in g) pos
      in if n1 = 0 then Inr (strcpy_out (ascii ''E01'') g)
         else bind_res (peek (g_in g) p1) (\<lambda>c.
           if c \<noteq> 0x2C then Inr (strcpy_out (ascii ''E01'') g)
           else (let (n2, len, p2) = hexToInt (g_in g) (p1 + 1)
                 in if n2 = 0 then Inr (strcpy_out (ascii ''E01'') g)
                    else bind_res (mem2hex (g_mem g) addr 0 (g_out g) len)
                      (\<lambda>(out, _). Inr (g\<lparr>g_out := out\<rparr>)))))"

definition cmd_M :: "nat \<Rightarrow> gdb \<Rightarrow> gdb res" where
  "cmd_M pos g =
     (let (n1, addr, p1) = hexToInt (g_in g) pos
      in if n1 = 0 then Inr (strcpy_out (ascii ''E02'') g)
         else bind_res (peek (g_in g) p1) (\<lambda>c.
           if c \<noteq> 0x2C then Inr (strcpy_out (ascii ''E02'') g)
           else (let (n2, len, p2) = hexToInt (g_in g) (p1 + 1)
                 in if n2 = 0 then Inr (strcpy_out (ascii ''E02'') g)
                    else bind_res (peek (g_in g) p2) (\<lambda>c2.
                      if c2 \<noteq> CH_COLON then Inr (strcpy_out (ascii ''E02'') g)
                      else bind_res (hex2mem (g_in g) (p2 + 1) (g_mem g) addr len) (\<lambda>mem.
                        Inr (strcpy_out (ascii ''OK'') (g\<lparr>g_mem := mem\<rparr>)))))))"

text \<open>One command: the text starts at \<open>pos\<close> of the input buffer.\<close>

definition gdb_command :: "nat \<Rightarrow> nat \<Rightarrow> gdb \<Rightarrow> (cmd_next \<times> gdb) res" where
  "gdb_command sigval pos g =
     (let c = g_in g ! pos; reply = (\<lambda>g'. Inr (Reply, g'))
      in if get_bytes pos 6 (g_in g) = ascii ''qRcmd,'' then bind_res (cmd_qRcmd pos g) reply
         else if c = 0x3F then
           reply (strcpy_out [0x53, hexchars ! (sigval div 16), hexchars ! (sigval mod 16)] g)
         else if c = 0x64 then reply (g\<lparr>g_remote_debug := \<not> g_remote_debug g\<rparr>)
         else if c = 0x67 then
           bind_res (mem2hex (g_registers g) 0 0 (g_out g) (int NUMREGBYTES))
             (\<lambda>(out, _). reply (g\<lparr>g_out := out\<rparr>))
         else if c = 0x47 then
           bind_res (hex2mem (g_in g) (pos + 1) (g_registers g) 0 (int NUMREGBYTES)) (\<lambda>r.
             reply (strcpy_out (ascii ''OK'') (kvm_load_registers_from_gdbcache (g\<lparr>g_registers := r\<rparr>))))
         else if c = 0x70 then bind_res (cmd_p (pos + 1) g) reply
         else if c = 0x50 then bind_res (cmd_P (pos + 1) g) reply
         else if c = 0x6D then bind_res (cmd_m (pos + 1) g) reply
         else if c = 0x4D then bind_res (cmd_M (pos + 1) g) reply
         else if c = 0x73 then Inr (Resume, kvm_debug_set_step True g)
         else if c = 0x63 then Inr (Resume, kvm_debug_set_step False g)
         else if c = 0x6B then Inr (Exit, g)
         else reply g)"

section \<open>The session\<close>

lemma getpacket_length: "getpacket buf inp = Some (p, b, sent, rest) \<Longrightarrow> length rest < length inp"
proof (induction buf inp arbitrary: p b sent rest rule: getpacket.induct)
  case (1 buf inp)
  note ih = "1.IH"
  show ?case
    using "1.prems" ih wait_start_length [of inp] read_body_length
    by (subst (asm) getpacket.simps)
       (fastforce split: option.splits prod.splits if_splits list.splits simp: Let_def)
qed

lemma putpacket_length: "putpacket p inp = Some (sent, rest) \<Longrightarrow> length rest < length inp"
  by (induction inp arbitrary: sent rest) (fastforce split: if_splits)+

text \<open>
  The command loop of \<open>gdbserver_handle_exception\<close>: how it ended, the state, the bytes sent and
  the rest of the input; None when it waits for more input.
\<close>

function gdb_loop :: "nat \<Rightarrow> gdb \<Rightarrow> u8 list \<Rightarrow> ((cmd_next \<times> gdb \<times> u8 list \<times> u8 list) option) res" where
  "gdb_loop sigval g inp =
     (case getpacket (g_in g) inp of
        None \<Rightarrow> Inr None
      | Some (pos, buf, sent1, inp1) \<Rightarrow>
          bind_res (gdb_command sigval pos (g\<lparr>g_in := buf, g_out := (g_out g)[0 := 0]\<rparr>)) (\<lambda>(next, g1).
            if next \<noteq> Reply then Inr (Some (next, g1, sent1, inp1))
            else (case putpacket (cstring (g_out g1)) inp1 of
                None \<Rightarrow> Inr None
              | Some (sent2, inp2) \<Rightarrow>
                  bind_res (gdb_loop sigval g1 inp2) (\<lambda>r.
                    Inr (map_option (\<lambda>(e, g2, sent, rest). (e, g2, sent1 @ sent2 @ sent, rest)) r)))))"
  by pat_completeness auto
termination
  by (relation "measure (\<lambda>(sigval, g, inp). length inp)") (auto dest!: getpacket_length putpacket_length)

declare gdb_loop.simps [simp del]

text \<open>The first packet of a stop: the signal and the registers \<open>rsp\<close>, \<open>rbp\<close> and \<open>rip\<close>.\<close>

definition stop_reply :: "nat \<Rightarrow> gdb \<Rightarrow> u8 list" where
  "stop_reply sigval g =
     [0x54, hexchars ! (sigval div 16), hexchars ! (sigval mod 16)] @
     [hexchars ! 7, CH_COLON] @ hex_digits (get_bytes (8 * 7) 8 (g_registers g)) @ [0x3B] @
     [hexchars ! 6, CH_COLON] @ hex_digits (get_bytes (8 * 6) 8 (g_registers g)) @ [0x3B] @
     [hexchars ! 1, hexchars ! 0, CH_COLON] @ hex_digits (get_bytes (8 * 16) 8 (g_registers g)) @ [0x3B]"

definition gdbserver_handle_exception ::
  "nat \<Rightarrow> gdb \<Rightarrow> u8 list \<Rightarrow> ((cmd_next \<times> gdb \<times> u8 list \<times> u8 list) option) res" where
  "gdbserver_handle_exception sigval g inp =
     (if sigval = 4 \<or> sigval = 15 then
        (let g1 = strcpy_out [0x58, hexchars ! (sigval div 16), hexchars ! (sigval mod 16)] g
         in Inr (map_option (\<lambda>(sent, rest). (Stop, g1, sent, rest)) (putpacket (cstring (g_out g1)) inp)))
      else
        (let g1 = strcpy_out (stop_reply sigval g) g
         in case putpacket (cstring (g_out g1)) inp of
              None \<Rightarrow> Inr None
            | Some (sent1, inp1) \<Rightarrow>
                bind_res (gdb_loop sigval g1 inp1) (\<lambda>r.
                  Inr (map_option (\<lambda>(e, g2, sent, rest). (e, g2, sent1 @ sent, rest)) r))))"

section \<open>Codecs\<close>

lemma hex_hexchars:
  assumes "n < 16"
  shows "hex (hexchars ! n) = int n" "hexchars ! n \<noteq> 0"
proof -
  have "list_all (\<lambda>n. hex (hexchars ! n) = int n \<and> hexchars ! n \<noteq> 0) [0..<16]" by code_simp
  then show "hex (hexchars ! n) = int n" "hexchars ! n \<noteq> 0"
    using assms by (auto simp: list_all_iff)
qed

lemma nibbles:
  "unat (drop_bit 4 (b :: u8)) = unat b div 16" "unat (b mod 16) = unat b mod 16"
  "unat b div 16 < 16"
  using unat_u8_less [of b] unat_drop_bit_word [of 4 b] by (simp_all add: unat_mod_distrib)

lemma hex_byte_digits: "hex_byte (hexchars ! unat (drop_bit 4 b)) (hexchars ! unat (b mod 16)) = b"
proof -
  have "hex_byte (hexchars ! unat (drop_bit 4 b)) (hexchars ! unat (b mod 16)) =
      word_of_int (int (unat b div 16) * 16) + word_of_int (int (unat b mod 16))"
    using nibbles [of b] by (simp add: hex_byte_def hex_hexchars)
  also have "\<dots> = word_of_int (int (unat b div 16 * 16 + unat b mod 16))"
    by (simp only: wi_hom_add of_nat_add of_nat_mult of_nat_numeral)
  also have "\<dots> = b" by (simp only: div_mult_mod_eq) simp
  finally show ?thesis .
qed

lemma sent_checksum_eq: "sent_checksum = hex_byte"
  by (rule ext)+ (simp add: sent_checksum_def hex_byte_def)

lemma hex_digits_simps [simp]:
  "hex_digits [] = []" "hex_digits (b # bs) = byte_hex b @ hex_digits bs"
  "length (hex_digits bs) = 2 * length bs"
  by (simp_all add: hex_digits_def) (induction bs, simp_all add: byte_hex_def)

lemma unhex_hex_digits: "unhex (hex_digits bs) = bs"
  by (induction bs) (simp_all add: byte_hex_def hex_byte_digits)

lemma hex_digits_nonzero: "0 \<notin> set (hex_digits bs)"
proof (induction bs)
  case (Cons b bs)
  have "hexchars ! unat (drop_bit 4 b) \<noteq> 0" "hexchars ! unat (b mod 16) \<noteq> 0"
    using nibbles [of b] by (intro hex_hexchars; simp)+
  then show ?case using Cons by (simp add: byte_hex_def)
qed simp

lemma cstring_put:
  assumes "0 \<notin> set s"
  shows "cstring (put_bytes 0 (s @ [0]) out) = s"
  using assms by (auto simp: cstring_def put_bytes_def takeWhile_append2 takeWhile_tail)

lemma cstring_OK: "cstring (g_out (strcpy_out (ascii ''OK'') g)) = ascii ''OK''"
proof -
  have "0 \<notin> set (ascii ''OK'')" by code_simp
  then show ?thesis by (simp add: strcpy_out_def cstring_put)
qed

definition hex_value :: "u8 list \<Rightarrow> u32" where
  "hex_value ds = fold (\<lambda>c v. push_bit 4 v OR word_of_int (hex c)) ds 0"

definition hex_number :: "u8 list \<Rightarrow> bool" where
  "hex_number ds \<longleftrightarrow> ds \<noteq> [] \<and> list_all (\<lambda>c. c \<noteq> 0 \<and> 0 \<le> hex c) ds"

lemma hexToInt_loop_digits:
  assumes "list_all (\<lambda>c. c \<noteq> 0 \<and> 0 \<le> hex c) ds" "c = 0 \<or> hex c < 0"
  shows "hexToInt_loop (ds @ c # cs) v n =
    (n + length ds, fold (\<lambda>c v. push_bit 4 v OR word_of_int (hex c)) ds v, n + length ds)"
  using assms by (induction ds arbitrary: v n) auto

lemma hexToInt_number:
  assumes "drop pos buf = ds @ c # cs" "hex_number ds" "c = 0 \<or> hex c < 0"
  shows "hexToInt buf pos = (length ds, sint (hex_value ds), pos + length ds)"
  using assms hexToInt_loop_digits [of ds c cs 0 0]
  by (simp add: hexToInt_def hex_value_def hex_number_def)

section \<open>The packet layer\<close>

text \<open>A body that can be framed: no framing characters inside, and it fits the buffer.\<close>

definition body_ok :: "u8 list \<Rightarrow> bool" where
  "body_ok p \<longleftrightarrow> CH_START \<notin> set p \<and> CH_END \<notin> set p \<and> length p < BUFMAX - 1"

lemma read_body_payload:
  assumes "CH_START \<notin> set p" "CH_END \<notin> set p" "count + length p < BUFMAX - 1" "length buf = BUFMAX"
  shows "read_body buf count csum (p @ CH_END # cs) =
    Some (True, put_bytes count p buf, count + length p, csum + sum_list p, cs)"
  using assms
proof (induction p arbitrary: buf count csum)
  case Nil
  then show ?case by (simp add: put_bytes_def)
next
  case (Cons c p)
  have "read_body buf count csum ((c # p) @ CH_END # cs) =
      read_body (buf[count := c]) (count + 1) (csum + c) (p @ CH_END # cs)"
    using Cons.prems by auto
  also have "\<dots> = Some (True, put_bytes (count + 1) p (buf[count := c]), count + 1 + length p,
      csum + c + sum_list p, cs)"
    using Cons.prems by (intro Cons.IH) auto
  finally show ?case using Cons.prems put_bytes_Cons [of count buf p c] by (simp add: add.assoc)
qed

lemma wait_start_noise: "CH_START \<notin> set noise \<Longrightarrow> wait_start (noise @ CH_START # cs) = Some cs"
  by (induction noise) auto

text \<open>The buffer after a body was received.\<close>

definition received :: "u8 list \<Rightarrow> u8 list \<Rightarrow> u8 list" where
  "received p buf = (put_bytes 0 p buf)[length p := 0]"

lemma received_eq:
  assumes "length p < length buf"
  shows "received p buf = p @ 0 # drop (length p + 1) buf"
  using assms
  by (simp add: received_def put_bytes_def list_update_append Cons_nth_drop_Suc [symmetric])

lemma getpacket_body:
  assumes "body_ok p" "length buf = BUFMAX" "CH_START \<notin> set noise"
  shows "getpacket buf (noise @ CH_START # p @ CH_END # c1 # c2 # rest) =
    (if sum_list p \<noteq> sent_checksum c1 c2
     then map_option (\<lambda>(q, b, sent, r). (q, b, CH_NAK # sent, r)) (getpacket (received p buf) rest)
     else if received p buf ! 2 = CH_COLON
     then Some (3, received p buf, [CH_ACK, received p buf ! 0, received p buf ! 1], rest)
     else Some (0, received p buf, [CH_ACK], rest))"
proof -
  have "read_body buf 0 0 (p @ CH_END # c1 # c2 # rest) =
      Some (True, put_bytes 0 p buf, length p, sum_list p, c1 # c2 # rest)"
    using read_body_payload [of p 0 buf 0 "c1 # c2 # rest"] assms(1,2) by (simp add: body_ok_def)
  then show ?thesis
    using wait_start_noise [OF assms(3)]
    by (subst getpacket.simps) (simp add: received_def Let_def)
qed

lemma frame_split:
  "frame p = CH_START # p @ CH_END # hexchars ! unat (drop_bit 4 (sum_list p)) #
     hexchars ! unat (sum_list p mod 16) # []"
  by (simp add: frame_def Let_def)

lemma getpacket_frame:
  assumes "body_ok p" "length buf = BUFMAX" "CH_START \<notin> set noise"
  shows "getpacket buf (noise @ frame p @ rest) =
    (if received p buf ! 2 = CH_COLON
     then Some (3, received p buf, [CH_ACK, received p buf ! 0, received p buf ! 1], rest)
     else Some (0, received p buf, [CH_ACK], rest))"
  using getpacket_body [OF assms, of "hexchars ! unat (drop_bit 4 (sum_list p))"
      "hexchars ! unat (sum_list p mod 16)" rest]
  by (simp add: frame_split sent_checksum_eq hex_byte_digits)

lemma putpacket_retries:
  assumes "CH_ACK \<notin> set naks"
  shows "putpacket p (naks @ CH_ACK # rest) = Some (concat (replicate (length naks + 1) (frame p)), rest)"
  using assms by (induction naks) auto

section \<open>Commands on well-formed states\<close>

definition gdb_wf :: "gdb \<Rightarrow> bool" where
  "gdb_wf g \<longleftrightarrow> length (g_in g) = BUFMAX \<and> length (g_out g) = BUFMAX \<and>
     length (g_registers g) = NUMREGBYTES \<and> length (g_extended g) = 5"

lemma gdb_wf_strcpy [simp]: "gdb_wf g \<Longrightarrow> length s < BUFMAX \<Longrightarrow> gdb_wf (strcpy_out s g)"
  by (simp add: gdb_wf_def strcpy_out_def length_put_bytes)

lemma gdb_wf_load [simp]: "gdb_wf (kvm_load_registers_from_gdbcache g) = gdb_wf g"
  by (simp add: gdb_wf_def kvm_load_registers_from_gdbcache_def)

lemma length_ascii [simp]: "length (ascii s) = length s"
  by (simp add: ascii_def)

lemma mem2hex_defined:
  assumes "0 \<le> off" "0 \<le> count" "nat off + nat count \<le> length src" "pos + 2 * nat count + 1 \<le> length buf"
  shows "mem2hex src off pos buf count =
    Inr (put_bytes pos (hex_digits (get_bytes (nat off) (nat count) src) @ [0]) buf, pos + 2 * nat count)"
  using assms by (simp add: mem2hex_def Let_def)

lemma length_mem2hex:
  assumes "mem2hex src off pos buf count = Inr (out, e)" "0 \<le> off \<or> nat count = 0"
  shows "length out = length buf"
  using assms
  by (auto simp: mem2hex_def Let_def length_put_bytes length_get_bytes get_bytes_def split: if_splits)

lemma length_unhex: "length (unhex cs) = length cs div 2"
  by (induction cs rule: unhex.induct) simp_all

lemma hex2mem_defined:
  assumes "0 \<le> off" "nat off + n \<le> length dest" "pos + 2 * n \<le> length buf"
  shows "\<exists>d. hex2mem buf pos dest off (int n) = Inr d \<and> length d = length dest"
  using assms
  by (auto simp: hex2mem_def Let_def length_put_bytes length_unhex length_get_bytes)

lemma length_regs_response: "length (regs_response g) = 155"
  by (simp add: regs_response_def print_x16_def)

lemma cmd_qRcmd_safe:
  assumes "gdb_wf g" "pos \<le> 3"
  shows "\<exists>g'. cmd_qRcmd pos g = Inr g' \<and> gdb_wf g'"
proof -
  obtain d where d: "hex2mem (g_in g) (pos + 6) (replicate 5 0) 0 4 = Inr d"
    using hex2mem_defined [of 0 4 "replicate 5 0" "pos + 6" "g_in g"] assms by (auto simp: gdb_wf_def)
  have "\<exists>out e. mem2hex (regs_response g) 0 0 (g_out g) (int (length (regs_response g))) = Inr (out, e) \<and>
      length out = BUFMAX"
    using mem2hex_defined [of 0 "int (length (regs_response g))" "regs_response g" 0 "g_out g"] assms(1)
    by (simp add: length_regs_response gdb_wf_def length_put_bytes length_get_bytes)
  then show ?thesis using d assms(1) by (auto simp: cmd_qRcmd_def gdb_wf_def)
qed

lemma cmd_p_safe:
  assumes "gdb_wf g"
  shows "\<exists>g'. cmd_p pos g = Inr g' \<and> gdb_wf g'"
proof -
  obtain n regno p1 where h: "hexToInt (g_in g) pos = (n, regno, p1)" by (cases "hexToInt (g_in g) pos")
  show ?thesis
  proof (cases "n \<noteq> 0 \<and> regno \<ge> 0 \<and> regno < int NUMREGS")
    case True
    then have "nat (8 * regno) + 8 \<le> NUMREGBYTES" by arith
    then show ?thesis
      using True h assms mem2hex_defined [of "8 * regno" 8 "g_registers g" 0 "g_out g"]
      by (auto simp: cmd_p_def gdb_wf_def length_put_bytes length_get_bytes)
  next
    case False
    then show ?thesis using h assms by (auto simp: cmd_p_def)
  qed
qed

lemma gdb_command_safe:
  assumes "gdb_wf g" "pos \<le> 3" "g_in g ! pos \<notin> {0x50, 0x6D, 0x4D}"
  shows "\<exists>n g'. gdb_command sigval pos g = Inr (n, g') \<and> gdb_wf g'"
proof -
  have g: "\<exists>out e. mem2hex (g_registers g) 0 0 (g_out g) (int NUMREGBYTES) = Inr (out, e) \<and> length out = BUFMAX"
    using mem2hex_defined [of 0 "int NUMREGBYTES" "g_registers g" 0 "g_out g"] assms(1)
    by (simp add: gdb_wf_def length_put_bytes length_get_bytes)
  have G: "\<exists>d. hex2mem (g_in g) (pos + 1) (g_registers g) 0 (int NUMREGBYTES) = Inr d \<and> length d = NUMREGBYTES"
    using hex2mem_defined [of 0 NUMREGBYTES "g_registers g" "pos + 1" "g_in g"] assms(1,2)
    by (auto simp: gdb_wf_def)
  have upd: "gdb_wf (g\<lparr>g_out := out\<rparr>)" if "length out = BUFMAX" for out
    using that assms(1) by (simp add: gdb_wf_def)
  have updr: "gdb_wf (g\<lparr>g_registers := r\<rparr>)" if "length r = NUMREGBYTES" for r
    using that assms(1) by (simp add: gdb_wf_def)
  have same: "gdb_wf (g\<lparr>g_remote_debug := b\<rparr>)" "gdb_wf (kvm_debug_set_step b g)" for b
    using assms(1) by (simp_all add: gdb_wf_def kvm_debug_set_step_def)
  show ?thesis
    using g G upd updr same assms cmd_qRcmd_safe [OF assms(1,2)] cmd_p_safe [OF assms(1), of "pos + 1"]
    by (auto simp: gdb_command_def Let_def)
qed

text \<open>The memory commands, on a text that has the documented form.\<close>

lemma drop_behind: "drop pos buf = xs @ ys \<Longrightarrow> drop (pos + length xs) buf = ys"
  by (metis add.commute append_eq_conv_conj drop_drop)

lemma drop_nth: "drop pos buf = c # ys \<Longrightarrow> pos < length buf \<and> buf ! pos = c"
  by (metis drop_all leI list.distinct(1) nth_via_drop)

lemma comma_colon: "hex 0x2C < 0" "hex 0x3A < 0"
  by (simp_all add: hex_def)

lemma parse_addr_len:
  assumes "drop pos buf = as @ 0x2C # ls @ c # rst" "hex_number as" "hex_number ls" "c = 0 \<or> hex c < 0"
  shows "hexToInt buf pos = (length as, sint (hex_value as), pos + length as)"
    "peek buf (pos + length as) = Inr 0x2C"
    "hexToInt buf (pos + length as + 1) =
      (length ls, sint (hex_value ls), pos + length as + 1 + length ls)"
    "peek buf (pos + length as + 1 + length ls) = Inr c"
    "drop (pos + length as + 1 + length ls + 1) buf = rst"
proof -
  show "hexToInt buf pos = (length as, sint (hex_value as), pos + length as)"
    using hexToInt_number [OF assms(1,2)] comma_colon by simp
  have d1: "drop (pos + length as) buf = 0x2C # ls @ c # rst" using drop_behind [OF assms(1)] .
  then show "peek buf (pos + length as) = Inr 0x2C" using drop_nth [OF d1] by (simp add: peek_def)
  have d2: "drop (pos + length as + 1) buf = ls @ c # rst"
    using drop_behind [of "pos + length as" buf "[0x2C]" "ls @ c # rst"] d1 by simp
  then show "hexToInt buf (pos + length as + 1) =
      (length ls, sint (hex_value ls), pos + length as + 1 + length ls)"
    by (rule hexToInt_number) (use assms in auto)
  have d3: "drop (pos + length as + 1 + length ls) buf = c # rst" using drop_behind [OF d2] .
  then show "peek buf (pos + length as + 1 + length ls) = Inr c"
    using drop_nth [OF d3] by (simp add: peek_def)
  show "drop (pos + length as + 1 + length ls + 1) buf = rst"
    using drop_behind [of "pos + length as + 1 + length ls" buf "[c]" rst] d3 by simp
qed

text \<open>The texts of the memory commands, from the digits of the address and of the length.\<close>

definition read_text :: "u8 list \<Rightarrow> u8 list \<Rightarrow> u8 list" where
  "read_text as ls = 0x6D # as @ 0x2C # ls"

definition write_text :: "u8 list \<Rightarrow> u8 list \<Rightarrow> u8 list \<Rightarrow> u8 list" where
  "write_text as ls data = 0x4D # as @ 0x2C # ls @ CH_COLON # hex_digits data"

lemma not_qRcmd: "drop pos buf = c # cs \<Longrightarrow> c \<noteq> 0x71 \<Longrightarrow> get_bytes pos 6 buf \<noteq> ascii ''qRcmd,''"
  by (auto simp: get_bytes_def ascii_def of_char_def)

lemma cmd_m_text:
  assumes "drop pos (g_in g) = read_text as ls @ 0 # rst" "hex_number as" "hex_number ls"
  shows "gdb_command sigval pos g =
    bind_res (mem2hex (g_mem g) (sint (hex_value as)) 0 (g_out g) (sint (hex_value ls)))
      (\<lambda>(out, _). Inr (Reply, g\<lparr>g_out := out\<rparr>))"
proof -
  have d: "drop pos (g_in g) = 0x6D # as @ 0x2C # ls @ 0 # rst" using assms(1) by (simp add: read_text_def)
  have d1: "drop (pos + 1) (g_in g) = as @ 0x2C # ls @ 0 # rst" using drop_behind [of pos "g_in g" "[0x6D]"] d by simp
  have ne: "as \<noteq> []" "ls \<noteq> []" using assms(2,3) by (simp_all add: hex_number_def)
  have "cmd_m (pos + 1) g =
      bind_res (mem2hex (g_mem g) (sint (hex_value as)) 0 (g_out g) (sint (hex_value ls)))
        (\<lambda>(out, _). Inr (g\<lparr>g_out := out\<rparr>))"
    using parse_addr_len [OF d1 assms(2,3)] ne by (simp add: cmd_m_def)
  then show ?thesis
    using not_qRcmd [OF d] drop_nth [OF d] 
    by (cases "mem2hex (g_mem g) (sint (hex_value as)) 0 (g_out g) (sint (hex_value ls))")
       (auto simp: gdb_command_def Let_def)
qed

lemma cmd_M_text:
  assumes "drop pos (g_in g) = write_text as ls data @ rst" "hex_number as" "hex_number ls"
    "sint (hex_value as) = int a" "sint (hex_value ls) = int (length data)" "a + length data \<le> length (g_mem g)"
  shows "gdb_command sigval pos g =
    Inr (Reply, strcpy_out (ascii ''OK'') (g\<lparr>g_mem := put_bytes a data (g_mem g)\<rparr>))"
proof -
  let ?ds = "hex_digits data"
  have d: "drop pos (g_in g) = 0x4D # as @ 0x2C # ls @ CH_COLON # ?ds @ rst"
    using assms(1) by (simp add: write_text_def)
  have d1: "drop (pos + 1) (g_in g) = as @ 0x2C # ls @ CH_COLON # ?ds @ rst"
    using drop_behind [of pos "g_in g" "[0x4D]"] d by simp
  have ne: "as \<noteq> []" "ls \<noteq> []" using assms(2,3) by (simp_all add: hex_number_def)
  note parse = parse_addr_len [OF d1 assms(2,3) disjI2, OF comma_colon(2)]
  let ?p = "pos + 1 + length as + 1 + length ls + 1"
  have "length (?ds @ rst) = length (g_in g) - ?p" using parse(5) by (metis length_drop)
  moreover have "?p \<le> length (g_in g)" using parse(4) by (auto simp: peek_def split: if_splits)
  ultimately have fits: "?p + 2 * length data \<le> length (g_in g)" by simp
  have digits: "get_bytes ?p (2 * length data) (g_in g) = ?ds"
    using parse(5) by (simp add: get_bytes_def)
  have "put_bytes a [] (g_mem g) = g_mem g" by (simp add: put_bytes_def)
  then have "hex2mem (g_in g) ?p (g_mem g) (int a) (int (length data)) = Inr (put_bytes a data (g_mem g))"
    using fits digits assms(6) by (auto simp: hex2mem_def Let_def unhex_hex_digits)
  then have "cmd_M (pos + 1) g = Inr (strcpy_out (ascii ''OK'') (g\<lparr>g_mem := put_bytes a data (g_mem g)\<rparr>))"
    using parse ne assms(4,5) by (simp add: cmd_M_def)
  then show ?thesis
    using not_qRcmd [OF d] drop_nth [OF d] by (simp add: gdb_command_def Let_def)
qed

text \<open>One round of the loop on a good packet.\<close>

lemma gdb_loop_packet:
  assumes "body_ok p" "length (g_in g) = BUFMAX" "received p (g_in g) ! 2 \<noteq> CH_COLON"
  shows "gdb_loop sigval g (frame p @ inp1) =
    bind_res (gdb_command sigval 0 (g\<lparr>g_in := received p (g_in g), g_out := (g_out g)[0 := 0]\<rparr>)) (\<lambda>(n, g1).
      if n \<noteq> Reply then Inr (Some (n, g1, [CH_ACK], inp1))
      else (case putpacket (cstring (g_out g1)) inp1 of
          None \<Rightarrow> Inr None
        | Some (sent2, inp2) \<Rightarrow>
            bind_res (gdb_loop sigval g1 inp2) (\<lambda>r.
              Inr (map_option (\<lambda>(e, g2, sent, rest). (e, g2, [CH_ACK] @ sent2 @ sent, rest)) r))))"
  using getpacket_frame [OF assms(1,2), of "[]" inp1] assms(3)
  by (subst gdb_loop.simps) simp

lemma gdb_loop_reply:
  assumes "body_ok p" "length (g_in g) = BUFMAX" "received p (g_in g) ! 2 \<noteq> CH_COLON"
    "gdb_command sigval 0 (g\<lparr>g_in := received p (g_in g), g_out := (g_out g)[0 := 0]\<rparr>) = Inr (Reply, g1)"
    "gdb_loop sigval g1 inp = Inr (Some (e, g2, sent, rest))"
  shows "gdb_loop sigval g (frame p @ CH_ACK # inp) =
    Inr (Some (e, g2, CH_ACK # frame (cstring (g_out g1)) @ sent, rest))"
  using gdb_loop_packet [OF assms(1-3)] assms(4,5) by simp

lemma hex_number_framed:
  assumes "hex_number ds"
  shows "CH_START \<notin> set ds" "CH_END \<notin> set ds" "CH_COLON \<notin> set ds"
  using assms by (auto simp: hex_number_def hex_def list_all_iff)

lemma hex_digits_framed: "x \<in> set (hex_digits bs) \<Longrightarrow> x \<in> set hexchars"
proof (induction bs)
  case (Cons b bs)
  have "hexchars ! unat (drop_bit 4 b) \<in> set hexchars" "hexchars ! unat (b mod 16) \<in> set hexchars"
    using nibbles [of b] by (intro nth_mem; simp add: hexchars_def)+
  then show ?case using Cons by (auto simp: byte_hex_def)
qed simp

lemma hexchars_framed: "CH_START \<notin> set hexchars" "CH_END \<notin> set hexchars"
  by (simp_all add: hexchars_def)

lemma memory_texts_ok:
  assumes "hex_number as" "hex_number ls" "length as + length ls + 2 * length data + 3 < BUFMAX - 1"
  shows "body_ok (write_text as ls data)" "body_ok (read_text as ls)"
  using hex_number_framed [OF assms(1)] hex_number_framed [OF assms(2)] hexchars_framed hex_digits_framed
    assms(3)
  by (auto simp: body_ok_def write_text_def read_text_def)

lemma third_char:
  assumes "hex_number as" "length as + length p + 2 < length buf"
  shows "received (c # as @ 0x2C # p) buf ! 2 \<noteq> CH_COLON"
proof -
  obtain d ds where as: "as = d # ds" using assms(1) by (cases as) (auto simp: hex_number_def)
  have "received (c # as @ 0x2C # p) buf = c # d # ds @ 0x2C # p @ 0 # drop (length as + length p + 3) buf"
    using assms(2) as by (simp add: received_eq numeral_3_eq_3)
  then have "received (c # as @ 0x2C # p) buf ! 2 \<in> insert 0x2C (set ds)"
    by (cases ds) (simp_all add: numeral_2_eq_2)
  moreover have "CH_COLON \<notin> set ds" using hex_number_framed(3) [OF assms(1)] as by simp
  ultimately show ?thesis by auto
qed

text \<open>The input buffer over a write, a read and a one-character packet.\<close>

lemma session_buffers:
  assumes "hex_number as" "hex_number ls" "length as + length ls + 2 * length data + 3 < BUFMAX - 1"
    "length b0 = BUFMAX" "b1 = received (write_text as ls data) b0" "b2 = received (read_text as ls) b1"
    "b3 = received [c] b2"
  shows "\<exists>r1. b1 = write_text as ls data @ r1" "\<exists>r2. b2 = read_text as ls @ 0 # r2" "\<exists>r3. b3 = c # r3"
    "length b1 = BUFMAX" "length b2 = BUFMAX"
    "b1 ! 2 \<noteq> CH_COLON" "b2 ! 2 \<noteq> CH_COLON" "b3 ! 2 \<noteq> CH_COLON"
proof -
  note ok = memory_texts_ok [OF assms(1-3)]
  have e1: "b1 = write_text as ls data @ 0 # drop (length (write_text as ls data) + 1) b0"
    using ok(1) assms(4,5) by (simp add: received_eq body_ok_def)
  show l1: "length b1 = BUFMAX" using ok(1) assms(4) by (simp add: e1 body_ok_def)
  have e2: "b2 = read_text as ls @ 0 # drop (length (read_text as ls) + 1) b1"
    using ok(2) l1 assms(6) by (simp add: received_eq body_ok_def)
  show l2: "length b2 = BUFMAX" using ok(2) l1 by (simp add: e2 body_ok_def)
  have e3: "b3 = c # 0 # drop 2 b2"
    using received_eq [of "[c]" b2] l2 assms(7) by (simp add: numeral_2_eq_2)
  show "b1 ! 2 \<noteq> CH_COLON" unfolding assms(5) write_text_def
    by (rule third_char [OF assms(1)]) (use assms(3,4) in simp)
  show n2: "b2 ! 2 \<noteq> CH_COLON" unfolding assms(6) read_text_def
    by (rule third_char [OF assms(1)]) (use assms(3) l1 in simp)
  show "b3 ! 2 \<noteq> CH_COLON" using n2 l2 by (simp add: e3 numeral_2_eq_2)
  show "\<exists>r1. b1 = write_text as ls data @ r1" using e1 by blast
  show "\<exists>r2. b2 = read_text as ls @ 0 # r2" using e2 by blast
  show "\<exists>r3. b3 = c # r3" using e3 by blast
qed

text \<open>The register file as slots of the guest memory interface.\<close>

lemma set_registers_fill:
  "set_registers b vs g = bind_res (gm.fill b (\<lambda>i _. vs ! i) (length vs) (g_registers g)) (\<lambda>r. Inr (g\<lparr>g_registers := r\<rparr>))"
proof -
  have "fold (\<lambda>i r. bind_res r (gdbserver_set_register (b + i) (vs ! i))) is (Inr g) =
      bind_res (fold (\<lambda>i r. bind_res r (\<lambda>m. put64 (8 * (b + i)) (vs ! i) m)) is (Inr (g_registers g)))
        (\<lambda>r. Inr (g\<lparr>g_registers := r\<rparr>))" for "is"
  proof (induction "is" rule: rev_induct)
    case (snoc i "is")
    then show ?case
      by (cases "fold (\<lambda>i r. bind_res r (\<lambda>m. put64 (8 * (b + i)) (vs ! i) m)) is (Inr (g_registers g))")
         (simp_all add: gdbserver_set_register_def)
  qed simp
  then show ?thesis by (simp add: set_registers_def gm.fill_def)
qed

lemma set_registers_get:
  assumes "gdb_wf g" "b + length vs \<le> NUMREGS"
  shows "\<exists>g'. set_registers b vs g = Inr g' \<and> gdb_wf g' \<and> g_extended g' = g_extended g \<and>
    (\<forall>i < NUMREGS. gdbserver_get_register i g' =
      (if b \<le> i \<and> i < b + length vs then vs ! (i - b) else gdbserver_get_register i g))"
proof -
  have n: "length (g_registers g) div 8 = NUMREGS" using assms(1) by (simp add: gdb_wf_def)
  obtain r where r: "gm.fill b (\<lambda>i _. vs ! i) (length vs) (g_registers g) = Inr r"
    "\<forall>i < NUMREGS. get64 (8 * i) r = (if b \<le> i \<and> i < b + length vs then vs ! (i - b) else get64 (8 * i) (g_registers g))"
    using gm.fill_slots [of b "length vs" "g_registers g" "\<lambda>i _. vs ! i"] assms(2) unfolding n by auto
  have "length r = NUMREGBYTES"
    using gm_fill_length [OF r(1)] assms(1) by (simp add: gdb_wf_def)
  then show ?thesis
    using r assms(1) by (auto simp: set_registers_fill gdbserver_get_register_def gdb_wf_def)
qed

lemma set_registers_frame: "set_registers b vs g = Inr g' \<Longrightarrow> g' = g\<lparr>g_registers := g_registers g'\<rparr>"
  by (auto simp: set_registers_fill bind_res_def split: sum.splits)

lemma gdb_command_g:
  assumes "gdb_wf g" "g_in g ! 0 = 0x67"
  shows "gdb_command sigval 0 g =
    Inr (Reply, g\<lparr>g_out := put_bytes 0 (hex_digits (g_registers g) @ [0]) (g_out g)\<rparr>)"
proof -
  have "drop 0 (g_in g) = 0x67 # drop 1 (g_in g)"
    using assms by (metis Cons_nth_drop_Suc One_nat_def gdb_wf_def zero_less_numeral)
  from not_qRcmd [OF this] have "get_bytes 0 6 (g_in g) \<noteq> ascii ''qRcmd,''" by simp
  moreover have "get_bytes 0 NUMREGBYTES (g_registers g) = g_registers g"
    using assms(1) by (simp add: get_bytes_def gdb_wf_def)
  ultimately show ?thesis
    using assms mem2hex_defined [of 0 "int NUMREGBYTES" "g_registers g" 0 "g_out g"]
    by (simp add: gdb_command_def Let_def gdb_wf_def)
qed

lemma custom_registers:
  assumes "length controls = length (g_extended g)"
  shows "fold (\<lambda>i. gdbserver_set_custom_register i (controls ! i)) [0..<length controls] g =
    g\<lparr>g_extended := controls\<rparr>"
proof -
  have "k \<le> length controls \<Longrightarrow> fold (\<lambda>i. gdbserver_set_custom_register i (controls ! i)) [0..<k] g =
      g\<lparr>g_extended := take k controls @ drop k (g_extended g)\<rparr>" for k
  proof (induction k)
    case (Suc k)
    then show ?case
      using assms Cons_nth_drop_Suc [of k "g_extended g", symmetric]
      by (simp add: gdbserver_set_custom_register_def list_update_append take_Suc_conv_app_nth)
  qed simp
  then show ?thesis using assms by simp
qed

text \<open>The state after the processor's registers were submitted.\<close>

lemma submit_registers:
  assumes "gdb_wf g" "length gprs = 18" "length selectors = 6" "length controls = 5"
  shows "\<exists>r. gdb_submit_registers gprs selectors controls g = Inr (g\<lparr>g_registers := r, g_extended := controls\<rparr>) \<and>
    length r = NUMREGBYTES \<and> map (\<lambda>i. get64 (8 * i) r) [0..<NUMREGS] = gprs @ map ucast selectors"
proof -
  obtain ga where ga: "set_registers 0 gprs g = Inr ga" "gdb_wf ga"
    "\<forall>i < NUMREGS. gdbserver_get_register i ga = (if 0 \<le> i \<and> i < 0 + length gprs then gprs ! (i - 0) else gdbserver_get_register i g)"
    using set_registers_get [OF assms(1), of 0 gprs] assms(2) by auto
  obtain gb where gb: "set_registers 18 (map ucast selectors) ga = Inr gb" "gdb_wf gb"
    "\<forall>i < NUMREGS. gdbserver_get_register i gb =
      (if 18 \<le> i \<and> i < 18 + length selectors then map ucast selectors ! (i - 18) else gdbserver_get_register i ga)"
    using set_registers_get [OF ga(2), of 18 "map ucast selectors"] assms(3) by auto
  obtain ra where "ga = g\<lparr>g_registers := ra\<rparr>" using set_registers_frame [OF ga(1)] by blast
  then have same: "gb = g\<lparr>g_registers := g_registers gb\<rparr>" using set_registers_frame [OF gb(1)] by simp
  have "length controls = length (g_extended gb)" using gb(2) assms(4) by (simp add: gdb_wf_def)
  from custom_registers [OF this]
  have "gdb_submit_registers gprs selectors controls g = Inr (gb\<lparr>g_extended := controls\<rparr>)"
    using ga(1) gb(1) by (simp add: gdb_submit_registers_def)
  also have "gb\<lparr>g_extended := controls\<rparr> = g\<lparr>g_registers := g_registers gb, g_extended := controls\<rparr>"
    by (subst (1) same) simp
  finally have "gdb_submit_registers gprs selectors controls g =
      Inr (g\<lparr>g_registers := g_registers gb, g_extended := controls\<rparr>)" .
  moreover have "map (\<lambda>i. get64 (8 * i) (g_registers gb)) [0..<NUMREGS] = gprs @ map ucast selectors"
    using ga(3) gb(3) assms(2,3)
    by (intro nth_equalityI) (auto simp: gdbserver_get_register_def nth_append)
  ultimately show ?thesis using gb(2) by (auto simp: gdb_wf_def)
qed

section \<open>Properties\<close>

text \<open>
  (C30) Packet integrity: a frame sent by \<open>putpacket\<close> is received by \<open>getpacket\<close> unchanged, after
  any noise without a start character and after a corrupted transmission, which is answered
  with a negative acknowledgement; the good one is acknowledged. \<open>putpacket\<close> repeats the frame
  until it is acknowledged. (The body has at least three characters, none of them a framing
  character or zero, and the third is not a colon.)
\<close>

theorem gdb_packet_integrity:
  assumes "body_ok p" "0 \<notin> set p" "3 \<le> length p" "p ! 2 \<noteq> CH_COLON" "length buf = BUFMAX"
    "CH_START \<notin> set noise" "body_ok q" "sum_list q \<noteq> sent_checksum c1 c2" "CH_ACK \<notin> set naks"
  shows "\<exists>b. getpacket buf (noise @ CH_START # q @ CH_END # c1 # c2 # frame p @ rest) =
       Some (0, b, [CH_NAK, CH_ACK], rest) \<and> cstring b = p \<and> length b = BUFMAX \<and>
     putpacket (cstring b) (naks @ CH_ACK # rest) =
       Some (concat (replicate (length naks + 1) (frame p)), rest)"
proof -
  let ?b1 = "received q buf"
  have b1: "length ?b1 = BUFMAX"
    using assms(5,7) by (simp add: received_eq body_ok_def)
  have eq: "received p ?b1 = p @ 0 # drop (length p + 1) ?b1"
    using assms(1) b1 by (intro received_eq) (simp add: body_ok_def)
  have "received p ?b1 ! 2 = p ! 2" using assms(3) by (simp add: eq nth_append)
  then have good: "getpacket ?b1 (frame p @ rest) = Some (0, received p ?b1, [CH_ACK], rest)"
    using getpacket_frame [OF assms(1) b1, of "[]" rest] assms(4) by simp
  have "getpacket buf (noise @ CH_START # q @ CH_END # c1 # c2 # frame p @ rest) =
      Some (0, received p ?b1, [CH_NAK, CH_ACK], rest)"
    using getpacket_body [OF assms(7,5,6), of c1 c2 "frame p @ rest"] assms(8) good by simp
  moreover have "cstring (received p ?b1) = p"
    using assms(2) unfolding eq cstring_def by (auto simp: takeWhile_append2 takeWhile_tail)
  moreover have "length (received p ?b1) = BUFMAX"
    using assms(1) b1 by (simp add: eq body_ok_def)
  ultimately show ?thesis using putpacket_retries [OF assms(9)] by auto
qed

theorem gdb_packet_integrity_witness:
  "\<exists>b. getpacket (replicate BUFMAX 0) ([CH_ACK] @ CH_START # [0x67] @ CH_END # 0x30 # 0x30 #
       frame (ascii ''m0,4'') @ []) = Some (0, b, [CH_NAK, CH_ACK], []) \<and> cstring b = ascii ''m0,4''"
proof -
  have "body_ok (ascii ''m0,4'')" "0 \<notin> set (ascii ''m0,4'')" "3 \<le> length (ascii ''m0,4'')"
    "ascii ''m0,4'' ! 2 \<noteq> CH_COLON" by code_simp+
  moreover have "body_ok [0x67]" "sum_list [0x67] \<noteq> sent_checksum 0x30 0x30" by code_simp+
  ultimately show ?thesis
    using gdb_packet_integrity [of "ascii ''m0,4''" "replicate BUFMAX 0" "[CH_ACK]" "[0x67]" "0x30" "0x30" "[]" "[]"]
    by auto
qed

text \<open>
  A stale sequence number: the check for a sequence prefix reads the third byte of the
  buffer even when the packet is shorter. If an earlier packet left a colon there, a correct
  one-character packet is not delivered: the stub answers with a sequence number and executes
  the text that is still in the buffer from the earlier packet.
\<close>

theorem gdb_stale_sequence:
  assumes "body_ok [c]" "length buf = BUFMAX" "buf ! 2 = CH_COLON"
  shows "\<exists>b. getpacket buf (frame [c] @ rest) = Some (3, b, [CH_ACK, c, 0], rest) \<and> drop 3 b = drop 3 buf"
proof -
  have eq: "received [c] buf = c # 0 # drop 2 buf"
    using received_eq [of "[c]" buf] assms(2) by (simp add: numeral_2_eq_2)
  have "drop 2 buf = buf ! 2 # drop 3 buf"
    using Cons_nth_drop_Suc [of 2 buf] assms(2) by simp
  then have "received [c] buf ! 2 = CH_COLON" "drop 3 (received [c] buf) = drop 3 buf"
    using assms(3) by (simp_all add: eq numeral_eq_Suc)
  then show ?thesis
    using getpacket_frame [OF assms(1,2), of "[]" rest] by (simp add: eq)
qed

theorem gdb_stale_sequence_witness:
  "\<exists>b. getpacket (received (ascii ''00:k'') (replicate BUFMAX 0)) (frame (ascii ''g'') @ []) =
     Some (3, b, [CH_ACK, 0x67, 0], []) \<and> cstring (drop 3 b) = ascii ''k''"
proof -
  let ?b = "received (ascii ''00:k'') (replicate BUFMAX 0)"
  have "body_ok [0x67]" "length ?b = BUFMAX" "?b ! 2 = CH_COLON" by code_simp+
  moreover have "cstring (drop 3 ?b) = ascii ''k''" "[0x67] = ascii ''g''" by code_simp+
  ultimately show ?thesis using gdb_stale_sequence [of "0x67" ?b "[]"] by auto
qed

text \<open>
  (C21) A debugging session on memory: the client writes bytes to an address of the guest memory,
  reads the same range and lets the processor continue. The stub acknowledges every packet,
  answers \<open>OK\<close> and then the hexadecimal digits of exactly the bytes written; the range, and
  nothing else of the memory and of the registers, has changed.
\<close>

theorem gdb_memory_session:
  assumes "gdb_wf g" "hex_number as" "hex_number ls" "sint (hex_value as) = int a"
    "sint (hex_value ls) = int (length data)" "a + length data \<le> length (g_mem g)"
    "length as + length ls + 2 * length data + 3 < BUFMAX - 1"
  shows "\<exists>g'. gdb_loop sigval g
        (frame (write_text as ls data) @ CH_ACK # frame (read_text as ls) @ CH_ACK # frame [0x63] @ rst) =
      Inr (Some (Resume, g', CH_ACK # frame (ascii ''OK'') @ CH_ACK # frame (hex_digits data) @ [CH_ACK], rst)) \<and>
    g_mem g' = put_bytes a data (g_mem g) \<and> g_registers g' = g_registers g \<and>
    g_vcpu g' = g_vcpu g \<and> \<not> g_single_step g'"
proof -
  let ?W = "write_text as ls data" and ?R = "read_text as ls" and ?mem = "put_bytes a data (g_mem g)"
  let ?b1 = "received ?W (g_in g)"
  let ?b2 = "received ?R ?b1"
  let ?b3 = "received [0x63] ?b2"
  note ok = memory_texts_ok [OF assms(2,3,7)]
  have wf: "length (g_in g) = BUFMAX" "length (g_out g) = BUFMAX" using assms(1) by (simp_all add: gdb_wf_def)
  note buffers = session_buffers [of as ls data "g_in g" ?b1 ?b2 ?b3 "0x63", OF assms(2,3,7) wf(1) refl refl refl]
  obtain r1 r2 r3 where e: "?b1 = ?W @ r1" "?b2 = ?R @ 0 # r2" "?b3 = 0x63 # r3" using buffers(1-3) by auto
  define g1 where "g1 = strcpy_out (ascii ''OK'') (g\<lparr>g_in := ?b1, g_out := (g_out g)[0 := 0], g_mem := ?mem\<rparr>)"
  define g2 where "g2 = g1\<lparr>g_in := ?b2, g_out := put_bytes 0 (hex_digits data @ [0]) ((g_out g1)[0 := 0])\<rparr>"
  have c1: "gdb_command sigval 0 (g\<lparr>g_in := ?b1, g_out := (g_out g)[0 := 0]\<rparr>) = Inr (Reply, g1)"
    using cmd_M_text [of 0 "g\<lparr>g_in := ?b1, g_out := (g_out g)[0 := 0]\<rparr>" as ls data] assms(2-6) e(1)
    by (simp add: g1_def)
  have out1: "length (g_out g1) = BUFMAX" using wf by (simp add: g1_def strcpy_out_def length_put_bytes)
  have "mem2hex ?mem (int a) 0 ((g_out g1)[0 := 0]) (int (length data)) =
      Inr (put_bytes 0 (hex_digits data @ [0]) ((g_out g1)[0 := 0]), 2 * length data)"
    using assms(6,7) out1 by (subst mem2hex_defined) (simp_all add: length_put_bytes get_put_same)
  then have c2: "gdb_command sigval 0 (g1\<lparr>g_in := ?b2, g_out := (g_out g1)[0 := 0]\<rparr>) = Inr (Reply, g2)"
    using cmd_m_text [of 0 "g1\<lparr>g_in := ?b2, g_out := (g_out g1)[0 := 0]\<rparr>" as ls] assms(2-5) e(2)
    by (simp add: g1_def g2_def strcpy_out_def)
  have c3: "gdb_command sigval 0 (g2\<lparr>g_in := ?b3, g_out := (g_out g2)[0 := 0]\<rparr>) =
      Inr (Resume, kvm_debug_set_step False (g2\<lparr>g_in := ?b3, g_out := (g_out g2)[0 := 0]\<rparr>))"
    using not_qRcmd [of 0 ?b3 "0x63"] e(3) by (simp add: gdb_command_def Let_def)
  have in1: "g_in g1 = ?b1" and in2: "g_in g2 = ?b2" by (simp_all add: g1_def g2_def strcpy_out_def)
  have s3: "gdb_loop sigval g2 (frame [0x63] @ rst) = Inr (Some (Resume,
      kvm_debug_set_step False (g2\<lparr>g_in := ?b3, g_out := (g_out g2)[0 := 0]\<rparr>), [CH_ACK], rst))"
    by (subst gdb_loop_packet) (use buffers(5,8) c3 in2 in \<open>simp_all add: body_ok_def\<close>)
  have s2: "gdb_loop sigval g1 (frame ?R @ CH_ACK # frame [0x63] @ rst) = Inr (Some (Resume,
      kvm_debug_set_step False (g2\<lparr>g_in := ?b3, g_out := (g_out g2)[0 := 0]\<rparr>),
      CH_ACK # frame (cstring (g_out g2)) @ [CH_ACK], rst))"
    using gdb_loop_reply [OF ok(2), of g1 sigval g2, OF _ _ _ s3] buffers(4,7) c2 in1 by simp
  have t1: "cstring (g_out g1) = ascii ''OK''" by (simp add: g1_def cstring_OK)
  have t2: "cstring (g_out g2) = hex_digits data"
    using hex_digits_nonzero by (simp add: g2_def cstring_put)
  show ?thesis
    using gdb_loop_reply [OF ok(1) wf(1) buffers(6) c1 s2] t1 t2
    by (auto simp: g1_def g2_def strcpy_out_def kvm_debug_set_step_def)
qed

text \<open>A stub as it is after \<open>gdb_submit_registers\<close> was called on an idle processor.\<close>

definition example_gdb :: gdb where
  "example_gdb = \<lparr>g_registers = replicate NUMREGBYTES 0, g_extended = replicate 5 0,
     g_remote_debug = False, g_in = replicate BUFMAX 0, g_out = replicate BUFMAX 0,
     g_mem = replicate 64 0, g_vcpu = replicate 18 0, g_single_step = True\<rparr>"

lemma example_gdb_wf: "gdb_wf example_gdb"
  by (simp add: gdb_wf_def example_gdb_def)

theorem gdb_memory_session_witness:
  "\<exists>g'. gdb_loop 5 example_gdb
        (frame (write_text (ascii ''1c'') (ascii ''2'') [0xAB, 0xCD]) @ CH_ACK #
         frame (read_text (ascii ''1c'') (ascii ''2'')) @ CH_ACK # frame [0x63] @ []) =
      Inr (Some (Resume, g', CH_ACK # frame (ascii ''OK'') @ CH_ACK # frame (ascii ''abcd'') @ [CH_ACK], [])) \<and>
    g_mem g' = put_bytes 28 [0xAB, 0xCD] (replicate 64 0)"
proof -
  have "hex_number (ascii ''1c'')" "hex_number (ascii ''2'')" "sint (hex_value (ascii ''1c'')) = int 28"
    "sint (hex_value (ascii ''2'')) = int (length [0xAB, 0xCD :: u8])" by code_simp+
  moreover have "hex_digits [0xAB, 0xCD] = ascii ''abcd''" by code_simp
  moreover have "g_mem example_gdb = replicate 64 0" by (simp add: example_gdb_def)
  ultimately show ?thesis
    using gdb_memory_session [OF example_gdb_wf, of "ascii ''1c''" "ascii ''2''" 28 "[0xAB, 0xCD]" 5 "[]"]
    by auto
qed

text \<open>
  The register cache: after \<open>gdb_submit_registers\<close> the answer to the command \<open>g\<close> holds the
  general registers and the selectors at their numbers, the monitor command sees the control
  registers, and loading the cache back hands the processor the very registers it had.
\<close>

theorem gdb_register_cache:
  assumes "gdb_wf g" "length gprs = 18" "length selectors = 6" "length controls = 5" "g_in g ! 0 = 0x67"
  shows "\<exists>g1 g2. gdb_submit_registers gprs selectors controls g = Inr g1 \<and>
    gdb_command sigval 0 g1 = Inr (Reply, g2) \<and>
    map (\<lambda>i. get64 (8 * i) (unhex (cstring (g_out g2)))) [0..<NUMREGS] = gprs @ map ucast selectors \<and>
    g_extended g2 = controls \<and> g_vcpu (kvm_load_registers_from_gdbcache g1) = gprs"
proof -
  obtain r where r: "gdb_submit_registers gprs selectors controls g = Inr (g\<lparr>g_registers := r, g_extended := controls\<rparr>)"
    "length r = NUMREGBYTES" "map (\<lambda>i. get64 (8 * i) r) [0..<NUMREGS] = gprs @ map ucast selectors"
    using submit_registers [OF assms(1-4)] by blast
  define g1 where "g1 = g\<lparr>g_registers := r, g_extended := controls\<rparr>"
  define out where "out = put_bytes 0 (hex_digits r @ [0]) (g_out g)"
  have "gdb_wf g1" using assms(1,4) r(2) by (simp add: gdb_wf_def g1_def)
  then have "gdb_command sigval 0 g1 = Inr (Reply, g1\<lparr>g_out := out\<rparr>)"
    using assms(5) by (simp add: gdb_command_g g1_def out_def)
  moreover have "unhex (cstring out) = r"
    using hex_digits_nonzero by (simp add: out_def cstring_put unhex_hex_digits)
  moreover have "map (\<lambda>i. get64 (8 * i) r) [0..<18] = gprs"
    using arg_cong [OF r(3), of "take 18"] assms(2) by (simp add: take_map)
  ultimately show ?thesis
    using r by (auto simp: g1_def kvm_load_registers_from_gdbcache_def gdbserver_get_register_def)
qed

theorem gdb_register_cache_witness:
  "\<exists>g1 g2. gdb_submit_registers (map of_nat [0..<18]) (replicate 6 8) (replicate 5 1)
       (example_gdb\<lparr>g_in := (replicate BUFMAX 0)[0 := 0x67]\<rparr>) = Inr g1 \<and>
     gdb_command 5 0 g1 = Inr (Reply, g2) \<and>
     map (\<lambda>i. get64 (8 * i) (unhex (cstring (g_out g2)))) [0..<NUMREGS] = map of_nat [0..<18] @ replicate 6 8"
proof -
  let ?g = "example_gdb\<lparr>g_in := (replicate BUFMAX 0)[0 := 0x67]\<rparr>"
  have "gdb_wf ?g" "g_in ?g ! 0 = 0x67" using example_gdb_wf by (simp_all add: gdb_wf_def)
  then show ?thesis
    using gdb_register_cache [of ?g "map of_nat [0..<18]" "replicate 6 8" "replicate 5 1" 5] by auto
qed

text \<open>
  (C36) Which commands are safe: apart from \<open>P\<close>, \<open>m\<close> and \<open>M\<close>, every command runs without a memory
  error on any buffer contents and keeps the state well formed. A read of guest memory is safe
  exactly when fewer than 200 bytes are asked for and the range lies inside the guest memory:
  neither is checked, so a longer request overruns the output buffer and a range outside the
  guest memory reads the memory of the monitor.
\<close>

theorem gdb_command_memory_safety:
  assumes "gdb_wf g" "pos \<le> 3"
  shows "(g_in g ! pos \<notin> {0x50, 0x6D, 0x4D} \<longrightarrow> (\<exists>n g'. gdb_command sigval pos g = Inr (n, g') \<and> gdb_wf g')) \<and>
    (drop pos (g_in g) = read_text as ls @ 0 # rst \<and> hex_number as \<and> hex_number ls \<longrightarrow>
      ((\<exists>n g'. gdb_command sigval pos g = Inr (n, g')) \<longleftrightarrow>
       sint (hex_value ls) < 200 \<and>
       (sint (hex_value ls) \<le> 0 \<or>
        0 \<le> sint (hex_value as) \<and> sint (hex_value as) + sint (hex_value ls) \<le> int (length (g_mem g)))))"
proof (intro conjI impI)
  assume "g_in g ! pos \<notin> {0x50, 0x6D, 0x4D}"
  then show "\<exists>n g'. gdb_command sigval pos g = Inr (n, g') \<and> gdb_wf g'" by (rule gdb_command_safe [OF assms])
next
  assume "drop pos (g_in g) = read_text as ls @ 0 # rst \<and> hex_number as \<and> hex_number ls"
  then have cmd: "gdb_command sigval pos g =
      bind_res (mem2hex (g_mem g) (sint (hex_value as)) 0 (g_out g) (sint (hex_value ls)))
        (\<lambda>(out, _). Inr (Reply, g\<lparr>g_out := out\<rparr>))"
    using cmd_m_text by blast
  have "length (g_out g) = BUFMAX" using assms(1) by (simp add: gdb_wf_def)
  then show "(\<exists>n g'. gdb_command sigval pos g = Inr (n, g')) \<longleftrightarrow> sint (hex_value ls) < 200 \<and>
      (sint (hex_value ls) \<le> 0 \<or>
       0 \<le> sint (hex_value as) \<and> sint (hex_value as) + sint (hex_value ls) \<le> int (length (g_mem g)))"
    unfolding cmd by (auto simp: mem2hex_def Let_def)
qed

theorem gdb_command_memory_safety_witness:
  "\<not> (\<exists>n g'. gdb_command 5 0 (example_gdb\<lparr>g_in := received (read_text (ascii ''0'') (ascii ''c8'')) (replicate BUFMAX 0)\<rparr>) =
     Inr (n, g'))"
proof -
  let ?t = "read_text (ascii ''0'') (ascii ''c8'')"
  let ?g = "example_gdb\<lparr>g_in := received ?t (replicate BUFMAX 0)\<rparr>"
  have "length ?t < BUFMAX" "hex_number (ascii ''0'')" "hex_number (ascii ''c8'')"
    "\<not> sint (hex_value (ascii ''c8'')) < 200" by code_simp+
  moreover from this(1) have e: "received ?t (replicate BUFMAX 0) = ?t @ 0 # drop (length ?t + 1) (replicate BUFMAX 0)"
    by (intro received_eq) simp
  moreover have "gdb_wf ?g"
    using example_gdb_wf \<open>length ?t < BUFMAX\<close> by (simp add: gdb_wf_def e)
  ultimately show ?thesis
    using gdb_command_memory_safety [of ?g 0 5 "ascii ''0''" "ascii ''c8''"] by auto
qed

end
