(* ===== verification/DebugExit.thy ===== *)
theory DebugExit
  imports GdbServer
begin

text \<open>
  How \<open>kvm.cpp\<close> drives the stub: \<open>kvm_enable_guest_debug\<close>, \<open>kvm_handle_debug_exit\<close>, and the start of
  the server (\<open>gdbserver_start\<close> of \<open>gdbserver/gdbserver.cpp\<close>) once a client is connected. The registers
  KVM reports, and the address in the debug exit, are parameters; the calls to KVM succeed.
\<close>

section \<open>Operations\<close>

abbreviation "SIGTRAP \<equiv> 5 :: nat"
abbreviation "AMD64_RIP_REGNUM \<equiv> 16 :: nat"

type_synonym session = "((cmd_next \<times> gdb \<times> u8 list \<times> u8 list) option) res"

text \<open>The control word is set to the two kinds of breakpoints, so single stepping is off.\<close>

definition kvm_enable_guest_debug :: "gdb \<Rightarrow> gdb" where
  "kvm_enable_guest_debug g = g\<lparr>g_single_step := False\<rparr>"

definition kvm_handle_debug_exit :: "u64 list \<Rightarrow> u16 list \<Rightarrow> u64 list \<Rightarrow> u64 \<Rightarrow> gdb \<Rightarrow> u8 list \<Rightarrow> session" where
  "kvm_handle_debug_exit gprs selectors controls pc g inp =
     bind_res (gdb_submit_registers gprs selectors controls g) (\<lambda>g1.
     bind_res (gdbserver_set_register AMD64_RIP_REGNUM pc g1) (\<lambda>g2.
       gdbserver_handle_exception SIGTRAP g2 inp))"

definition gdbserver_start :: "gdb \<Rightarrow> u8 list \<Rightarrow> session" where
  "gdbserver_start g inp = gdbserver_handle_exception SIGTRAP g inp"

text \<open>The part of \<open>main\<close> that enables debugging.\<close>

definition start_debugging :: "u64 list \<Rightarrow> u16 list \<Rightarrow> u64 list \<Rightarrow> gdb \<Rightarrow> u8 list \<Rightarrow> session" where
  "start_debugging gprs selectors controls g inp =
     bind_res (gdb_submit_registers gprs selectors controls (kvm_enable_guest_debug g)) (\<lambda>g1. gdbserver_start g1 inp)"

section \<open>A stop, a look at the registers, and on\<close>

lemma hex_digits_no_zero: "0 \<notin> set (stop_reply SIGTRAP g)"
proof -
  have "0 \<notin> set hexchars" by code_simp
  moreover have "hexchars ! i \<in> set hexchars" if "i < 16" for i
    using that by (intro nth_mem) (simp add: hexchars_def)
  ultimately have "hexchars ! i \<noteq> 0" if "i < 16" for i using that by metis
  then show ?thesis using hex_digits_nonzero by (simp add: stop_reply_def)
qed

lemma one_char_buffer:
  assumes "length b = BUFMAX" "b ! 2 \<noteq> CH_COLON" "b' = received [c] b"
  shows "length b' = BUFMAX" "b' ! 0 = c" "b' ! 2 \<noteq> CH_COLON" "drop 0 b' = c # drop 1 b'"
proof -
  have b': "b' = c # 0 # drop 2 b" using received_eq [of "[c]" b] assms by (simp add: numeral_2_eq_2)
  show "length b' = BUFMAX" "b' ! 0 = c" "drop 0 b' = c # drop 1 b'" using assms(1) by (simp_all add: b')
  show "b' ! 2 \<noteq> CH_COLON" using assms(1,2) by (simp add: b' numeral_2_eq_2)
qed

lemma resume_packet:
  assumes "length (g_in g) = BUFMAX" "g_in g ! 2 \<noteq> CH_COLON" "c \<in> {0x63, 0x73}"
  shows "gdb_loop sigval g (frame [c] @ rst) =
    Inr (Some (Resume, g\<lparr>g_in := received [c] (g_in g), g_out := (g_out g)[0 := 0], g_single_step := (c = 0x73)\<rparr>, [CH_ACK], rst))"
proof -
  note b = one_char_buffer [OF assms(1,2) refl, of c]
  have "get_bytes 0 6 (received [c] (g_in g)) \<noteq> ascii ''qRcmd,''" using assms(3) by (intro not_qRcmd [OF b(4)]) auto
  then have "gdb_command sigval 0 (g\<lparr>g_in := received [c] (g_in g), g_out := (g_out g)[0 := 0]\<rparr>) =
      Inr (Resume, g\<lparr>g_in := received [c] (g_in g), g_out := (g_out g)[0 := 0], g_single_step := (c = 0x73)\<rparr>)"
    using assms(3) b(2) unfolding insert_iff empty_iff
    by (elim disjE FalseE) (simp_all add: gdb_command_def Let_def kvm_debug_set_step_def)
  moreover have "body_ok [c]" using assms(3) by (auto simp: body_ok_def)
  ultimately show ?thesis using gdb_loop_packet [of "[c]" g sigval rst] assms(1) b(3) by simp
qed

lemma stop_session:
  assumes "gdb_wf g" "g_in g ! 2 \<noteq> CH_COLON" "c \<in> {0x63, 0x73}"
  shows "\<exists>g'. gdbserver_handle_exception SIGTRAP g (CH_ACK # frame [0x67] @ CH_ACK # frame [c] @ rst) =
      Inr (Some (Resume, g', frame (stop_reply SIGTRAP g) @ CH_ACK # frame (hex_digits (g_registers g)) @ [CH_ACK], rst)) \<and>
    g_registers g' = g_registers g \<and> g_mem g' = g_mem g \<and> g_vcpu g' = g_vcpu g \<and> g_single_step g' = (c = 0x73)"
proof -
  define g1 where "g1 = strcpy_out (stop_reply SIGTRAP g) g"
  have "length (stop_reply SIGTRAP g) < BUFMAX"
    using assms(1) by (simp add: stop_reply_def length_get_bytes gdb_wf_def)
  then have wf: "gdb_wf g1" using assms(1) by (simp add: g1_def)
  have in1: "g_in g1 = g_in g" by (simp add: g1_def strcpy_out_def)
  let ?g1 = "g1\<lparr>g_in := received [0x67] (g_in g), g_out := (g_out g1)[0 := 0]\<rparr>"
  note b = one_char_buffer [OF _ assms(2) refl, of "0x67"]
  have l: "length (g_in g) = BUFMAX" using assms(1) by (simp add: gdb_wf_def)
  define g2 where "g2 = ?g1\<lparr>g_out := put_bytes 0 (hex_digits (g_registers g) @ [0]) ((g_out g1)[0 := 0])\<rparr>"
  have "gdb_command SIGTRAP 0 ?g1 = Inr (Reply, g2)"
    using wf b(1,2) [OF l] by (subst gdb_command_g) (simp_all add: gdb_wf_def g2_def g1_def strcpy_out_def)
  moreover have "gdb_loop SIGTRAP g2 (frame [c] @ rst) = Inr (Some (Resume, g2\<lparr>g_in := received [c] (g_in g2),
      g_out := (g_out g2)[0 := 0], g_single_step := (c = 0x73)\<rparr>, [CH_ACK], rst))"
    using b(1,3) [OF l] assms(3) by (intro resume_packet) (simp_all add: g2_def)
  moreover have "body_ok [0x67]" by (simp add: body_ok_def)
  moreover have "cstring (g_out g2) = hex_digits (g_registers g)"
    using hex_digits_nonzero by (simp add: g2_def cstring_put)
  ultimately have "gdb_loop SIGTRAP g1 (frame [0x67] @ CH_ACK # frame [c] @ rst) =
      Inr (Some (Resume, g2\<lparr>g_in := received [c] (g_in g2), g_out := (g_out g2)[0 := 0], g_single_step := (c = 0x73)\<rparr>,
        CH_ACK # frame (hex_digits (g_registers g)) @ [CH_ACK], rst))"
    using gdb_loop_reply [of "[0x67]" g1 SIGTRAP g2] b(3) [OF l] l in1 by simp
  moreover have "cstring (g_out g1) = stop_reply SIGTRAP g"
    using hex_digits_no_zero by (simp add: g1_def strcpy_out_def cstring_put)
  ultimately show ?thesis
    by (simp add: gdbserver_handle_exception_def Let_def g1_def [symmetric]) (simp add: g2_def g1_def strcpy_out_def)
qed

lemma set_rip:
  assumes "length r = NUMREGBYTES" "map (\<lambda>i. get64 (8 * i) r) [0..<NUMREGS] = gprs @ sels" "length gprs = 18"
  shows "\<exists>r'. put64 (8 * AMD64_RIP_REGNUM) pc r = Inr r' \<and> length r' = NUMREGBYTES \<and>
    map (\<lambda>i. get64 (8 * i) r') [0..<NUMREGS] = gprs[AMD64_RIP_REGNUM := pc] @ sels"
proof -
  have n: "length r div 8 = NUMREGS" using assms(1) by simp
  obtain r' where r': "put64 (8 * AMD64_RIP_REGNUM) pc r = Inr r'"
    "\<forall>i < NUMREGS. get64 (8 * i) r' = (if i = AMD64_RIP_REGNUM then pc else get64 (8 * i) r)"
    using gm.put_in [of AMD64_RIP_REGNUM r pc] unfolding n by auto
  have "map (\<lambda>i. get64 (8 * i) r') [0..<NUMREGS] =
      (map (\<lambda>i. get64 (8 * i) r) [0..<NUMREGS])[AMD64_RIP_REGNUM := pc]"
    using r'(2) by (intro nth_equalityI) (auto simp: nth_list_update)
  then have "map (\<lambda>i. get64 (8 * i) r') [0..<NUMREGS] = gprs[AMD64_RIP_REGNUM := pc] @ sels"
    using assms(2,3) by (simp add: list_update_append)
  then show ?thesis using r'(1) get_put64_same(2) [OF r'(1)] assms(1) by auto
qed

section \<open>Properties\<close>

text \<open>
  (C22) A breakpoint, seen from the debugger: on a debug exit the stub announces the stop with
  the address of the breakpoint as program counter; a client that asks for the registers gets
  the ones KVM reported, with that program counter; and when it lets the processor continue or
  step, neither the guest memory nor the registers of the processor have been touched, and
  single stepping is on exactly if a step was asked for. (The input buffer has no colon left at
  its third position.)
\<close>

theorem debug_exit_transparent:
  assumes "gdb_wf g" "g_in g ! 2 \<noteq> CH_COLON" "c \<in> {0x63, 0x73}"
    and "length gprs = 18" "length selectors = 6" "length controls = 5"
  shows "\<exists>g' regs stop.
    kvm_handle_debug_exit gprs selectors controls pc g (CH_ACK # frame [0x67] @ CH_ACK # frame [c] @ rst) =
      Inr (Some (Resume, g', frame (stop @ ascii ''10:'' @ hex_digits (le_bytes 8 (unat pc)) @ ascii '';'') @
        CH_ACK # frame (hex_digits regs) @ [CH_ACK], rst)) \<and>
    map (\<lambda>i. get64 (8 * i) regs) [0..<NUMREGS] = gprs[AMD64_RIP_REGNUM := pc] @ map ucast selectors \<and>
    g_mem g' = g_mem g \<and> g_vcpu g' = g_vcpu g \<and> g_single_step g' = (c = 0x73)"
proof -
  obtain r where r: "gdb_submit_registers gprs selectors controls g = Inr (g\<lparr>g_registers := r, g_extended := controls\<rparr>)"
    "length r = NUMREGBYTES" "map (\<lambda>i. get64 (8 * i) r) [0..<NUMREGS] = gprs @ map ucast selectors"
    using submit_registers [OF assms(1,4-6)] by blast
  obtain r' where r': "put64 (8 * AMD64_RIP_REGNUM) pc r = Inr r'" "length r' = NUMREGBYTES"
    "map (\<lambda>i. get64 (8 * i) r') [0..<NUMREGS] = gprs[AMD64_RIP_REGNUM := pc] @ map ucast selectors"
    using set_rip [OF r(2,3) assms(4)] by blast
  define g2 where "g2 = g\<lparr>g_extended := controls, g_registers := r'\<rparr>"
  have wf: "gdb_wf g2" using assms(1,6) r'(2) by (simp add: gdb_wf_def g2_def)
  have run: "kvm_handle_debug_exit gprs selectors controls pc g inp = gdbserver_handle_exception SIGTRAP g2 inp" for inp
    using r(1) r'(1) by (simp add: kvm_handle_debug_exit_def gdbserver_set_register_def g2_def)
  have "get64 (8 * AMD64_RIP_REGNUM) r' = pc" using get_put64_same(1) [OF r'(1)] .
  then have "get_bytes (8 * AMD64_RIP_REGNUM) 8 r' = le_bytes 8 (unat pc)"
    using get64_bytes [of "8 * AMD64_RIP_REGNUM" r'] r'(2) by simp
  moreover have "ascii ''10:'' = [hexchars ! 1, hexchars ! 0, CH_COLON]" "ascii '';'' = [0x3B]" by code_simp+
  ultimately have "\<exists>s. stop_reply SIGTRAP g2 = s @ ascii ''10:'' @ hex_digits (le_bytes 8 (unat pc)) @ ascii '';''"
    by (simp add: stop_reply_def g2_def)
  then show ?thesis
    using stop_session [OF wf _ assms(3), of rst] assms(2) r'(3) unfolding run by (fastforce simp: g2_def)
qed

theorem debug_exit_transparent_witness:
  "\<exists>g' regs stop.
    kvm_handle_debug_exit (replicate 18 7) (replicate 6 8) (replicate 5 0) 0x200000 example_gdb
       (CH_ACK # frame [0x67] @ CH_ACK # frame [0x73] @ []) =
      Inr (Some (Resume, g', frame (stop @ ascii ''10:'' @ hex_digits (le_bytes 8 0x200000) @ ascii '';'') @
        CH_ACK # frame (hex_digits regs) @ [CH_ACK], [])) \<and>
    g_single_step g'"
proof -
  have "g_in example_gdb ! 2 \<noteq> CH_COLON" by (simp add: example_gdb_def)
  from debug_exit_transparent [OF example_gdb_wf this, of "0x73" "replicate 18 7" "replicate 6 8" "replicate 5 0" "0x200000" "[]"]
  show ?thesis by auto
qed

end
