(* ===== verification/MainProgram.thy ===== *)
theory MainProgram
  imports Startup Lifecycle DebugExit
begin

text \<open>
  The whole of \<open>main\<close> in \<open>kvm.cpp\<close> as one transition system: the start with the two debug servers,
  the consoles and the devices, the run loop with the debugger at the other end of its socket, the
  console thread, and all the ways in which the process ends.
\<close>

section \<open>State\<close>

text \<open>The guest memory is the field \<open>g_mem\<close> of the stub, which shares it with the guest.\<close>

record kvm_process =
  kp_machine :: machine
  kp_gdb :: gdb
  kp_process :: process
  kp_debug :: bool

text \<open>
  What the environment contributes when the debugger is involved: the registers KVM reports, the
  program counter of a debug exit and the characters the debugger will send. \<open>dh_opens\<close> and
  \<open>dh_connects\<close> say whether the sockets of the two servers can be opened.
\<close>

record debug_info =
  di_gprs :: "u64 list"
  di_selectors :: "u16 list"
  di_controls :: "u64 list"
  di_pc :: u64
  di_input :: "u8 list"

record debug_host =
  dh_opens :: bool
  dh_connects :: bool
  dh_info :: debug_info
  dh_gdb :: gdb

text \<open>The process runs, waits for the debugger, has ended or has crashed.\<close>

datatype main_state =
    Runs kvm_process | WaitsForDebugger | Ends "end_error + outcome \<times> process" | Faults fault

section \<open>The start\<close>

text \<open>What follows a session with the debugger: the command that kills the program calls \<open>exit\<close>.\<close>

definition after_session :: "session \<Rightarrow> process \<Rightarrow> (gdb \<Rightarrow> main_state) \<Rightarrow> main_state" where
  "after_session r p go =
     (case r of
        Inl f \<Rightarrow> Faults f
      | Inr None \<Rightarrow> WaitsForDebugger
      | Inr (Some (next, g, sent, rest)) \<Rightarrow> if next = Exit then Ends (finish (CallsExit 0) p) else go g)"

definition start_devices :: "host \<Rightarrow> process \<Rightarrow> bool \<Rightarrow> gdb \<Rightarrow> main_state" where
  "start_devices h p dbg g =
     (case initIO (h_junk h) (h_disk h) of
        Inl f \<Rightarrow> Faults f
      | Inr m \<Rightarrow> Runs \<lparr>kp_machine = m, kp_gdb = g, kp_process = initIO_consoles p, kp_debug = dbg\<rparr>)"

definition main_begin :: "host \<Rightarrow> debug_host \<Rightarrow> process \<Rightarrow> main_state" where
  "main_begin h dh p =
     (case main_load h of
        Inl (Returns c) \<Rightarrow> Ends (finish (MainReturns c) p)
      | Inl (StoppedIn ExitFailure) \<Rightarrow> Ends (finish (CallsExit 1) p)
      | Inl (StoppedIn (Fault f)) \<Rightarrow> Faults f
      | Inr (sregs, regs, m) \<Rightarrow>
          (let reader = INIReader_new (h_config h);
               p = (if GetBoolean reader ''debug-server'' ''enable'' False \<and> dh_opens dh
                    then p\<lparr>pr_debug_serv := LiveServer\<rparr> else p);
               debug_mode = GetBoolean reader ''gdb-server'' ''enable'' False;
               g = (dh_gdb dh)\<lparr>g_mem := m\<rparr>; d = dh_info dh
           in if \<not> debug_mode then start_devices h p False g
              else if \<not> dh_connects dh then Ends (finish (CallsExit 1) p)
              else after_session (start_debugging (di_gprs d) (di_selectors d) (di_controls d) g (di_input d)) p
                     (start_devices h p True)))"

section \<open>The run loop\<close>

text \<open>One turn of the loop on an exit.\<close>

definition main_exit :: "vm_exit \<Rightarrow> debug_info \<Rightarrow> kvm_process \<Rightarrow> main_state" where
  "main_exit e d k =
     (case handle_exit (kp_debug k) e (kp_machine k) of
        Inl f \<Rightarrow> Faults f
      | Inr (Continue m dat es sigs) \<Rightarrow>
          (let k = k\<lparr>kp_machine := m\<rparr>
           in if sigs = [] then Runs k
              else after_session (kvm_handle_debug_exit (di_gprs d) (di_selectors d) (di_controls d) (di_pc d) (kp_gdb k) (di_input d))
                     (kp_process k) (\<lambda>g. Runs (k\<lparr>kp_gdb := g\<rparr>)))
      | Inr (Return c sigs) \<Rightarrow>
          (let stop = Ends (finish (MainReturns c) (kp_process k))
           in if sigs = [] then stop
              else after_session (gdbserver_handle_exception (hd sigs) (kp_gdb k) (di_input d)) (kp_process k) (\<lambda>g. stop)))"

text \<open>
  What can happen to the running process: the guest runs, writes its memory and exits; \<open>KVM_RUN\<close>
  fails; the console thread inserts a scan code; or the user types ctrl-c.
\<close>

datatype main_event = GuestExit guest_mem vm_exit debug_info | RunFails | KeyTyped u8 | CtrlC

inductive main_step :: "kvm_process \<Rightarrow> main_event \<Rightarrow> main_state \<Rightarrow> bool" where
  step_exit: "length mem = length (g_mem (kp_gdb k)) \<Longrightarrow>
    main_step k (GuestExit mem e d) (main_exit e d (k\<lparr>kp_gdb := (kp_gdb k)\<lparr>g_mem := mem\<rparr>\<rparr>))"
| step_fails: "main_step k RunFails (Ends (finish (MainReturns 1) (kp_process k)))"
| step_typed: "main_step k (KeyTyped c)
    (Runs (k\<lparr>kp_machine := (kp_machine k)\<lparr>m_keyb := fst (keyboard_insert_keycode_event c (m_keyb (kp_machine k)))\<rparr>\<rparr>))"
| step_ctrl_c: "main_step k CtrlC (Ends (finish Interrupted (kp_process k)))"

inductive main_reaches :: "host \<Rightarrow> debug_host \<Rightarrow> process \<Rightarrow> main_event list \<Rightarrow> main_state \<Rightarrow> bool" for h dh p where
  main_starts: "main_reaches h dh p [] (main_begin h dh p)"
| main_goes_on: "main_reaches h dh p evs (Runs k) \<Longrightarrow> main_step k ev st \<Longrightarrow> main_reaches h dh p (evs @ [ev]) st"

inductive_cases main_step_exitE: "main_step k (GuestExit mem e d) st"
inductive_cases main_reaches_NilE: "main_reaches h dh p [] st"

section \<open>The debugger keeps the size of the memory\<close>

lemma hex2mem_length: "hex2mem buf pos dest off count = Inr d \<Longrightarrow> length d = length dest"
  by (auto simp: hex2mem_def Let_def length_unhex length_put_bytes length_get_bytes split: if_splits)

lemma load_registers_mem [simp]: "g_mem (kvm_load_registers_from_gdbcache g) = g_mem g"
  by (simp add: kvm_load_registers_from_gdbcache_def)

lemma strcpy_mem [simp]: "g_mem (strcpy_out t g) = g_mem g"
  by (simp add: strcpy_out_def)

lemma command_mem:
  "cmd_qRcmd pos g = Inr g' \<Longrightarrow> g_mem g' = g_mem g" "cmd_p pos g = Inr g' \<Longrightarrow> g_mem g' = g_mem g"
  "cmd_P pos g = Inr g' \<Longrightarrow> g_mem g' = g_mem g" "cmd_m pos g = Inr g' \<Longrightarrow> g_mem g' = g_mem g"
  "cmd_M pos g = Inr g' \<Longrightarrow> length (g_mem g') = length (g_mem g)"
  by (auto simp: cmd_qRcmd_def cmd_p_def cmd_P_def cmd_m_def cmd_M_def bind_res_eq_Inr Let_def
      dest: hex2mem_length split: if_splits prod.splits)

lemma gdb_command_mem:
  assumes "gdb_command sigval pos g = Inr (next, g')"
  shows "length (g_mem g') = length (g_mem g)"
  using assms
  by (auto simp: gdb_command_def bind_res_eq_Inr Let_def kvm_debug_set_step_def dest: command_mem split: if_splits)

lemma gdb_loop_mem:
  "gdb_loop sigval g inp = Inr (Some (next, g', sent, rest)) \<Longrightarrow> length (g_mem g') = length (g_mem g)"
proof (induction sigval g inp arbitrary: "next" g' sent rest rule: gdb_loop.induct)
  case (1 sigval g inp)
  show ?case
    using "1.prems" "1.IH"
    by (subst (asm) gdb_loop.simps)
      (fastforce simp: bind_res_eq_Inr dest!: gdb_command_mem split: option.splits prod.splits if_splits)
qed

lemma handle_exception_mem:
  "gdbserver_handle_exception sigval g inp = Inr (Some (next, g', sent, rest)) \<Longrightarrow> length (g_mem g') = length (g_mem g)"
  by (fastforce simp: gdbserver_handle_exception_def Let_def bind_res_eq_Inr dest: gdb_loop_mem
      split: if_splits option.splits prod.splits)

lemma submit_mem:
  assumes "gdb_submit_registers gprs selectors controls g = Inr g'"
  shows "g_mem g' = g_mem g"
proof -
  have custom: "g_mem (fold (\<lambda>i. gdbserver_set_custom_register i (controls ! i)) is g) = g_mem g" for "is" g
    by (induction "is" arbitrary: g) (simp_all add: gdbserver_set_custom_register_def)
  have "g_mem g2 = g_mem g1" if "set_registers b vs g1 = Inr g2" for b vs g1 g2
    using set_registers_frame [OF that] by (metis gdb.surjective gdb.update_convs(1) gdb.ext_inject)
  then show ?thesis using assms custom by (fastforce simp: gdb_submit_registers_def bind_res_eq_Inr)
qed

lemma debug_exit_mem:
  assumes "kvm_handle_debug_exit gprs selectors controls pc g inp = Inr (Some (next, g', sent, rest))"
  shows "length (g_mem g') = length (g_mem g)"
proof -
  obtain g1 g2 where g: "gdb_submit_registers gprs selectors controls g = Inr g1"
    "gdbserver_set_register AMD64_RIP_REGNUM pc g1 = Inr g2"
    "gdbserver_handle_exception DebugExit.SIGTRAP g2 inp = Inr (Some (next, g', sent, rest))"
    using assms by (auto simp: kvm_handle_debug_exit_def bind_res_eq_Inr)
  have "g_mem g2 = g_mem g1" using g(2) by (auto simp: gdbserver_set_register_def bind_res_eq_Inr)
  then show ?thesis using submit_mem [OF g(1)] handle_exception_mem [OF g(3)] by simp
qed

lemma start_debugging_mem:
  assumes "start_debugging gprs selectors controls g inp = Inr (Some (next, g', sent, rest))"
  shows "length (g_mem g') = length (g_mem g)"
proof -
  obtain g1 where g: "gdb_submit_registers gprs selectors controls (kvm_enable_guest_debug g) = Inr g1"
    "gdbserver_handle_exception DebugExit.SIGTRAP g1 inp = Inr (Some (next, g', sent, rest))"
    using assms by (auto simp: start_debugging_def gdbserver_start_def bind_res_eq_Inr)
  then show ?thesis using submit_mem [OF g(1)] handle_exception_mem [OF g(2)] by (simp add: kvm_enable_guest_debug_def)
qed

section \<open>Running and ending\<close>

text \<open>The process runs with \<open>n\<close> bytes of guest memory, on the consoles set up from \<open>p\<close>.\<close>

definition running_ok :: "nat \<Rightarrow> process \<Rightarrow> kvm_process \<Rightarrow> bool" where
  "running_ok n p k \<longleftrightarrow> machine_inv (kp_machine k) \<and> length (g_mem (kp_gdb k)) = n \<and>
     (\<exists>q. fresh_process q \<and> pr_ttys q = pr_ttys p \<and> kp_process k = initIO_consoles q)"

text \<open>
  The process has ended: every terminal has the attributes it had at the start, unless the debug
  server was deleted twice, which only ctrl-c does.
\<close>

definition ended_ok :: "bool \<Rightarrow> process \<Rightarrow> end_error + outcome \<times> process \<Rightarrow> bool" where
  "ended_ok ctrl_c p x \<longleftrightarrow>
     (case x of
        Inl e \<Rightarrow> ctrl_c \<and> e = DoubleDelete
      | Inr (st, r) \<Rightarrow> tty_attr (pr_ttys r) = tty_attr (pr_ttys p))"

definition state_ok :: "bool \<Rightarrow> nat \<Rightarrow> process \<Rightarrow> main_state \<Rightarrow> bool" where
  "state_ok ctrl_c n p st \<longleftrightarrow>
     (case st of Runs k \<Rightarrow> running_ok n p k | Ends x \<Rightarrow> ended_ok ctrl_c p x | _ \<Rightarrow> True)"

lemma state_ok_simps [simp]:
  "state_ok b n p (Runs k) = running_ok n p k" "state_ok b n p (Ends x) = ended_ok b p x"
  "state_ok b n p WaitsForDebugger" "state_ok b n p (Faults f)"
  by (simp_all add: state_ok_def)

lemma finish_early:
  "pr_handlers q = [] \<Longrightarrow> pr_ttys q = pr_ttys p \<Longrightarrow> how \<noteq> Interrupted \<Longrightarrow> ended_ok b p (finish how q)"
  by (cases how) (simp_all add: do_exit_Nil ended_ok_def)

lemma finish_consoles:
  assumes "fresh_process q" "pr_ttys q = pr_ttys p"
  shows "ended_ok (how = Interrupted) p (finish how (initIO_consoles q))"
proof (cases "how = Interrupted \<and> pr_debug_serv q = LiveServer")
  case True
  then have "finish how (initIO_consoles q) = Inl DoubleDelete"
    using conjunct2 [OF terminal_restored [OF assms(1), of how]] by (simp del: finish.simps)
  then show ?thesis using True by (simp add: ended_ok_def del: finish.simps)
next
  case False
  then obtain r where "finish how (initIO_consoles q) = Inr (Status 0, r)" "tty_attr (pr_ttys r) = tty_attr (pr_ttys q)"
    using conjunct2 [OF terminal_restored [OF assms(1), of how]] by (auto simp del: finish.simps split: if_splits)
  then show ?thesis using assms(2) by (simp add: ended_ok_def del: finish.simps)
qed

lemma after_session_ok:
  assumes "\<And>next g sent rest. r = Inr (Some (next, g, sent, rest)) \<Longrightarrow> state_ok b n p (go g)"
    "ended_ok b p (finish (CallsExit 0) q)"
  shows "state_ok b n p (after_session r q go)"
  using assms by (auto simp: after_session_def split: sum.splits option.splits)

lemma start_devices_ok:
  assumes "hd_inv (h_disk h)" "fresh_process q" "pr_ttys q = pr_ttys p" "length (g_mem g) = n"
  shows "state_ok b n p (start_devices h q dbg g)"
  using assms initIO_fields(1) [OF _ assms(1)] by (auto simp: start_devices_def running_ok_def split: sum.splits)

lemma main_begin_ok:
  assumes "hd_inv (h_disk h)" "fresh_process p"
    and n: "\<And>s r m. main_load h = Inr (s, r, m) \<Longrightarrow> n = length m"
  shows "state_ok b n p (main_begin h dh p)"
proof (cases "main_load h")
  case (Inl e)
  have "pr_handlers p = []" using assms(2) by (simp add: fresh_process_def)
  then show ?thesis using Inl finish_early
    by (auto simp: main_begin_def simp del: finish.simps split: start_error.splits stop.splits)
next
  case (Inr x)
  obtain s r m where x: "x = (s, r, m)" by (cases x) auto
  let ?p = "if GetBoolean (INIReader_new (h_config h)) ''debug-server'' ''enable'' False \<and> dh_opens dh
    then p\<lparr>pr_debug_serv := LiveServer\<rparr> else p"
  let ?g = "(dh_gdb dh)\<lparr>g_mem := m\<rparr>" and ?d = "dh_info dh"
  have p: "fresh_process ?p" "pr_ttys ?p = pr_ttys p" "pr_handlers ?p = []" using assms(2) by (simp_all add: fresh_process_def)
  have e: "ended_ok b p (finish (CallsExit c) ?p)" for c
    by (rule finish_early [OF p(3,2)]) simp
  have go: "state_ok b n p (start_devices h ?p dbg g)" if "length (g_mem g) = length m" for dbg g
    using start_devices_ok [OF assms(1) p(1,2)] that n [of s r m] Inr x by simp
  have "state_ok b n p (after_session (start_debugging (di_gprs ?d) (di_selectors ?d) (di_controls ?d) ?g (di_input ?d)) ?p
      (start_devices h ?p True))"
    by (intro after_session_ok go e) (auto dest: start_debugging_mem)
  then show ?thesis using go [of ?g] e Inr x by (simp add: main_begin_def Let_def del: finish.simps)
qed

lemma main_exit_ok:
  assumes "running_ok n p k"
  shows "state_ok b n p (main_exit e d k)"
proof -
  obtain q where q: "fresh_process q" "pr_ttys q = pr_ttys p" "kp_process k = initIO_consoles q"
    using assms by (auto simp: running_ok_def)
  have fin: "ended_ok b p (finish how (kp_process k))" if "how \<noteq> Interrupted" for how
    using finish_consoles [OF q(1,2), of how] that by (cases b) (auto simp: q(3) ended_ok_def split: sum.splits)
  show ?thesis
  proof (cases "handle_exit (kp_debug k) e (kp_machine k)")
    case (Inr r)
    show ?thesis
    proof (cases r)
      case (Return c sigs)
      then show ?thesis using Inr fin by (simp add: main_exit_def Let_def after_session_ok del: finish.simps)
    next
      case (Continue m dat es sigs)
      have inv: "machine_inv m"
        using kvm_step_inv [OF step_continue [of "kp_debug k" e "kp_machine k" m dat es sigs], of m] Inr Continue assms
        by (simp add: running_ok_def)
      have ok: "running_ok n p (k\<lparr>kp_machine := m\<rparr>)" "length (g_mem g) = n \<Longrightarrow> running_ok n p (k\<lparr>kp_machine := m, kp_gdb := g\<rparr>)" for g
        using assms inv by (auto simp: running_ok_def)
      have len: "length (g_mem (kp_gdb k)) = n" using assms by (simp add: running_ok_def)
      have "state_ok b n p (after_session (kvm_handle_debug_exit (di_gprs d) (di_selectors d) (di_controls d) (di_pc d) (kp_gdb k) (di_input d))
          (kp_process k) (\<lambda>g. Runs (k\<lparr>kp_machine := m, kp_gdb := g\<rparr>)))"
      proof (rule after_session_ok)
        fix "next" g sent rest
        assume "kvm_handle_debug_exit (di_gprs d) (di_selectors d) (di_controls d) (di_pc d) (kp_gdb k) (di_input d) =
          Inr (Some (next, g, sent, rest))"
        from debug_exit_mem [OF this] show "state_ok b n p (Runs (k\<lparr>kp_machine := m, kp_gdb := g\<rparr>))"
          using ok(2) len by simp
      qed (rule fin, simp)
      then show ?thesis using Inr Continue ok(1) by (simp add: main_exit_def Let_def)
    qed
  qed (simp add: main_exit_def)
qed

lemma main_step_ok:
  assumes "main_step k ev st" "running_ok n p k"
  shows "state_ok (ev = CtrlC) n p st"
proof -
  obtain q where q: "fresh_process q" "pr_ttys q = pr_ttys p" "kp_process k = initIO_consoles q"
    using assms(2) by (auto simp: running_ok_def)
  note fin = finish_consoles [OF q(1,2), folded q(3)]
  show ?thesis
    using assms
  proof (cases rule: main_step.cases)
    case (step_exit mem e d)
    then show ?thesis using assms(2) by (auto intro!: main_exit_ok simp: running_ok_def)
  next
    case step_fails
    then show ?thesis using fin [of "MainReturns 1"] by (simp del: finish.simps)
  next
    case (step_typed c)
    then show ?thesis using assms(2) by (auto simp: running_ok_def machine_inv_def keyboard_insert_inv)
  next
    case step_ctrl_c
    then show ?thesis using fin [of Interrupted] by (simp del: finish.simps)
  qed
qed

lemma main_reaches_ok:
  assumes "main_reaches h dh p evs st" "hd_inv (h_disk h)" "fresh_process p"
    "\<And>s r m. main_load h = Inr (s, r, m) \<Longrightarrow> n = length m"
  shows "state_ok (evs \<noteq> [] \<and> last evs = CtrlC) n p st"
  using assms(1)
proof (induction rule: main_reaches.induct)
  case main_starts
  show ?case using main_begin_ok [OF assms(2-4)] by simp
next
  case (main_goes_on evs k ev st)
  then show ?case using main_step_ok [of k ev st n p] by simp
qed

section \<open>Properties\<close>


text \<open>A stub whose buffers are still empty, and a debugger that stays away.\<close>

definition idle_debug :: debug_host where
  "idle_debug = \<lparr>dh_opens = False, dh_connects = False,
     dh_info = \<lparr>di_gprs = [], di_selectors = [], di_controls = [], di_pc = 0, di_input = []\<rparr>,
     dh_gdb = \<lparr>g_registers = replicate 192 0, g_extended = replicate 5 0, g_remote_debug = False,
       g_in = replicate 400 0, g_out = replicate 400 0, g_mem = [], g_vcpu = [], g_single_step = False\<rparr>\<rparr>"


end
