(* ===== verification/LongMode.thy ===== *)
theory LongMode
  imports Boot
begin

text \<open>
  The boot code of the guest, \<open>bootloader/boot64.S\<close>: it turns paging and long mode on, loads its own
  descriptor table and jumps to the program whose entry point it finds in \<open>rdi\<close>. Every instruction
  is a function on the state of the processor, with the exceptions the processor raises as values;
  with no interrupt table an exception ends the virtual machine. Accesses to memory go through the
  page tables as soon as paging is on. Instruction fetches and the accessed and dirty bits of the
  page tables are not modelled.
\<close>

section \<open>The processor\<close>

datatype boot_exn = GP | NP | PF | OutsideMemory | NotLongMode

record boot_cpu =
  bc_sregs :: kvm_sregs
  bc_regs :: kvm_regs
  bc_eax :: u32
  bc_ecx :: u32
  bc_edx :: u32
  bc_mem :: guest_mem

type_synonym 'a boot = "boot_exn + 'a"

abbreviation CR0_PG_bit :: nat where "CR0_PG_bit \<equiv> 31"
abbreviation CR4_PAE_bit :: nat where "CR4_PAE_bit \<equiv> 5"
abbreviation EFER_LME_bit :: nat where "EFER_LME_bit \<equiv> 8"
abbreviation EFER_LMA_bit :: nat where "EFER_LMA_bit \<equiv> 10"
abbreviation MSR_EFER :: u32 where "MSR_EFER \<equiv> 0xC0000080"

abbreviation in_long_mode :: "boot_cpu \<Rightarrow> bool" where
  "in_long_mode c \<equiv> bit (sr_efer (bc_sregs c)) EFER_LMA_bit"

definition in_64bit_mode :: "boot_cpu \<Rightarrow> bool" where
  "in_64bit_mode c \<longleftrightarrow> in_long_mode c \<and> seg_l (sr_cs (bc_sregs c)) = 1"

definition CPL :: "boot_cpu \<Rightarrow> u16" where
  "CPL c = seg_selector (sr_cs (bc_sregs c)) AND 3"

text \<open>Linear addresses, and runs of bytes at them.\<close>

definition translate :: "boot_cpu \<Rightarrow> nat \<Rightarrow> nat boot" where
  "translate c a =
     bind_res (if bit (sr_cr0 (bc_sregs c)) CR0_PG_bit
               then case page_walk (bc_mem c) (sr_cr3 (bc_sregs c)) a of None \<Rightarrow> Inl PF | Some p \<Rightarrow> Inr p
               else Inr a)
       (\<lambda>p. if p < length (bc_mem c) then Inr p else Inl OutsideMemory)"

fun read_lin :: "boot_cpu \<Rightarrow> nat \<Rightarrow> nat \<Rightarrow> u8 list boot" where
  "read_lin c a 0 = Inr []"
| "read_lin c a (Suc n) =
     bind_res (translate c a) (\<lambda>p. bind_res (read_lin c (Suc a) n) (\<lambda>bs. Inr (bc_mem c ! p # bs)))"

fun write_lin :: "nat \<Rightarrow> u8 list \<Rightarrow> boot_cpu \<Rightarrow> boot_cpu boot" where
  "write_lin a [] c = Inr c"
| "write_lin a (b # bs) c =
     bind_res (translate c a) (\<lambda>p. write_lin (Suc a) bs (c\<lparr>bc_mem := (bc_mem c)[p := b]\<rparr>))"

section \<open>Instructions\<close>

definition cli :: "boot_cpu \<Rightarrow> boot_cpu" where
  "cli c = c\<lparr>bc_regs := (bc_regs c)\<lparr>rg_rflags := rg_rflags (bc_regs c) AND NOT 0x200\<rparr>\<rparr>"

definition mov_esp :: "u32 \<Rightarrow> boot_cpu \<Rightarrow> boot_cpu" where
  "mov_esp v c = c\<lparr>bc_regs := (bc_regs c)\<lparr>rg_rsp := ucast v\<rparr>\<rparr>"

definition mov_to_cr4 :: "boot_cpu \<Rightarrow> boot_cpu boot" where
  "mov_to_cr4 c =
     (let v = ucast (bc_eax c)
      in if in_long_mode c \<and> \<not> bit v CR4_PAE_bit then Inl GP
         else Inr (c\<lparr>bc_sregs := (bc_sregs c)\<lparr>sr_cr4 := v\<rparr>\<rparr>))"

definition rdmsr :: "boot_cpu \<Rightarrow> boot_cpu boot" where
  "rdmsr c =
     (if bc_ecx c = MSR_EFER
      then Inr (c\<lparr>bc_eax := ucast (sr_efer (bc_sregs c)), bc_edx := ucast (drop_bit 32 (sr_efer (bc_sregs c)))\<rparr>)
      else Inl GP)"

text \<open>The bit that says long mode is active is not written, and the one that enables it only while
  paging is off.\<close>

definition wrmsr :: "boot_cpu \<Rightarrow> boot_cpu boot" where
  "wrmsr c =
     (let old = sr_efer (bc_sregs c);
          v = push_bit 32 (ucast (bc_edx c)) OR ucast (bc_eax c)
      in if bc_ecx c \<noteq> MSR_EFER \<or>
            bit (sr_cr0 (bc_sregs c)) CR0_PG_bit \<and> bit v EFER_LME_bit \<noteq> bit old EFER_LME_bit then Inl GP
         else Inr (c\<lparr>bc_sregs := (bc_sregs c)\<lparr>sr_efer := (v AND NOT 0x400) OR (old AND 0x400)\<rparr>\<rparr>))"

text \<open>Turning paging on while long mode is enabled activates it; this needs the wide page tables and
  a code segment that is not a 64-bit one.\<close>

definition mov_to_cr0 :: "boot_cpu \<Rightarrow> boot_cpu boot" where
  "mov_to_cr0 c =
     (let s = bc_sregs c; v = ucast (bc_eax c);
          on = bit v CR0_PG_bit \<and> \<not> bit (sr_cr0 s) CR0_PG_bit \<and> bit (sr_efer s) EFER_LME_bit
      in if bit v CR0_PG_bit \<and> \<not> bit v 0 \<or> on \<and> (\<not> bit (sr_cr4 s) CR4_PAE_bit \<or> seg_l (sr_cs s) = 1) then Inl GP
         else Inr (c\<lparr>bc_sregs := s\<lparr>sr_cr0 := v, sr_efer := (if on then sr_efer s OR 0x400 else sr_efer s)\<rparr>\<rparr>))"

definition lgdt :: "u32 \<Rightarrow> boot_cpu \<Rightarrow> boot_cpu boot" where
  "lgdt a c =
     bind_res (read_lin c (unat (seg_base (sr_ds (bc_sregs c))) + unat a) 6) (\<lambda>bs.
       Inr (c\<lparr>bc_sregs := (bc_sregs c)\<lparr>sr_gdt_base := of_nat (le_val (drop 2 bs)),
                                       sr_gdt_limit := of_nat (le_val (take 2 bs))\<rparr>\<rparr>))"

text \<open>The segment register a descriptor describes.\<close>

definition decode_segment :: "u16 \<Rightarrow> u64 \<Rightarrow> kvm_segment" where
  "decode_segment sel d =
     (let limit = ucast (d AND 0xffff) OR ucast (push_bit 16 (drop_bit 48 d AND 0xf)) :: u32
      in \<lparr>seg_base = (drop_bit 16 d AND 0xffffff) OR (push_bit 24 (drop_bit 56 d)),
          seg_limit = (if bit d 55 then push_bit 12 limit OR 0xfff else limit), seg_selector = sel,
          seg_type = ucast (drop_bit 40 d AND 0xf), seg_present = of_bool (bit d 47),
          seg_dpl = ucast (drop_bit 45 d AND 3), seg_db = of_bool (bit d 54), seg_s = of_bool (bit d 44),
          seg_l = of_bool (bit d 53), seg_g = of_bool (bit d 55), seg_avl = of_bool (bit d 52)\<rparr>)"

text \<open>A far jump checks the descriptor of the new code segment and marks it as accessed.\<close>

definition ljmp :: "u16 \<Rightarrow> u32 \<Rightarrow> boot_cpu \<Rightarrow> boot_cpu boot" where
  "ljmp sel off c =
     (let s = bc_sregs c; i = 8 * unat (drop_bit 3 sel); a = unat (sr_gdt_base s) + i
      in if i = 0 \<or> unat (sr_gdt_limit s) < i + 7 then Inl GP
         else bind_res (read_lin c a 8) (\<lambda>bs.
           let d = of_nat (le_val bs) :: u64; dpl = ucast (drop_bit 45 d AND 3) :: u16
           in if \<not> bit d 44 \<or> \<not> bit d 43 \<or> in_long_mode c \<and> bit d 53 \<and> bit d 54 \<or>
                 (if bit d 42 then CPL c < dpl else CPL c < sel AND 3 \<or> dpl \<noteq> CPL c) then Inl GP
              else if \<not> bit d 47 then Inl NP
              else bind_res (write_lin (a + 5) [bs ! 5 OR 1] c) (\<lambda>c.
                Inr (c\<lparr>bc_sregs := s\<lparr>sr_cs := decode_segment ((sel AND NOT 3) OR CPL c) (d OR push_bit 40 1)\<rparr>,
                       bc_regs := (bc_regs c)\<lparr>rg_rip := ucast off\<rparr>\<rparr>))))"

definition pushq :: "u64 \<Rightarrow> boot_cpu \<Rightarrow> boot_cpu boot" where
  "pushq v c =
     (let sp = rg_rsp (bc_regs c) - 8
      in bind_res (write_lin (unat sp) (le_bytes 8 (unat v)) c) (\<lambda>c.
           Inr (c\<lparr>bc_regs := (bc_regs c)\<lparr>rg_rsp := sp\<rparr>\<rparr>)))"

text \<open>Bit 1 of the flags is always set; at privilege level 0 the others that this code pops are as read.\<close>

definition popfq :: "boot_cpu \<Rightarrow> boot_cpu boot" where
  "popfq c =
     bind_res (read_lin c (unat (rg_rsp (bc_regs c))) 8) (\<lambda>bs.
       Inr (c\<lparr>bc_regs := (bc_regs c)\<lparr>rg_rflags := of_nat (le_val bs) OR 2, rg_rsp := rg_rsp (bc_regs c) + 8\<rparr>\<rparr>))"

text \<open>The null selector in a data segment register, and in the one of the stack, which only 64-bit
  mode allows.\<close>

definition null_segment :: "kvm_segment \<Rightarrow> kvm_segment" where
  "null_segment seg = seg\<lparr>seg_selector := 0, seg_present := 0\<rparr>"

definition mov_null_data :: "boot_cpu \<Rightarrow> boot_cpu" where
  "mov_null_data c =
     (let s = bc_sregs c
      in c\<lparr>bc_sregs := s\<lparr>sr_ds := null_segment (sr_ds s), sr_es := null_segment (sr_es s),
                         sr_fs := null_segment (sr_fs s), sr_gs := null_segment (sr_gs s)\<rparr>\<rparr>)"

definition mov_null_ss :: "boot_cpu \<Rightarrow> boot_cpu boot" where
  "mov_null_ss c =
     (if in_64bit_mode c \<and> CPL c = 0
      then Inr (c\<lparr>bc_sregs := (bc_sregs c)\<lparr>sr_ss := null_segment (sr_ss (bc_sregs c))\<rparr>\<rparr>)
      else Inl GP)"

definition jmp_rdi :: "boot_cpu \<Rightarrow> boot_cpu" where
  "jmp_rdi c = c\<lparr>bc_regs := (bc_regs c)\<lparr>rg_rip := rg_rdi (bc_regs c)\<rparr>\<rparr>"

section \<open>The boot code\<close>

text \<open>The data section, placed by the linker at the page \<open>gdt64\<close>: two descriptors, the operand of
  \<open>lgdt\<close> behind them, and the stack.\<close>

abbreviation STACK_SIZE :: nat where "STACK_SIZE \<equiv> 0x1000"

definition boot64_gdt :: "u32 \<Rightarrow> u8 list" where
  "boot64_gdt gdt64 = le_bytes 8 0 @ le_bytes 8 0x209c0000000000 @ le_bytes 2 (8 + 8) @ le_bytes 4 (unat gdt64)"

definition boot64_data :: "u32 \<Rightarrow> u8 list" where
  "boot64_data gdt64 = boot64_gdt gdt64 @ replicate STACK_SIZE 0"

definition gdt64_ptr :: "u32 \<Rightarrow> u32" where
  "gdt64_ptr gdt64 = gdt64 + 16"

definition stack :: "u32 \<Rightarrow> u32" where
  "stack gdt64 = gdt64 + 22"

definition long_mode :: "boot_cpu \<Rightarrow> boot_cpu boot" where
  "long_mode c =
     (if \<not> in_64bit_mode c then Inl NotLongMode
      else bind_res (pushq 0 c) (\<lambda>c. bind_res (popfq c) (\<lambda>c.
        bind_res (mov_null_ss (mov_null_data (c\<lparr>bc_eax := bc_eax c AND 0xffff0000\<rparr>))) (\<lambda>c. Inr (jmp_rdi c)))))"

definition boot64 :: "u32 \<Rightarrow> u32 \<Rightarrow> boot_cpu \<Rightarrow> boot_cpu boot" where
  "boot64 gdt64 lm c =
     (let c = mov_esp (stack gdt64 + of_nat STACK_SIZE) (cli c);
          c = c\<lparr>bc_eax := ucast (sr_cr4 (bc_sregs c)) OR 0x20\<rparr>
      in bind_res (mov_to_cr4 c) (\<lambda>c.
         bind_res (rdmsr (c\<lparr>bc_ecx := MSR_EFER\<rparr>)) (\<lambda>c.
         bind_res (wrmsr (c\<lparr>bc_eax := bc_eax c OR 0x100\<rparr>)) (\<lambda>c.
         bind_res (mov_to_cr0 (c\<lparr>bc_eax := ucast (sr_cr0 (bc_sregs c)) OR 0x80000000\<rparr>)) (\<lambda>c.
         bind_res (lgdt (gdt64_ptr gdt64) c) (\<lambda>c.
         bind_res (ljmp 8 lm c) long_mode))))))"

section \<open>Execution\<close>

text \<open>Memory that the tables map to itself, whether paging is on or not.\<close>

definition flat_memory :: "boot_cpu \<Rightarrow> bool" where
  "flat_memory c \<longleftrightarrow> maps_itself (length (bc_mem c)) (bc_mem c) \<and> 0x10000 \<le> length (bc_mem c) \<and>
     sr_cr3 (bc_sregs c) = 0x20000"

lemma translate_flat: "flat_memory c \<Longrightarrow> a < length (bc_mem c) \<Longrightarrow> translate c a = Inr a"
proof -
  assume c: "flat_memory c" "a < length (bc_mem c)"
  then have "page_walk (bc_mem c) 0x20000 a = Some a"
    using maps_itself_walk [of "length (bc_mem c)" "bc_mem c" "bc_mem c" a] by (simp add: flat_memory_def)
  then show "translate c a = Inr a" using c by (simp add: translate_def flat_memory_def)
qed

lemma read_lin_flat:
  "flat_memory c \<Longrightarrow> a + n \<le> length (bc_mem c) \<Longrightarrow> read_lin c a n = Inr (get_bytes a n (bc_mem c))"
proof (induction n arbitrary: a)
  case 0
  then show ?case by (simp add: get_bytes_def)
next
  case (Suc n)
  then show ?case
    by (simp add: translate_flat get_bytes_def Cons_nth_drop_Suc [symmetric])
qed

lemma flat_memory_low:
  assumes "flat_memory c" "length m' = length (bc_mem c)" "drop 0x10000 m' = drop 0x10000 (bc_mem c)"
  shows "flat_memory (c\<lparr>bc_mem := m'\<rparr>)"
  using assms by (simp add: flat_memory_def maps_itself_def)

lemma write_lin_flat:
  "flat_memory c \<Longrightarrow> a + length bs \<le> 0x10000 \<Longrightarrow>
   write_lin a bs c = Inr (c\<lparr>bc_mem := put_bytes a bs (bc_mem c)\<rparr>)"
proof (induction bs arbitrary: a c)
  case Nil
  then show ?case by (simp add: put_bytes_def)
next
  case (Cons b bs)
  have a: "a < length (bc_mem c)" "a < 0x10000" using Cons.prems by (simp_all add: flat_memory_def)
  let ?c = "c\<lparr>bc_mem := (bc_mem c)[a := b]\<rparr>"
  have "flat_memory ?c" using flat_memory_low [OF Cons.prems(1)] a(2) by simp
  then have "write_lin (Suc a) bs ?c = Inr (?c\<lparr>bc_mem := put_bytes (Suc a) bs (bc_mem ?c)\<rparr>)"
    using Cons.IH [of ?c "Suc a"] Cons.prems(2) by simp
  then show ?case using translate_flat [OF Cons.prems(1) a(1)] put_bytes_Cons [OF a(1)] by simp
qed

lemma put_bytes_low:
  assumes "a + length bs \<le> 0x10000" "0x10000 \<le> length m"
  shows "length (put_bytes a bs m) = length m" "drop 0x10000 (put_bytes a bs m) = drop 0x10000 m"
  using assms by (simp_all add: put_bytes_def)

text \<open>The switch itself, up to the load of the descriptor table.\<close>

definition switched :: "u32 \<Rightarrow> boot_cpu \<Rightarrow> boot_cpu" where
  "switched gdt64 c = c\<lparr>
     bc_regs := (bc_regs c)\<lparr>rg_rflags := rg_rflags (bc_regs c) AND NOT 0x200, rg_rsp := ucast (0x1016 + gdt64)\<rparr>,
     bc_ecx := MSR_EFER, bc_edx := 0, bc_eax := 0x80000011,
     bc_sregs := (bc_sregs c)\<lparr>sr_cr4 := 0x20, sr_cr0 := 0x80000011, sr_efer := 0x500,
       sr_gdt_base := ucast gdt64, sr_gdt_limit := 16\<rparr>\<rparr>"

lemma gdt_operand:
  assumes "get_bytes a 22 m = boot64_gdt gdt64"
  shows "le_val (take 2 (get_bytes (a + 16) 6 m)) = 16" "le_val (drop 2 (get_bytes (a + 16) 6 m)) = unat gdt64"
    "of_nat (le_val (get_bytes (a + 8) 8 m)) = (0x209c0000000000 :: u64)" "get_bytes (a + 8) 8 m ! 5 = 0x9c"
proof -
  have "get_bytes (a + 16) 6 m = drop 16 (get_bytes a 22 m)" by (simp add: get_bytes_def drop_take add.commute)
  then have p: "get_bytes (a + 16) 6 m = le_bytes 2 16 @ le_bytes 4 (unat gdt64)"
    using assms by (simp add: boot64_gdt_def del: le_bytes.simps)
  have "unat gdt64 < 256 ^ 4" using unsigned_less [where w = gdt64 and 'a = nat] by simp
  then show "le_val (drop 2 (get_bytes (a + 16) 6 m)) = unat gdt64"
    using le_val_le_bytes [of 4 "unat gdt64"] by (simp add: p del: le_bytes.simps)
  show "le_val (take 2 (get_bytes (a + 16) 6 m)) = 16"
    using le_val_le_bytes [of 2 16] by (simp add: p del: le_bytes.simps)
  have "get_bytes (a + 8) 8 m = take 8 (drop 8 (get_bytes a 22 m))" by (simp add: get_bytes_def drop_take add.commute)
  then have d: "get_bytes (a + 8) 8 m = le_bytes 8 0x209c0000000000"
    using assms by (simp add: boot64_gdt_def del: le_bytes.simps)
  show "of_nat (le_val (get_bytes (a + 8) 8 m)) = (0x209c0000000000 :: u64)"
    using le_val_le_bytes [of 8 "0x209c0000000000"] by (simp add: d del: le_bytes.simps)
  show "get_bytes (a + 8) 8 m ! 5 = 0x9c" by (simp add: d nth_le_bytes del: le_bytes.simps)
qed

lemma flat_memory_cong:
  "flat_memory c \<Longrightarrow> bc_mem c' = bc_mem c \<Longrightarrow> sr_cr3 (bc_sregs c') = sr_cr3 (bc_sregs c) \<Longrightarrow> flat_memory c'"
  by (simp add: flat_memory_def)

lemma lgdt_flat:
  assumes "flat_memory c" "seg_base (sr_ds (bc_sregs c)) = 0" "unat gdt64 + 0x1016 \<le> 0x10000"
    "get_bytes (unat gdt64) 22 (bc_mem c) = boot64_gdt gdt64"
  shows "lgdt (gdt64_ptr gdt64) c =
    Inr (c\<lparr>bc_sregs := (bc_sregs c)\<lparr>sr_gdt_base := ucast gdt64, sr_gdt_limit := 16\<rparr>\<rparr>)"
proof -
  have ptr: "unat (gdt64_ptr gdt64) = unat gdt64 + 16"
    using assms(3) unat_add_lem [of gdt64 16] by (simp add: gdt64_ptr_def)
  have "unat gdt64 + 16 + 6 \<le> length (bc_mem c)" using assms(1,3) by (simp add: flat_memory_def)
  then show ?thesis
    using read_lin_flat [OF assms(1)] assms(2) gdt_operand [OF assms(4)]
    by (simp add: lgdt_def ptr of_nat_unat del: read_lin.simps)
qed

lemma boot64_switch:
  assumes "sr_cr0 (bc_sregs c) = 0x11" "sr_cr4 (bc_sregs c) = 0" "sr_efer (bc_sregs c) = 0"
    "sr_cs (bc_sregs c) = code_segment" "sr_ds (bc_sregs c) = data_segment" "flat_memory c"
    "unat gdt64 + 0x1016 \<le> 0x10000" "get_bytes (unat gdt64) 22 (bc_mem c) = boot64_gdt gdt64"
  shows "boot64 gdt64 lm c = bind_res (ljmp 8 lm (switched gdt64 c)) long_mode"
proof -
  let ?r = "(bc_regs c)\<lparr>rg_rflags := rg_rflags (bc_regs c) AND NOT 0x200, rg_rsp := ucast (0x1016 + gdt64)\<rparr>"
  let ?c = "c\<lparr>bc_regs := ?r, bc_ecx := MSR_EFER, bc_edx := 0, bc_eax := 0x80000011,
    bc_sregs := (bc_sregs c)\<lparr>sr_cr4 := 0x20, sr_cr0 := 0x80000011, sr_efer := 0x500\<rparr>\<rparr>"
  have "lgdt (gdt64_ptr gdt64) ?c = Inr (switched gdt64 c)"
    using lgdt_flat [of ?c gdt64] flat_memory_cong [OF assms(6), of ?c] assms(5,7,8)
    by (simp add: data_segment_def code_segment_def flat_segment_def switched_def)
  moreover have "seg_l code_segment = 0" by (simp add: code_segment_def flat_segment_def)
  ultimately show ?thesis
    using assms(1-4)
    by (simp add: boot64_def Let_def cli_def mov_esp_def mov_to_cr4_def rdmsr_def wrmsr_def mov_to_cr0_def stack_def)
qed

text \<open>The far jump loads a 64-bit code segment.\<close>

definition code64_segment :: kvm_segment where
  "code64_segment = decode_segment 8 0x209d0000000000"

lemma code64_fields: "seg_l code64_segment = 1" "seg_selector code64_segment = 8" "seg_present code64_segment = 1"
  by (simp_all add: code64_segment_def decode_segment_def Let_def bit_numeral_rec)

lemma ljmp_flat:
  assumes "flat_memory c" "sr_gdt_base (bc_sregs c) = ucast gdt64" "sr_gdt_limit (bc_sregs c) = 16"
    "sr_cs (bc_sregs c) = code_segment" "unat gdt64 + 0x1016 \<le> 0x10000"
    "get_bytes (unat gdt64) 22 (bc_mem c) = boot64_gdt gdt64"
  shows "ljmp 8 lm c = Inr (c\<lparr>bc_mem := put_bytes (unat gdt64 + 13) [0x9d] (bc_mem c),
    bc_sregs := (bc_sregs c)\<lparr>sr_cs := code64_segment\<rparr>, bc_regs := (bc_regs c)\<lparr>rg_rip := ucast lm\<rparr>\<rparr>)"
proof -
  have base: "unat (ucast gdt64 :: u64) = unat gdt64"
    using unsigned_less [where w = gdt64 and 'a = nat] by (simp add: unsigned_ucast_eq take_bit_nat_eq_self)
  have cpl: "CPL c = 0" using assms(4) by (simp add: CPL_def code_segment_def)
  have rd: "read_lin c (unat gdt64 + 8) 8 = Inr (get_bytes (unat gdt64 + 8) 8 (bc_mem c))"
    using read_lin_flat [OF assms(1)] assms(1,5) by (simp add: flat_memory_def del: read_lin.simps)
  have wr: "write_lin (13 + unat gdt64) [0x9d] c = Inr (c\<lparr>bc_mem := put_bytes (unat gdt64 + 13) [0x9d] (bc_mem c)\<rparr>)"
    using write_lin_flat [OF assms(1), of "unat gdt64 + 13" "[0x9d]"] assms(5) by (simp add: add.commute del: write_lin.simps)
  show ?thesis
    using gdt_operand(3,4) [OF assms(6)] rd wr cpl assms(2,3)
    by (simp add: ljmp_def Let_def base bit_numeral_rec CPL_def code64_segment_def assms(4)
        del: read_lin.simps write_lin.simps)
qed

lemma long_mode_flat:
  assumes "flat_memory c" "in_64bit_mode c" "CPL c = 0" "8 \<le> unat (rg_rsp (bc_regs c))" "unat (rg_rsp (bc_regs c)) \<le> 0x10000"
  shows "\<exists>c'. long_mode c = Inr c' \<and> flat_memory c' \<and> in_64bit_mode c' \<and> CPL c' = 0 \<and>
    sr_cr0 (bc_sregs c') = sr_cr0 (bc_sregs c) \<and> seg_selector (sr_ss (bc_sregs c')) = 0 \<and>
    bc_regs c' = (bc_regs c)\<lparr>rg_rflags := 2, rg_rip := rg_rdi (bc_regs c)\<rparr> \<and>
    bc_mem c' = put_bytes (unat (rg_rsp (bc_regs c)) - 8) (replicate 8 0) (bc_mem c)"
proof -
  let ?sp = "rg_rsp (bc_regs c)" and ?m = "put_bytes (unat (rg_rsp (bc_regs c)) - 8) (replicate 8 0) (bc_mem c)"
  have sp: "unat (?sp - 8) = unat ?sp - 8" using assms(4) by (simp add: unat_sub word_le_nat_alt)
  have zeros: "le_bytes 8 0 = replicate 8 (0 :: u8)" "le_val (replicate 8 (0 :: u8)) = 0" by code_simp+
  have push: "pushq 0 c = Inr (c\<lparr>bc_mem := ?m, bc_regs := (bc_regs c)\<lparr>rg_rsp := ?sp - 8\<rparr>\<rparr>)"
    using write_lin_flat [OF assms(1), of "unat ?sp - 8" "replicate 8 0"] assms(4,5)
    by (simp add: pushq_def Let_def sp zeros(1) del: write_lin.simps le_bytes.simps)
  let ?c = "c\<lparr>bc_mem := ?m, bc_regs := (bc_regs c)\<lparr>rg_rsp := ?sp - 8\<rparr>\<rparr>"
  have len: "0x10000 \<le> length (bc_mem c)" using assms(1) by (simp add: flat_memory_def)
  have low: "length ?m = length (bc_mem c)" "drop 0x10000 ?m = drop 0x10000 (bc_mem c)"
    using put_bytes_low [of "unat ?sp - 8" "replicate 8 0" "bc_mem c"] assms(4,5) len by simp_all
  have flat: "flat_memory (c\<lparr>bc_mem := ?m\<rparr>)" using flat_memory_low [OF assms(1) low] .
  then have flat1: "flat_memory ?c" by (rule flat_memory_cong) simp_all
  have "read_lin ?c (unat ?sp - 8) 8 = Inr (replicate 8 0)"
    using read_lin_flat [OF flat1, of "unat ?sp - 8" 8] get_put_same [of "unat ?sp - 8" "replicate 8 0" "bc_mem c"]
      assms(4,5) len low(1) by (simp del: read_lin.simps)
  then have pop: "popfq ?c = Inr (?c\<lparr>bc_regs := (bc_regs c)\<lparr>rg_rsp := ?sp, rg_rflags := 2\<rparr>\<rparr>)"
    by (simp add: popfq_def sp zeros(2) del: read_lin.simps)
  show ?thesis
    using assms(2,3) push pop flat
    by (simp add: long_mode_def mov_null_ss_def mov_null_data_def jmp_rdi_def in_64bit_mode_def CPL_def
        null_segment_def flat_memory_def Let_def)
qed

definition jumped :: "u32 \<Rightarrow> u32 \<Rightarrow> boot_cpu \<Rightarrow> boot_cpu" where
  "jumped gdt64 lm c = (switched gdt64 c)\<lparr>bc_mem := put_bytes (unat gdt64 + 13) [0x9d] (bc_mem c),
    bc_sregs := (bc_sregs (switched gdt64 c))\<lparr>sr_cs := code64_segment\<rparr>,
    bc_regs := (bc_regs (switched gdt64 c))\<lparr>rg_rip := ucast lm\<rparr>\<rparr>"

lemma boot64_jump:
  assumes "sr_cr0 (bc_sregs c) = 0x11" "sr_cr4 (bc_sregs c) = 0" "sr_efer (bc_sregs c) = 0"
    "sr_cs (bc_sregs c) = code_segment" "sr_ds (bc_sregs c) = data_segment" "flat_memory c"
    "unat gdt64 + 0x1016 \<le> 0x10000" "get_bytes (unat gdt64) 22 (bc_mem c) = boot64_gdt gdt64"
  shows "boot64 gdt64 lm c = long_mode (jumped gdt64 lm c)" "flat_memory (jumped gdt64 lm c)"
    "length (bc_mem (jumped gdt64 lm c)) = length (bc_mem c)"
    "drop 0x10000 (bc_mem (jumped gdt64 lm c)) = drop 0x10000 (bc_mem c)"
proof -
  have flat: "flat_memory (switched gdt64 c)" by (rule flat_memory_cong [OF assms(6)]) (simp_all add: switched_def)
  have "ljmp 8 lm (switched gdt64 c) = Inr (jumped gdt64 lm c)"
    using ljmp_flat [OF flat, of gdt64 lm] assms(4,7,8) by (simp add: switched_def jumped_def)
  then show "boot64 gdt64 lm c = long_mode (jumped gdt64 lm c)" using boot64_switch [OF assms] by simp
  have len: "0x10000 \<le> length (bc_mem c)" using assms(6) by (simp add: flat_memory_def)
  have mem: "bc_mem (jumped gdt64 lm c) = put_bytes (unat gdt64 + 13) [0x9d] (bc_mem c)" by (simp add: jumped_def)
  have "unat gdt64 + 13 + length [0x9d :: u8] \<le> 0x10000" using assms(7) by simp
  note low = put_bytes_low [OF this len]
  show "length (bc_mem (jumped gdt64 lm c)) = length (bc_mem c)" unfolding mem by (rule low(1))
  show "drop 0x10000 (bc_mem (jumped gdt64 lm c)) = drop 0x10000 (bc_mem c)" unfolding mem by (rule low(2))
  show "flat_memory (jumped gdt64 lm c)"
    by (rule flat_memory_cong [OF flat_memory_low [OF assms(6) low]]) (simp_all add: jumped_def switched_def)
qed

lemma jumped_fields:
  assumes "unat gdt64 + 0x1016 \<le> 0x10000"
  shows "in_64bit_mode (jumped gdt64 lm c)" "CPL (jumped gdt64 lm c) = 0"
    "unat (rg_rsp (bc_regs (jumped gdt64 lm c))) = unat gdt64 + 0x1016"
    "rg_rsp (bc_regs (jumped gdt64 lm c)) = ucast gdt64 + 0x1016"
    "rg_rdi (bc_regs (jumped gdt64 lm c)) = rg_rdi (bc_regs c)" "bit (sr_cr0 (bc_sregs (jumped gdt64 lm c))) CR0_PG_bit"
proof -
  have n: "unat (0x1016 + gdt64) = unat gdt64 + 0x1016" using unat_add_lem [of "0x1016" gdt64] assms by simp
  have up: "unat (ucast w :: u64) = unat w" for w :: u32
    using unsigned_less [where w = w and 'a = nat] by (simp add: unsigned_ucast_eq take_bit_nat_eq_self)
  show sp: "unat (rg_rsp (bc_regs (jumped gdt64 lm c))) = unat gdt64 + 0x1016"
    using n by (simp add: jumped_def switched_def up)
  have "unat (ucast gdt64 + 0x1016 :: u64) = unat gdt64 + 0x1016"
    using unat_add_lem [of "ucast gdt64 :: u64" "0x1016"] assms by (simp add: up)
  then show "rg_rsp (bc_regs (jumped gdt64 lm c)) = ucast gdt64 + 0x1016"
    using sp by (simp add: word_unat_eq_iff)
  show "in_64bit_mode (jumped gdt64 lm c)" "CPL (jumped gdt64 lm c) = 0"
    "bit (sr_cr0 (bc_sregs (jumped gdt64 lm c))) CR0_PG_bit" "rg_rdi (bc_regs (jumped gdt64 lm c)) = rg_rdi (bc_regs c)"
    by (simp_all add: in_64bit_mode_def CPL_def jumped_def switched_def code64_fields bit_numeral_rec)
qed

section \<open>Properties\<close>

text \<open>The data section is in memory once the segment that holds it is.\<close>

lemma boot64_loaded:
  assumes "get_bytes va dim m = img" "va + dim \<le> length m" "va \<le> g"
    "get_bytes (g - va) 0x1016 img = boot64_data gdt64"
  shows "g + 0x1016 \<le> va + dim" "get_bytes g 22 m = boot64_gdt gdt64"
proof -
  have gdt: "length (boot64_gdt gdt64) = 22" by (simp add: boot64_gdt_def)
  then have "length (get_bytes (g - va) 0x1016 img) = 0x1016" by (simp add: assms(4) boot64_data_def)
  then have "g - va + 0x1016 \<le> length img" by (simp add: get_bytes_def)
  moreover have "length img = dim" using assms(1,2) length_get_bytes by metis
  ultimately have le: "g - va + 0x1016 \<le> dim" by simp
  then show "g + 0x1016 \<le> va + dim" using assms(3) by simp
  have "get_bytes g 22 m = get_bytes (g - va) 22 img" using le assms(1,3) get_bytes_get_bytes [of "g - va" 22 dim va m] by simp
  also have "\<dots> = take 22 (get_bytes (g - va) 0x1016 img)" by (simp add: get_bytes_def)
  also have "\<dots> = boot64_gdt gdt64" using gdt by (simp add: assms(4) boot64_data_def)
  finally show "get_bytes g 22 m = boot64_gdt gdt64" .
qed

text \<open>
  (C6) The boot code: started on a guest that \<open>main\<close> has made ready, with the control registers a new
  virtual processor has, and with the data section of \<open>boot64.S\<close> in a segment of the boot file that
  was loaded, the code raises no exception and reaches the program. Its first instruction runs
  in 64-bit mode at privilege level 0 with paging on, interrupts off and the stack at the end of
  the data section; the page tables still map all of the memory to itself, and the segments of the program
  are in place.
\<close>

theorem boot_code_enters_long_mode:
  assumes "guest_ready sz prog ep boot eb s r m" "0x10000 \<le> unat sz" "sr_cr4 s = 0" "sr_efer s = 0"
    and "segmenti eb = ss1 @ d # ss2" "fine d \<le> 0x10000"
      "\<forall>s' \<in> set ss2. 0x10000 < fine s' \<or> separati (unat (ind_virtuale d)) (unat (dimensione d)) s'"
    and "unat (ind_virtuale d) \<le> unat gdt64"
      "get_bytes (unat gdt64 - unat (ind_virtuale d)) 0x1016 (immagine boot d) = boot64_data gdt64"
  shows "\<exists>c'. boot64 gdt64 lm \<lparr>bc_sregs = s, bc_regs = r, bc_eax = 0, bc_ecx = 0, bc_edx = 0, bc_mem = m\<rparr> = Inr c' \<and>
    in_64bit_mode c' \<and> bit (sr_cr0 (bc_sregs c')) CR0_PG_bit \<and> CPL c' = 0 \<and>
    rg_rip (bc_regs c') = entry_point ep \<and> rg_rflags (bc_regs c') = 2 \<and> rg_rsp (bc_regs c') = ucast gdt64 + 0x1016 \<and>
    (\<forall>va<unat sz. page_walk (bc_mem c') (sr_cr3 (bc_sregs c')) va = Some va) \<and> program_in_place sz prog ep (bc_mem c')"
proof -
  let ?c = "\<lparr>bc_sregs = s, bc_regs = r, bc_eax = 0, bc_ecx = 0, bc_edx = 0, bc_mem = m\<rparr>"
  let ?j = "jumped gdt64 lm ?c"
  have g: "length m = unat sz" "rg_rdi r = entry_point ep" "sr_cr3 s = 0x20000" "sr_cr0 s = 0x11"
    "sr_cs s = code_segment" "sr_ds s = data_segment" "maps_itself (unat sz) m" "program_in_place sz prog ep m"
    using assms(1) by (simp_all add: guest_ready_def)
  note data = boot64_loaded [OF guest_ready_boot [OF assms(1,5-7)] _ assms(8,9)]
  have gdt: "unat gdt64 + 0x1016 \<le> 0x10000" "get_bytes (unat gdt64) 22 m = boot64_gdt gdt64"
    using data assms(2,6) g(1) by (simp_all add: fine_def)
  have "flat_memory ?c" using g assms(2) by (simp add: flat_memory_def)
  note jump = boot64_jump [OF _ _ _ _ _ this gdt(1), of lm]
  have j: "boot64 gdt64 lm ?c = long_mode ?j" "flat_memory ?j" "length (bc_mem ?j) = length m"
    "drop 0x10000 (bc_mem ?j) = drop 0x10000 m"
    using jump g(4-6) gdt(2) assms(3,4) by simp_all
  note f = jumped_fields [OF gdt(1), of lm ?c]
  obtain c' where c': "long_mode ?j = Inr c'" "flat_memory c'" "in_64bit_mode c'" "CPL c' = 0"
    "sr_cr0 (bc_sregs c') = sr_cr0 (bc_sregs ?j)" "bc_regs c' = (bc_regs ?j)\<lparr>rg_rflags := 2, rg_rip := rg_rdi (bc_regs ?j)\<rparr>"
    "bc_mem c' = put_bytes (0x100E + unat gdt64) (replicate 8 0) (bc_mem ?j)"
    using long_mode_flat [OF j(2) f(1,2)] f(3) gdt(1) by auto
  have mem: "length (bc_mem c') = length m" "drop 0x10000 (bc_mem c') = drop 0x10000 m"
    using put_bytes_low [of "0x100E + unat gdt64" "replicate 8 0" "bc_mem ?j"] j(3,4) gdt(1) assms(2) g(1)
    by (simp_all add: c'(7))
  have "page_walk (bc_mem c') (sr_cr3 (bc_sregs c')) va = Some va" if "va < unat sz" for va
    using c'(2) maps_itself_walk [of "unat sz" "bc_mem c'" "bc_mem c'"] that mem(1) g(1) by (simp add: flat_memory_def)
  then show ?thesis
    using j(1) c'(1,3-6) f(4-6) g(2) program_in_place_above [OF g(8) mem(2)] by simp
qed

lemma run_long_mode_keeps:
  assumes "run_long_mode bl sregs bf li m = Inr (s, r, li', m')"
  shows "sr_cr4 s = sr_cr4 sregs" "sr_efer s = sr_efer sregs"
proof -
  have lift: "lift_res x = Inr y \<longleftrightarrow> x = Inr y" for x :: "'a res" and y by (cases x) simp_all
  obtain s1 m1 m2 where p: "setup_protected_mode sregs m = Inr (s1, m1)" "setup_page_tables bl s1 m1 = Inr (s, m2)"
    using assms by (auto simp: run_long_mode_def bind_res_eq_Inr lift)
  have "sr_cr4 s1 = sr_cr4 sregs \<and> sr_efer s1 = sr_efer sregs"
    using p(1) by (auto simp: setup_protected_mode_def bind_res_eq_Inr Let_def)
  moreover have "s = s1\<lparr>sr_cr3 := 0x20000\<rparr>"
    using p(2) by (auto simp: setup_page_tables_def bind_res_eq_Inr Let_def)
  ultimately show "sr_cr4 s = sr_cr4 sregs" "sr_efer s = sr_efer sregs" by simp_all
qed

text \<open>A boot file with the data section at page 3; the zeros of the stack are not in the file.\<close>

definition example_boot :: exe_file where
  "example_boot =
     [0x7f, 0x45, 0x4c, 0x46, 2, 1, 1] @ replicate 9 0 @ le_bytes 2 2 @ le_bytes 2 62 @ le_bytes 4 1 @
     le_bytes 8 3 @ le_bytes 8 64 @ le_bytes 8 0 @ le_bytes 4 0 @
     le_bytes 2 64 @ le_bytes 2 56 @ le_bytes 2 1 @ le_bytes 2 64 @ le_bytes 2 0 @ le_bytes 2 0 @
     le_bytes 4 1 @ le_bytes 4 5 @ le_bytes 8 120 @ [0, 0x30] @ replicate 6 0 @ [0, 0x30] @ replicate 6 0 @
     le_bytes 8 22 @ [0x16, 0x10] @ replicate 6 0 @ le_bytes 8 1 @
     replicate 13 0 @ [0x9c, 0x20, 0, 16, 0, 0, 0x30, 0, 0]"

definition boot_seg :: SegmentoElf64 where
  "boot_seg = \<lparr>s64_ph = \<lparr>p64_type = 1, p64_flags = 5, p64_offset = 120, p64_vaddr = 0x3000, p64_paddr = 0x3000,
     p64_filesz = 22, p64_memsz = 0x1016, p64_align = 1\<rparr>, s64_curr_offset = 0, s64_curr = 142,
     s64_da_leggere = 142, s64_ancora = 0x1016\<rparr>"

definition boot_exe :: EseguibileElf64 where
  "boot_exe = \<lparr>x64_file = example_boot, x64_h = Elf64_Ehdr_at example_boot,
     x64_seg_buf = get_bytes 64 56 example_boot, x64_sec_buf = [], x64_curr_seg = 0\<rparr>"

lemma boot_init: "interpreta int_elf64 example_boot = Inr (Some (Exe64 boot_exe))"
proof -
  have "EseguibileElf64_init example_boot = Inr (Some boot_exe)" by code_simp
  then show ?thesis by (simp add: InterpreteElf64_interpreta_def)
qed

lemma boot_segments: "elf64_segments boot_exe = [boot_seg]"
  by code_simp

lemma boot_header: "e64_phentsize (x64_h boot_exe) = 56" "length example_boot = 142"
  by code_simp+

lemma boot_seg_fields: "SegmentoElf64_ind_virtuale boot_seg = 0x3000" "SegmentoElf64_dimensione boot_seg = 0x1016"
    "fine (Seg64 boot_seg) = 0x4016"
  by (simp_all add: fine_def SegmentoElf64_ind_virtuale_def SegmentoElf64_dimensione_def boot_seg_def)

lemma boot_ben_formato: "ben_formato example_boot (Exe64 boot_exe)"
proof -
  have "elf64_seg_ok example_boot boot_seg"
    by (simp add: elf64_seg_ok_def boot_header fseek_ok_def) (simp add: boot_seg_def)
  then show ?thesis by (simp add: ben_formato_def boot_header boot_segments boot_seg_fields)
qed

lemma boot_image: "immagine example_boot (Seg64 boot_seg) = boot64_data 0x3000"
proof -
  have "get_bytes 120 22 example_boot = [0, 0, 0, 0, 0, 0, 0, 0, 0, 0, 0, 0, 0, 0x9c, 0x20, 0, 16, 0, 0, 0x30, 0, 0]" by code_simp
  moreover have "boot64_gdt 0x3000 = [0, 0, 0, 0, 0, 0, 0, 0, 0, 0, 0, 0, 0, 0x9c, 0x20, 0, 16, 0, 0, 0x30, 0, 0]"
    by (simp add: boot64_gdt_def le_bytes_numeral)
  ultimately show ?thesis
    by (simp add: elf64_image_def seg_image_def boot_seg_def boot64_data_def)
qed

theorem boot_code_enters_long_mode_witness:
  "\<exists>s r m c'. boot64 0x3000 0x2040 \<lparr>bc_sregs = s, bc_regs = r, bc_eax = 0, bc_ecx = 0, bc_edx = 0, bc_mem = m\<rparr> = Inr c' \<and>
     in_64bit_mode c' \<and> rg_rip (bc_regs c') = 3 \<and> rg_rsp (bc_regs c') = 0x4016"
proof -
  obtain m :: guest_mem where m: "length m = unat (0x800000 :: u32)" using Ex_list_of_length by blast
  have reg: "int_elf64 \<in> set (li_testa registrati)" by (simp add: registrati_def aggiungi_def)
  obtain s r li1 m1 li2 m2 where run: "run_long_mode (Bootloader_new (ucast (0x800000 :: u32)) (entry_point (Exe64 example_exe)) 0x400000)
      zero_sregs (Some example_boot) li1 m1 = Inr (s, r, li2, m2)"
    and g: "guest_ready 0x800000 example_elf (Exe64 example_exe) example_boot (Exe64 boot_exe) s r m2"
    using guest_becomes_ready [OF m _ _ _ reg example_init example_ben_formato reg boot_init boot_ben_formato, of zero_sregs] by auto
  have regs: "sr_cr4 s = 0" "sr_efer s = 0" using run_long_mode_keeps [OF run] by (simp_all add: zero_sregs_def)
  have seg: "segmenti (Exe64 boot_exe) = [] @ Seg64 boot_seg # []" by (simp add: boot_segments)
  have "length (boot64_data 0x3000) = 0x1016" by (simp add: boot64_data_def boot64_gdt_def)
  then have data: "get_bytes (unat (0x3000 :: u32) - unat (ind_virtuale (Seg64 boot_seg))) 0x1016 (immagine example_boot (Seg64 boot_seg)) =
      boot64_data 0x3000"
    using boot_image by (simp add: boot_seg_fields get_bytes_def)
  show ?thesis
    using boot_code_enters_long_mode [OF g _ regs seg _ _ _ data, of "0x2040"]
    by (fastforce simp: boot_seg_fields EseguibileElf64_entry_point_def example_header)
qed

end
