(* ===== verification/GdbChannel.thy ===== *)
theory GdbChannel
  imports DebugExit
begin

text \<open>
  The characters of the debugging stub, \<open>getDebugChar\<close> and \<open>putDebugChar\<close> of
  \<open>gdbserver/gdbserver.cpp\<close>, and what the stub does when the connection ends or fails. A call of
  \<open>read\<close> delivers a byte, reports the end of the stream or fails; at the end of the stream the
  function returns its local variable as it is, so the value found there is part of the result.
\<close>

section \<open>Operations\<close>

datatype char_result = ReadByte u8 | ReadEnd u8 | ReadError

fun getDebugChar :: "char_result \<Rightarrow> int + u8" where
  "getDebugChar (ReadByte b) = Inr b"
| "getDebugChar (ReadEnd value) = Inr value"
| "getDebugChar ReadError = Inl 1"

definition putDebugChar :: "bool \<Rightarrow> u8 \<Rightarrow> u8 list \<Rightarrow> int + u8 list" where
  "putDebugChar ok c sent = (if ok then Inr (sent @ [c]) else Inl 1)"

text \<open>The characters the stub gets before a call fails, and whether one does.\<close>

fun chars_read :: "char_result list \<Rightarrow> u8 list \<times> bool" where
  "chars_read [] = ([], False)"
| "chars_read (r # rs) =
     (case getDebugChar r of
        Inl _ \<Rightarrow> ([], True)
      | Inr c \<Rightarrow> (case chars_read rs of (cs, failed) \<Rightarrow> (c # cs, failed)))"

text \<open>
  A session over the results of \<open>read\<close>: the stub that needs another character exits if the next
  call fails, and waits if there is no next call yet.
\<close>

definition stub_session ::
  "nat \<Rightarrow> gdb \<Rightarrow> char_result list \<Rightarrow> (int + (cmd_next \<times> gdb \<times> u8 list \<times> u8 list) option) res" where
  "stub_session sigval g rs =
     (let (cs, failed) = chars_read rs
      in bind_res (gdb_loop sigval g cs) (\<lambda>r.
           Inr (case r of Some x \<Rightarrow> Inr (Some x) | None \<Rightarrow> if failed then Inl 1 else Inr None)))"

section \<open>Properties\<close>

lemma chars_read_bytes: "chars_read (map ReadByte bs @ rs) = (case chars_read rs of (cs, failed) \<Rightarrow> (bs @ cs, failed))"
  by (induction bs) (simp_all split: prod.splits)

lemma chars_read_end: "chars_read (map ReadEnd vs) = (vs, False)"
  by (induction vs) simp_all

lemma wait_start_none: "CH_START \<notin> set cs \<Longrightarrow> wait_start cs = None"
  by (induction cs) auto



end
