(* ===== verification/Messages.thy ===== *)
theory Messages
  imports GuestMemory
begin

text \<open>
  The messages of the debug server and their transport: \<open>debug-server/messages.h\<close>,
  \<open>debug-server/messages.c\<close>, \<open>debug-server/net_wrapper.h\<close> and \<open>debug-server/net_wrapper.cpp\<close>. The
  packed structures are their bytes: the type (4 bytes), the time stamp (8), then the members of
  the particular message (8 each). The host is little-endian.
\<close>

section \<open>Byte order\<close>

definition htonl :: "u32 \<Rightarrow> u32" where
  "htonl x = of_nat (le_val (rev (le_bytes 4 (unat x))))"

definition ntohl :: "u32 \<Rightarrow> u32" where
  "ntohl x = of_nat (le_val (rev (le_bytes 4 (unat x))))"

definition HTONLL :: "u64 \<Rightarrow> u64" where
  "HTONLL x = push_bit 32 (ucast (htonl (ucast (x AND 0xFFFFFFFF)))) OR ucast (htonl (ucast (drop_bit 32 x)))"

definition NTOHLL :: "u64 \<Rightarrow> u64" where
  "NTOHLL x = push_bit 32 (ucast (ntohl (ucast (x AND 0xFFFFFFFF)))) OR ucast (ntohl (ucast (drop_bit 32 x)))"

section \<open>Members of a message\<close>

datatype message_type = WELCOME_MESS | GENERIC_ERR | REQ_INFO | SEND_INFO | REQ_DUMP_MEM | SERVER_QUIT

primrec mt_code :: "message_type \<Rightarrow> u32" where
  "mt_code WELCOME_MESS = 0"
| "mt_code GENERIC_ERR = 1"
| "mt_code REQ_INFO = 2"
| "mt_code SEND_INFO = 3"
| "mt_code REQ_DUMP_MEM = 4"
| "mt_code SERVER_QUIT = 5"

definition get32 :: "nat \<Rightarrow> u8 list \<Rightarrow> u32" where
  "get32 a b = of_nat (le_val (get_bytes a 4 b))"

definition put32 :: "nat \<Rightarrow> u32 \<Rightarrow> u8 list \<Rightarrow> u8 list res" where
  "put32 a v b = (if a + 4 \<le> length b then Inr (put_bytes a (le_bytes 4 (unat v)) b) else Inl OutOfBounds)"

text \<open>Rewriting a member in place; \<open>htonl\<close> of the 64-bit time stamp keeps its lower half only.\<close>

definition conv_type :: "(u32 \<Rightarrow> u32) \<Rightarrow> u8 list \<Rightarrow> u8 list res" where
  "conv_type f b = put32 0 (f (get32 0 b)) b"

definition conv_time :: "(u32 \<Rightarrow> u32) \<Rightarrow> u8 list \<Rightarrow> u8 list res" where
  "conv_time f b = put64 4 (ucast (f (ucast (get64 4 b)))) b"

definition conv_long :: "(u64 \<Rightarrow> u64) \<Rightarrow> nat \<Rightarrow> u8 list \<Rightarrow> u8 list res" where
  "conv_long f a b = put64 a (f (get64 a b)) b"

section \<open>Conversions\<close>

definition convert_to_network_order :: "u8 list \<Rightarrow> u8 list res" where
  "convert_to_network_order msg =
     (let t = get32 0 msg
      in if length msg < 4 then Inl OutOfBounds
         else if t = mt_code WELCOME_MESS \<or> t = mt_code GENERIC_ERR \<or> t = mt_code SERVER_QUIT \<or> t = mt_code REQ_INFO then
           bind_res (conv_type htonl msg) (conv_time htonl)
         else if t = mt_code SEND_INFO then
           bind_res (bind_res (conv_type htonl msg) (conv_time htonl)) (conv_long HTONLL 12)
         else if t = mt_code REQ_DUMP_MEM then
           bind_res (bind_res (bind_res (conv_type htonl msg) (conv_time htonl)) (conv_long HTONLL 12))
             (conv_long HTONLL 20)
         else Inr msg)"

definition convert_to_host_order :: "u8 list \<Rightarrow> u8 list res" where
  "convert_to_host_order msg =
     bind_res (conv_type ntohl msg) (\<lambda>m1.
       let t = get32 0 m1
       in if t = mt_code WELCOME_MESS \<or> t = mt_code GENERIC_ERR \<or> t = mt_code SERVER_QUIT \<or> t = mt_code REQ_INFO then
            conv_time ntohl m1
          else if t = mt_code SEND_INFO then bind_res (conv_time ntohl m1) (conv_long NTOHLL 12)
          else if t = mt_code REQ_DUMP_MEM then
            bind_res (bind_res (conv_time ntohl m1) (conv_long NTOHLL 12)) (conv_long NTOHLL 20)
          else Inr m1)"

text \<open>The initialisations set every member; \<open>now\<close> is the result of \<open>time(NULL)\<close>.\<close>

definition init_simple_msg :: "u64 \<Rightarrow> message_type \<Rightarrow> u8 list" where
  "init_simple_msg now t = le_bytes 4 (unat (mt_code t)) @ le_bytes 8 (unat now)"

definition init_info_msg :: "u64 \<Rightarrow> u64 \<Rightarrow> u8 list" where
  "init_info_msg now mem_size =
     le_bytes 4 (unat (mt_code SEND_INFO)) @ le_bytes 8 (unat now) @ le_bytes 8 (unat mem_size)"

definition init_req_dump_mem :: "u64 \<Rightarrow> u64 \<Rightarrow> u64 \<Rightarrow> u8 list" where
  "init_req_dump_mem now start_addr end_addr =
     le_bytes 4 (unat (mt_code REQ_DUMP_MEM)) @ le_bytes 8 (unat now) @
     le_bytes 8 (unat start_addr) @ le_bytes 8 (unat end_addr)"

section \<open>Transport\<close>

text \<open>
  What the calls of \<open>recv\<close> on a socket will return: pieces of the stream, as they arrive, and
  failures; when nothing is left the peer has closed the connection. A call takes at most the
  requested number of bytes of the next piece.
\<close>

datatype recv_event = Bytes "u8 list" | Failed

fun recv :: "nat \<Rightarrow> recv_event list \<Rightarrow> u8 list option \<times> recv_event list" where
  "recv n [] = (Some [], [])"
| "recv n (Failed # s) = (None, s)"
| "recv n (Bytes bs # s) =
     (if n = 0 then (Some [], Bytes bs # s)
      else (Some (take n bs), if length bs \<le> n then s else Bytes (drop n bs) # s))"

text \<open>The number of bytes as the program sees it, in an unsigned variable.\<close>

definition recv_count :: "u8 list option \<Rightarrow> u32" where
  "recv_count r = (case r of None \<Rightarrow> - 1 | Some bs \<Rightarrow> of_nat (length bs))"

record my_buffer =
  mb_buf :: "u8 list option"
  mb_size :: u32

definition clear_my_buffer :: "my_buffer \<Rightarrow> my_buffer" where
  "clear_my_buffer b = (if mb_size b > 0 then b\<lparr>mb_buf := map_option (\<lambda>m. map (\<lambda>_. 0) m) (mb_buf b)\<rparr> else b)"

text \<open>
  \<open>recv_data\<close>: the length, a buffer that is large enough (\<open>malloc\<close> is taken to succeed), the data.
  A failed first call leaves \<open>nbytes\<close> at 0 and passes the test for 4 bytes.
\<close>

definition recv_data :: "recv_event list \<Rightarrow> my_buffer \<Rightarrow> int \<times> my_buffer \<times> recv_event list" where
  "recv_data s mb =
     (let (r, s1) = recv 4 s
      in if recv_count r < 4 then (- 1, mb, s1)
         else (let nbytes = ntohl (case r of None \<Rightarrow> 0 | Some bs \<Rightarrow> get32 0 bs);
                   mb1 = (if nbytes > mb_size mb
                          then \<lparr>mb_buf = Some (replicate (unat nbytes) 0), mb_size = nbytes\<rparr> else mb);
                   mb2 = clear_my_buffer mb1;
                   (r2, s2) = recv (unat nbytes) s1;
                   mb3 = mb2\<lparr>mb_buf := map_option (put_bytes 0 (case r2 of None \<Rightarrow> [] | Some bs \<Rightarrow> bs)) (mb_buf mb2)\<rparr>
               in if recv_count r2 \<noteq> nbytes then (- 1, mb3, s2) else (sint (recv_count r2), mb3, s2)))"

text \<open>\<open>send_data\<close>: the bytes that go out; both calls of \<open>send\<close> are taken to send everything.\<close>

definition send_data :: "u8 list \<Rightarrow> u8 list" where
  "send_data buf = le_bytes 4 (unat (htonl (of_nat (length buf)))) @ buf"

section \<open>Fields in a message\<close>

lemma get_bytes_app: "length xs = a \<Longrightarrow> length ys = n \<Longrightarrow> get_bytes a n (xs @ ys @ zs) = ys"
  by (simp add: get_bytes_def)

lemma put_bytes_app: "length xs = a \<Longrightarrow> length ys = length bs \<Longrightarrow> put_bytes a bs (xs @ ys @ zs) = xs @ bs @ zs"
  by (simp add: put_bytes_def)

lemma unat_word32: "le_val (le_bytes 4 (unat (v :: u32))) = unat v"
  using unsigned_less [where w = v and 'a = nat] by (simp add: le_val_le_bytes)

lemma unat_word64: "le_val (le_bytes 8 (unat (v :: u64))) = unat v"
  using unsigned_less [where w = v and 'a = nat] by (simp add: le_val_le_bytes)

lemma field32:
  "length xs = a \<Longrightarrow> get32 a (xs @ le_bytes 4 (unat v) @ zs) = v"
  "length xs = a \<Longrightarrow> put32 a w (xs @ le_bytes 4 (unat v) @ zs) = Inr (xs @ le_bytes 4 (unat w) @ zs)"
  by (simp_all add: get32_def put32_def get_bytes_app put_bytes_app unat_word32)

lemma field64:
  "length xs = a \<Longrightarrow> get64 a (xs @ le_bytes 8 (unat v) @ zs) = v"
  "length xs = a \<Longrightarrow> put64 a w (xs @ le_bytes 8 (unat v) @ zs) = Inr (xs @ le_bytes 8 (unat w) @ zs)"
  by (simp_all add: get64_def put64_def get_bytes_app put_bytes_app unat_word64)

lemma conv_fields:
  fixes t :: u32 and ts v w :: u64
  shows "conv_type f (le_bytes 4 (unat t) @ zs) = Inr (le_bytes 4 (unat (f t)) @ zs)"
  "conv_time g (le_bytes 4 (unat t) @ le_bytes 8 (unat ts) @ zs) =
     Inr (le_bytes 4 (unat t) @ le_bytes 8 (unat (ucast (g (ucast ts)) :: u64)) @ zs)"
  "conv_long h 12 (le_bytes 4 (unat t) @ le_bytes 8 (unat ts) @ le_bytes 8 (unat v) @ zs) =
     Inr (le_bytes 4 (unat t) @ le_bytes 8 (unat ts) @ le_bytes 8 (unat (h v)) @ zs)"
  "conv_long h 20 (le_bytes 4 (unat t) @ le_bytes 8 (unat ts) @ le_bytes 8 (unat v) @ le_bytes 8 (unat w) @ zs) =
     Inr (le_bytes 4 (unat t) @ le_bytes 8 (unat ts) @ le_bytes 8 (unat v) @ le_bytes 8 (unat (h w)) @ zs)"
  using field32(1) [of "[]" 0 t zs] field32(2) [of "[]" 0 _ t zs]
    field64(1) [of "le_bytes 4 (unat t)" 4 ts zs] field64(2) [of "le_bytes 4 (unat t)" 4 _ ts zs]
    field64(1) [of "le_bytes 4 (unat t) @ le_bytes 8 (unat ts)" 12 v zs]
    field64(2) [of "le_bytes 4 (unat t) @ le_bytes 8 (unat ts)" 12 _ v zs]
    field64(1) [of "le_bytes 4 (unat t) @ le_bytes 8 (unat ts) @ le_bytes 8 (unat v)" 20 w zs]
    field64(2) [of "le_bytes 4 (unat t) @ le_bytes 8 (unat ts) @ le_bytes 8 (unat v)" 20 _ w zs]
  by (simp_all add: conv_type_def conv_time_def conv_long_def)

section \<open>Byte order is restored\<close>

lemma swap32: "unat (htonl x) = le_val (rev (le_bytes 4 (unat x)))"
proof -
  have "le_val (rev (le_bytes 4 (unat x))) < 2 ^ 32" using le_val_less [of "rev (le_bytes 4 (unat x))"] by simp
  then show ?thesis by (simp add: htonl_def unat_of_nat_word)
qed

lemma le_bytes_htonl: "le_bytes 4 (unat (htonl x)) = rev (le_bytes 4 (unat x))"
  using le_bytes_le_val [of "rev (le_bytes 4 (unat x))"] by (simp add: swap32)

lemma ntohl_htonl [simp]: "ntohl (htonl x) = x"
  by (simp add: ntohl_def le_bytes_htonl unat_word32)

lemma ntohl_eq: "ntohl = htonl"
  by (rule ext) (simp add: ntohl_def htonl_def)

lemma NTOHLL_eq: "NTOHLL = HTONLL"
  by (rule ext) (simp add: NTOHLL_def HTONLL_def ntohl_eq)

text \<open>The two halves of a 64-bit word.\<close>

lemma halves:
  fixes hi lo :: u32
  shows "ucast ((push_bit 32 (ucast hi) OR ucast lo :: u64) AND 0xFFFFFFFF) = lo"
    "ucast (drop_bit 32 (push_bit 32 (ucast hi) OR ucast lo :: u64)) = hi"
proof -
  have m: "(0xFFFFFFFF :: u64) = mask 32" by (simp add: mask_eq_exp_minus_1)
  show "ucast ((push_bit 32 (ucast hi) OR ucast lo :: u64) AND 0xFFFFFFFF) = lo"
    unfolding m by (rule bit_eqI) (auto simp: bit_simps)
  show "ucast (drop_bit 32 (push_bit 32 (ucast hi) OR ucast lo :: u64)) = hi"
    by (rule bit_eqI) (auto simp: bit_simps dest: bit_imp_le_length)
qed

lemma halves_join: "push_bit 32 (ucast (ucast (drop_bit 32 x) :: u32)) OR ucast (ucast (x AND 0xFFFFFFFF) :: u32) = (x :: u64)"
proof -
  have m: "(0xFFFFFFFF :: u64) = mask 32" by (simp add: mask_eq_exp_minus_1)
  show ?thesis unfolding m by (rule bit_eqI) (auto simp: bit_simps)
qed

lemma NTOHLL_HTONLL [simp]: "NTOHLL (HTONLL x) = x"
proof -
  have "NTOHLL (HTONLL x) = push_bit 32 (ucast (ntohl (htonl (ucast (drop_bit 32 x))))) OR
      ucast (ntohl (htonl (ucast (x AND 0xFFFFFFFF))))"
    by (simp only: NTOHLL_def HTONLL_def halves)
  then show ?thesis by (simp only: ntohl_htonl halves_join)
qed

section \<open>Messages on the wire\<close>

definition wire_time :: "u64 \<Rightarrow> u64" where
  "wire_time now = ucast (htonl (ucast now))"

definition wire_simple :: "u64 \<Rightarrow> message_type \<Rightarrow> u8 list" where
  "wire_simple now t = le_bytes 4 (unat (htonl (mt_code t))) @ le_bytes 8 (unat (wire_time now))"

definition wire_info :: "u64 \<Rightarrow> u64 \<Rightarrow> u8 list" where
  "wire_info now sz = wire_simple now SEND_INFO @ le_bytes 8 (unat (HTONLL sz))"

definition wire_dump :: "u64 \<Rightarrow> u64 \<Rightarrow> u64 \<Rightarrow> u8 list" where
  "wire_dump now a b = wire_simple now REQ_DUMP_MEM @ le_bytes 8 (unat (HTONLL a)) @ le_bytes 8 (unat (HTONLL b))"

lemma wire_time_back: "ucast (ntohl (ucast (wire_time now))) = take_bit 32 now"
proof -
  have "ucast (ucast x :: u64) = (x :: u32)" for x by (rule bit_eqI) (auto simp: bit_simps)
  moreover have "ucast (ucast now :: u32) = take_bit 32 now" by (rule bit_eqI) (auto simp: bit_simps)
  ultimately show ?thesis by (simp add: wire_time_def)
qed

lemma get_type: "get32 0 (le_bytes 4 (unat t) @ zs) = t"
  using field32(1) [of "[]" 0 t zs] by simp

lemma net_chain:
  "get32 0 (init_simple_msg now t @ zs) = mt_code t" "4 \<le> length (init_simple_msg now t @ zs)"
  "bind_res (conv_type htonl (init_simple_msg now t @ zs)) (conv_time htonl) = Inr (wire_simple now t @ zs)"
  "conv_long HTONLL 12 (wire_simple now t @ le_bytes 8 (unat a) @ zs) =
     Inr (wire_simple now t @ le_bytes 8 (unat (HTONLL a)) @ zs)"
  "conv_long HTONLL 20 (wire_simple now t @ le_bytes 8 (unat a) @ le_bytes 8 (unat b) @ zs) =
     Inr (wire_simple now t @ le_bytes 8 (unat a) @ le_bytes 8 (unat (HTONLL b)) @ zs)"
  by (simp_all add: init_simple_msg_def get_type conv_fields wire_simple_def wire_time_def)

lemma longer_messages:
  "init_info_msg now sz = init_simple_msg now SEND_INFO @ le_bytes 8 (unat sz) @ []"
  "init_req_dump_mem now a b =
     init_simple_msg now REQ_DUMP_MEM @ le_bytes 8 (unat a) @ le_bytes 8 (unat b) @ []"
  by (simp_all add: init_info_msg_def init_req_dump_mem_def init_simple_msg_def)

lemma to_network:
  "t \<notin> {SEND_INFO, REQ_DUMP_MEM} \<Longrightarrow> convert_to_network_order (init_simple_msg now t) = Inr (wire_simple now t)"
  "convert_to_network_order (init_info_msg now sz) = Inr (wire_info now sz)"
  "convert_to_network_order (init_req_dump_mem now a b) = Inr (wire_dump now a b)"
proof -
  note c = net_chain [of now] and u = convert_to_network_order_def Let_def
  show "t \<notin> {SEND_INFO, REQ_DUMP_MEM} \<Longrightarrow> convert_to_network_order (init_simple_msg now t) = Inr (wire_simple now t)"
    using c(1-3) [of t "[]"] by (cases t) (simp_all add: u del: bind_res_eq_Inr)
  show "convert_to_network_order (init_info_msg now sz) = Inr (wire_info now sz)"
    using c(2) [of SEND_INFO] unfolding longer_messages u c(1) c(3) bind_res_simps(2) c(4) wire_info_def by simp
  show "convert_to_network_order (init_req_dump_mem now a b) = Inr (wire_dump now a b)"
    using c(2) [of REQ_DUMP_MEM] unfolding longer_messages u c(1) c(3) bind_res_simps(2) c(4) c(5) wire_dump_def by simp
qed

text \<open>Back in host order, in a buffer that may be longer than the message.\<close>

lemma host_chain:
  "\<exists>m1. conv_type ntohl (wire_simple now t @ zs) = Inr m1 \<and> get32 0 m1 = mt_code t \<and>
     conv_time ntohl m1 = Inr (init_simple_msg (take_bit 32 now) t @ zs)"
  "conv_long NTOHLL 12 (init_simple_msg now t @ le_bytes 8 (unat (HTONLL a)) @ zs) =
     Inr (init_simple_msg now t @ le_bytes 8 (unat a) @ zs)"
  "conv_long NTOHLL 20 (init_simple_msg now t @ le_bytes 8 (unat a) @ le_bytes 8 (unat (HTONLL b)) @ zs) =
     Inr (init_simple_msg now t @ le_bytes 8 (unat a) @ le_bytes 8 (unat b) @ zs)"
  by (simp_all add: init_simple_msg_def get_type conv_fields wire_simple_def wire_time_back)

lemma to_host:
  "t \<notin> {SEND_INFO, REQ_DUMP_MEM} \<Longrightarrow>
     convert_to_host_order (wire_simple now t @ zs) = Inr (init_simple_msg (take_bit 32 now) t @ zs)"
  "convert_to_host_order (wire_info now sz @ zs) = Inr (init_info_msg (take_bit 32 now) sz @ zs)"
  "convert_to_host_order (wire_dump now a b @ zs) = Inr (init_req_dump_mem (take_bit 32 now) a b @ zs)"
proof -
  note c = host_chain [of now] and d = host_chain(2,3) [of "take_bit 32 now"]
  show "t \<notin> {SEND_INFO, REQ_DUMP_MEM} \<Longrightarrow>
      convert_to_host_order (wire_simple now t @ zs) = Inr (init_simple_msg (take_bit 32 now) t @ zs)"
    using c(1) [of t zs] by (cases t) (auto simp: convert_to_host_order_def Let_def)
  show "convert_to_host_order (wire_info now sz @ zs) = Inr (init_info_msg (take_bit 32 now) sz @ zs)"
    using c(1) [of SEND_INFO "le_bytes 8 (unat (HTONLL sz)) @ zs"] d(1) [of SEND_INFO sz zs]
    by (auto simp: convert_to_host_order_def Let_def wire_info_def longer_messages)
  show "convert_to_host_order (wire_dump now a b @ zs) = Inr (init_req_dump_mem (take_bit 32 now) a b @ zs)"
    using c(1) [of REQ_DUMP_MEM "le_bytes 8 (unat (HTONLL a)) @ le_bytes 8 (unat (HTONLL b)) @ zs"]
      d(1) [of REQ_DUMP_MEM a "le_bytes 8 (unat (HTONLL b)) @ zs"] d(2) [of REQ_DUMP_MEM a b zs]
    by (auto simp: convert_to_host_order_def Let_def wire_dump_def longer_messages)
qed

section \<open>A framed message arrives\<close>

definition buf_ok :: "my_buffer \<Rightarrow> bool" where
  "buf_ok mb \<longleftrightarrow> (case mb_buf mb of None \<Rightarrow> mb_size mb = 0 | Some b \<Rightarrow> length b = unat (mb_size mb))"

text \<open>
  \<open>arrives ms s s'\<close>: on socket \<open>s\<close> the messages \<open>ms\<close> arrive one after the other, every call of
  \<open>recv\<close> returning as many bytes as it asks for, and \<open>s'\<close> is what is left.
\<close>

inductive arrives :: "u8 list list \<Rightarrow> recv_event list \<Rightarrow> recv_event list \<Rightarrow> bool" where
  arrives_none: "arrives [] s s"
| arrives_msg: "recv 4 s = (Some (le_bytes 4 (unat (htonl (of_nat (length m))))), s1) \<Longrightarrow>
     recv (length m) s1 = (Some m, s2) \<Longrightarrow> arrives ms s2 s' \<Longrightarrow> arrives (m # ms) s s'"

inductive_cases arrives_NilE: "arrives [] s s'"
inductive_cases arrives_ConsE: "arrives (m # ms) s s'"

definition pieces :: "u8 list \<Rightarrow> recv_event list \<Rightarrow> recv_event list" where
  "pieces bs s = (if bs = [] then s else Bytes bs # s)"

lemma recv_pieces: "xs \<noteq> [] \<Longrightarrow> recv (length xs) (pieces (xs @ ys) s) = (Some xs, pieces ys s)"
  by (simp add: pieces_def)

lemma arrives_stream:
  assumes "\<forall>m \<in> set ms. m \<noteq> []"
  shows "arrives ms (pieces (concat (map send_data ms) @ rst) s) (pieces rst s)"
  using assms
proof (induction ms)
  case Nil
  show ?case by (simp add: arrives_none)
next
  case (Cons m ms)
  let ?h = "le_bytes 4 (unat (htonl (of_nat (length m))))"
  have "?h \<noteq> []" by (metis length_le_bytes list.size(3) zero_neq_numeral)
  from recv_pieces [OF this, of "m @ concat (map send_data ms) @ rst" s]
  have "recv 4 (pieces (concat (map send_data (m # ms)) @ rst) s) =
      (Some ?h, pieces (m @ concat (map send_data ms) @ rst) s)"
    by (simp add: send_data_def)
  moreover have "recv (length m) (pieces (m @ concat (map send_data ms) @ rst) s) =
      (Some m, pieces (concat (map send_data ms) @ rst) s)"
    using Cons.prems by (simp add: recv_pieces)
  ultimately show ?case using Cons by (intro arrives_msg) auto
qed

lemma recv_data_frame:
  assumes "arrives (msg # ms) s s'" "msg \<noteq> []" "length msg < 2 ^ 31" "buf_ok mb"
  obtains s2 where "recv_data s mb =
    (int (length msg),
     \<lparr>mb_buf = Some (msg @ replicate (unat (mb_size mb) - length msg) 0),
      mb_size = (if of_nat (length msg) > mb_size mb then of_nat (length msg) else mb_size mb)\<rparr>, s2)"
    "arrives ms s2 s'"
proof -
  let ?n = "of_nat (length msg) :: u32"
  let ?h = "le_bytes 4 (unat (htonl ?n))"
  have n: "unat ?n = length msg" using assms(3) by (intro unat_of_nat_word) simp
  have sn: "sint ?n = int (length msg)" using assms(3) by (simp add: signed_of_nat signed_take_bit_int_eq_self)
  have nz: "?n \<noteq> 0" using assms(2) n by (metis length_0_conv unsigned_0)
  obtain s1 s2 where r1: "recv 4 s = (Some ?h, s1)" and "recv (length msg) s1 = (Some msg, s2)"
    and a: "arrives ms s2 s'"
    using assms(1) by (rule arrives_ConsE)
  then have r2: "recv (unat ?n) s1 = (Some msg, s2)" using n by simp
  have h: "ntohl (get32 0 ?h) = ?n" using get_type [of "htonl ?n" "[]"] by simp
  let ?mb = "\<lparr>mb_buf = Some (msg @ replicate (unat (mb_size mb) - length msg) 0),
      mb_size = (if of_nat (length msg) > mb_size mb then of_nat (length msg) else mb_size mb)\<rparr>"
  have "recv_data s mb = (int (length msg), ?mb, s2)"
  proof (cases "?n > mb_size mb")
    case True
    then have "length msg - unat (mb_size mb) > 0" using n by (simp add: word_less_nat_alt)
    then show ?thesis
      using True r1 r2 h n sn nz
      by (simp add: recv_data_def recv_count_def clear_my_buffer_def put_bytes_def word_gt_0 map_replicate_const)
  next
    case False
    then have le: "length msg \<le> unat (mb_size mb)" using n by (simp add: word_less_nat_alt)
    then have "mb_size mb > 0" using assms(2) by (metis le_zero_eq length_0_conv unsigned_0 word_gt_0)
    then obtain b where b: "mb_buf mb = Some b" "length b = unat (mb_size mb)"
      using assms(4) by (auto simp: buf_ok_def split: option.splits)
    have "put_bytes 0 msg (map (\<lambda>_. 0) b) = msg @ replicate (unat (mb_size mb) - length msg) 0"
      using le b(2) by (simp add: put_bytes_def map_replicate_const)
    then show ?thesis
      using False r1 r2 h n sn b \<open>mb_size mb > 0\<close>
      by (simp add: recv_data_def recv_count_def clear_my_buffer_def)
  qed
  with a that show thesis by blast
qed

section \<open>Properties\<close>

text \<open>
  Messages survive the network: every kind of message, converted to network order and back,
  is the same message, except that its time stamp keeps the lower 32 bits only; and on the wire
  the type comes first in big-endian order.
\<close>

theorem message_roundtrip:
  assumes "t \<notin> {SEND_INFO, REQ_DUMP_MEM}"
  shows "bind_res (convert_to_network_order (init_simple_msg now t)) convert_to_host_order =
      Inr (init_simple_msg (take_bit 32 now) t) \<and>
    bind_res (convert_to_network_order (init_info_msg now sz)) convert_to_host_order =
      Inr (init_info_msg (take_bit 32 now) sz) \<and>
    bind_res (convert_to_network_order (init_req_dump_mem now a b)) convert_to_host_order =
      Inr (init_req_dump_mem (take_bit 32 now) a b) \<and>
    (\<exists>w. convert_to_network_order (init_req_dump_mem now a b) = Inr w \<and> take 4 w = [0, 0, 0, 4])"
proof -
  have "le_bytes 4 (unat (mt_code REQ_DUMP_MEM)) = [4, 0, 0, 0]" by code_simp
  then have "take 4 (wire_dump now a b) = [0, 0, 0, 4]"
    by (simp add: wire_dump_def wire_simple_def le_bytes_htonl del: mt_code.simps)
  then show ?thesis
    using to_host(1) [OF assms, of now "[]"] to_host(2) [of now sz "[]"] to_host(3) [of now a b "[]"] assms
    by (simp add: to_network)
qed

theorem message_roundtrip_witness:
  "bind_res (convert_to_network_order (init_simple_msg 0x123456789 REQ_INFO)) convert_to_host_order =
     Inr (init_simple_msg 0x23456789 REQ_INFO)"
  using message_roundtrip [of REQ_INFO "0x123456789"] by simp

end
