(* ===== verification/DebugServer.thy ===== *)
theory DebugServer
  imports Messages
begin

text \<open>
  The debug server, \<open>debug-server/DebugServer.cpp\<close> and \<open>DebugServer.h\<close>, and its client,
  \<open>debug-client/debug_client.cpp\<close>. A worker serves one connection: what it will receive is the list
  of socket events of \<open>Messages\<close>, what it sends is a list of bytes. The machine it reports on is a
  snapshot: the bytes of the guest memory, and what the two KVM calls return for the registers.
\<close>

section \<open>State\<close>

record machine_info =
  guest_mem_ptr :: u64
  mem_size :: u64

record vm_snapshot =
  vm_time :: u64
  vm_mem :: guest_mem
  vm_regs :: "u8 list option"
  vm_sregs :: "u8 list option"

section \<open>The answers\<close>

text \<open>
  \<open>send_dump_mem\<close>: host addresses wrap at 64 bits, the size becomes the 32-bit argument of
  \<open>send_data\<close>, and the error message that is prepared for a refused request is not sent.
\<close>

definition send_dump_mem :: "machine_info \<Rightarrow> guest_mem \<Rightarrow> u64 \<Rightarrow> u64 \<Rightarrow> u8 list res" where
  "send_dump_mem mi m start_addr end_addr =
     (let start_guest_dump = guest_mem_ptr mi + start_addr;
          end_guest_dump = guest_mem_ptr mi + end_addr;
          dump_size = end_guest_dump - start_guest_dump
      in if start_guest_dump > guest_mem_ptr mi + mem_size mi \<or>
            end_guest_dump > guest_mem_ptr mi + mem_size mi then Inr []
         else (let a = unat (start_guest_dump - guest_mem_ptr mi);
                   buf_len = unat (ucast dump_size :: u32)
               in if a + buf_len \<le> length m then Inr (send_data (get_bytes a buf_len m))
                  else Inl OutOfBounds))"

definition send_info :: "machine_info \<Rightarrow> vm_snapshot \<Rightarrow> u8 list res" where
  "send_info mi vm =
     bind_res (convert_to_network_order (init_info_msg (vm_time vm) (mem_size mi))) (\<lambda>msg.
       Inr (send_data msg @
            (case vm_regs vm of None \<Rightarrow> []
             | Some regs \<Rightarrow> (case vm_sregs vm of None \<Rightarrow> [] | Some sregs \<Rightarrow> send_data regs @ send_data sregs))))"

section \<open>The worker\<close>

text \<open>
  One turn of the loop of \<open>worker_fun\<close>: the bytes sent, and the buffer and the socket when the loop
  goes on.
\<close>

definition worker_turn ::
  "machine_info \<Rightarrow> vm_snapshot \<Rightarrow> recv_event list \<Rightarrow> my_buffer \<Rightarrow>
   (u8 list \<times> (recv_event list \<times> my_buffer) option) res" where
  "worker_turn mi vm s mb =
     (let (r, mb1, s1) = recv_data s mb
      in if r = 0 then Inr ([], None)
         else (case mb_buf mb1 of None \<Rightarrow> Inl NullDeref
           | Some b \<Rightarrow>
               bind_res (convert_to_host_order b) (\<lambda>b1.
                 let t = get32 0 b1
                 in if t = mt_code REQ_DUMP_MEM then
                      if length b1 < 28 then Inl OutOfBounds
                      else bind_res (send_dump_mem mi (vm_mem vm) (get64 12 b1) (get64 20 b1)) (\<lambda>out.
                             Inr (out, Some (s1, mb1\<lparr>mb_buf := Some b1\<rparr>)))
                    else if t = mt_code REQ_INFO then bind_res (send_info mi vm) (\<lambda>out. Inr (out, None))
                    else Inr ([], None))))"

text \<open>The amount of input left; a turn that goes on uses some of it, or has reversed a stale request.\<close>

definition weight :: "recv_event list \<Rightarrow> nat" where
  "weight s = sum_list (map (\<lambda>e. case e of Bytes bs \<Rightarrow> Suc (length bs) | Failed \<Rightarrow> 1) s)"

definition stale_request :: "my_buffer \<Rightarrow> bool" where
  "stale_request mb = (case mb_buf mb of None \<Rightarrow> False | Some b \<Rightarrow> get32 0 b = htonl (mt_code REQ_DUMP_MEM))"

lemma recv_weight: "weight (snd (recv n s)) \<le> weight s" "s \<noteq> [] \<Longrightarrow> n > 0 \<Longrightarrow> weight (snd (recv n s)) < weight s"
  by (cases "(n, s)" rule: recv.cases; auto simp: weight_def)+

lemma recv_data_weight:
  assumes "recv_data s mb = (r, mb1, s1)"
  shows "s \<noteq> [] \<Longrightarrow> weight s1 < weight s" "s = [] \<Longrightarrow> s1 = [] \<and> mb1 = mb"
proof -
  obtain r1 t where t: "recv 4 s = (r1, t)" by fastforce
  have "s1 = t \<or> (\<exists>n x. recv n t = (x, s1))"
    using assms t by (auto simp: recv_data_def Let_def split: prod.splits if_splits)
  then have "weight s1 \<le> weight t" using recv_weight(1) by (metis order_refl snd_conv)
  then show "s \<noteq> [] \<Longrightarrow> weight s1 < weight s" using recv_weight(2) [of s 4] t by simp
  show "s = [] \<Longrightarrow> s1 = [] \<and> mb1 = mb" using assms by (simp add: recv_data_def recv_count_def)
qed

lemma get32_put64: "put64 a v b = Inr b' \<Longrightarrow> 4 \<le> a \<Longrightarrow> get32 0 b' = get32 0 b"
proof -
  assume p: "put64 a v b = Inr b'" and a: "4 \<le> a"
  then have "4 \<le> length b" by (simp add: put64_def split: if_splits)
  with get_put64_other [OF p, of 0 4] a show ?thesis by (simp add: get32_def)
qed

lemma get32_conv:
  "conv_time f b = Inr b' \<Longrightarrow> get32 0 b' = get32 0 b"
  "conv_long h a b = Inr b' \<Longrightarrow> 4 \<le> a \<Longrightarrow> get32 0 b' = get32 0 b"
  by (simp_all add: conv_time_def conv_long_def get32_put64)

lemma get32_conv_type: "conv_type f b = Inr b' \<Longrightarrow> get32 0 b' = f (get32 0 b)"
proof -
  assume "conv_type f b = Inr b'"
  then have l: "4 \<le> length b" and b': "b' = put_bytes 0 (le_bytes 4 (unat (f (get32 0 b)))) b"
    by (simp_all add: conv_type_def put32_def split: if_splits)
  show ?thesis
    using get_put_same [of 0 "le_bytes 4 (unat (f (get32 0 b)))" b] l unat_word32 [of "f (get32 0 b)"]
    by (simp add: b' get32_def [of 0 "put_bytes _ _ _"])
qed

lemma get32_to_host:
  assumes "convert_to_host_order b = Inr b1"
  shows "get32 0 b1 = ntohl (get32 0 b)"
proof -
  obtain m1 where m1: "conv_type ntohl b = Inr m1" using assms by (auto simp: convert_to_host_order_def)
  have "conv_time ntohl m1 = Inr b1 \<or> bind_res (conv_time ntohl m1) (conv_long NTOHLL 12) = Inr b1 \<or>
      bind_res (bind_res (conv_time ntohl m1) (conv_long NTOHLL 12)) (conv_long NTOHLL 20) = Inr b1 \<or> m1 = b1"
    using assms unfolding convert_to_host_order_def m1 bind_res_simps Let_def
    by (simp only: sum.inject split: if_split_asm) simp_all
  then have "get32 0 b1 = get32 0 m1"
    by (auto dest: get32_conv(1)) (metis get32_conv(1) get32_conv(2) [where a = 12, simplified] get32_conv(2) [where a = 20, simplified])+
  with m1 show ?thesis by (simp add: get32_conv_type)
qed

function worker_fun :: "machine_info \<Rightarrow> vm_snapshot \<Rightarrow> recv_event list \<Rightarrow> my_buffer \<Rightarrow> u8 list res" where
  "worker_fun mi vm s mb =
     (case worker_turn mi vm s mb of
        Inl e \<Rightarrow> Inl e
      | Inr (out, None) \<Rightarrow> Inr out
      | Inr (out, Some (s1, mb1)) \<Rightarrow> bind_res (worker_fun mi vm s1 mb1) (\<lambda>out1. Inr (out @ out1)))"
  by pat_completeness auto

lemma htonl_request: "htonl (mt_code REQ_DUMP_MEM) \<noteq> mt_code t"
proof
  assume "htonl (mt_code REQ_DUMP_MEM) = mt_code t"
  then have "le_bytes 4 (unat (mt_code t)) = rev (le_bytes 4 (unat (mt_code REQ_DUMP_MEM)))"
    using le_bytes_htonl [of "mt_code REQ_DUMP_MEM"] by simp
  moreover have "le_bytes 4 (unat (mt_code REQ_DUMP_MEM)) = [4, 0, 0, 0]" by code_simp
  moreover have "\<forall>t \<in> {WELCOME_MESS, GENERIC_ERR, REQ_INFO, SEND_INFO, REQ_DUMP_MEM, SERVER_QUIT}.
      last (le_bytes 4 (unat (mt_code t))) = 0"
    by code_simp
  then have "last (le_bytes 4 (unat (mt_code t))) = 0" by (cases t) auto
  ultimately show False by simp
qed

lemma worker_turn_progress:
  assumes "worker_turn mi vm s mb = Inr (out, Some (s1, mb1))"
  shows "weight s1 < weight s \<or> weight s1 = weight s \<and> stale_request mb \<and> \<not> stale_request mb1"
proof -
  obtain r mb2 s2 where r2: "recv_data s mb = (r, mb2, s2)" by (cases "recv_data s mb")
  obtain b b1 where b: "mb_buf mb2 = Some b" "convert_to_host_order b = Inr b1"
    using assms by (auto simp: worker_turn_def r2 split: if_splits option.splits)
  then have "get32 0 b1 = mt_code REQ_DUMP_MEM \<and> s1 = s2 \<and> mb1 = mb2\<lparr>mb_buf := Some b1\<rparr>"
    using assms by (auto simp: worker_turn_def r2 Let_def simp del: mt_code.simps split: if_splits)
  with b r2 have r: "recv_data s mb = (r, mb2, s1)" "mb_buf mb2 = Some b"
    "convert_to_host_order b = Inr b1" "get32 0 b1 = mt_code REQ_DUMP_MEM" "mb1 = mb2\<lparr>mb_buf := Some b1\<rparr>"
    by simp_all
  show ?thesis
  proof (cases "s = []")
    case True
    have "get32 0 b = htonl (mt_code REQ_DUMP_MEM)"
      using get32_to_host [OF r(3)] r(4) ntohl_htonl [of "get32 0 b"] by (simp add: ntohl_eq)
    then show ?thesis using htonl_request [of REQ_DUMP_MEM] recv_data_weight(2) [OF r(1) True] True r
      by (auto simp: stale_request_def)
  qed (use recv_data_weight(1) [OF r(1)] in simp)
qed

termination worker_fun
  by (relation "(\<lambda>(mi, vm, s, mb). 2 * weight s + (if stale_request mb then 1 else 0)) <*mlex*> {}")
     (auto intro!: wf_mlex mlex_less dest!: worker_turn_progress)


section \<open>The client\<close>

text \<open>
  \<open>printf\<close> with the conversion \<open>%02x\<close> of a \<open>char\<close>: the argument is promoted to \<open>int\<close> with its sign.
\<close>

definition hex_digit :: "nat \<Rightarrow> char" where
  "hex_digit d = ''0123456789abcdef'' ! d"

fun hex_str :: "nat \<Rightarrow> string" where
  "hex_str n = (if n < 16 then [hex_digit n] else hex_str (n div 16) @ [hex_digit (n mod 16)])"

declare hex_str.simps [simp del]

definition printf_02x :: "u8 \<Rightarrow> string" where
  "printf_02x c = (let s = hex_str (unat (scast c :: u32)) in replicate (2 - length s) (CHR ''0'') @ s)"

text \<open>\<open>memcpy\<close> of the first \<open>n\<close> bytes of the buffer.\<close>

definition copy_out :: "nat \<Rightarrow> my_buffer \<Rightarrow> u8 list res" where
  "copy_out n mb = (case mb_buf mb of None \<Rightarrow> Inl NullDeref
     | Some b \<Rightarrow> if n \<le> length b then Inr (take n b) else Inl OutOfBounds)"

text \<open>
  The exchange of \<open>main\<close> once it is connected: what it sends, the text of the dump, and the memory
  size and the registers it shows. \<open>regs_size\<close> and \<open>sregs_size\<close> are the sizes of KVM's structures.
\<close>

record client_output =
  co_sent :: "u8 list"
  co_dump :: string
  co_info :: "(u64 \<times> u8 list \<times> u8 list) option"

definition debug_client :: "nat \<Rightarrow> nat \<Rightarrow> u64 \<Rightarrow> recv_event list \<Rightarrow> client_output res" where
  "debug_client regs_size sregs_size now s =
     bind_res (convert_to_network_order (init_req_dump_mem now 0xBF000 (0xBF000 + 2000))) (\<lambda>mess.
       let (r0, mb, s) = recv_data s \<lparr>mb_buf = None, mb_size = 0\<rparr>;
           dump = (case mb_buf mb of None \<Rightarrow> [] | Some b \<Rightarrow> concat (map printf_02x (take (unat (mb_size mb)) b)))
       in bind_res (convert_to_network_order (init_simple_msg now REQ_INFO)) (\<lambda>msg_req.
            let sent = send_data mess @ send_data msg_req;
                (r, mb, s) = recv_data s mb
            in if r = - 1 then Inr \<lparr>co_sent = sent, co_dump = dump, co_info = None\<rparr>
               else (case mb_buf mb of None \<Rightarrow> Inl NullDeref
                 | Some b \<Rightarrow>
                     bind_res (convert_to_host_order b) (\<lambda>b.
                       bind_res (copy_out 20 (mb\<lparr>mb_buf := Some b\<rparr>)) (\<lambda>msg_ans.
                         let (r1, mb, s) = recv_data s (mb\<lparr>mb_buf := Some b\<rparr>)
                         in bind_res (copy_out regs_size mb) (\<lambda>regs.
                              let (r2, mb, s) = recv_data s mb
                              in bind_res (copy_out sregs_size mb) (\<lambda>sregs.
                                   Inr \<lparr>co_sent = sent, co_dump = dump, co_info = Some (get64 12 msg_ans, regs, sregs)\<rparr>)))))))"

section \<open>Dumps\<close>

lemma add_le_word:
  fixes p x y :: u64
  assumes "unat p + unat y < 2 ^ 64" "unat p + unat x < 2 ^ 64"
  shows "p + x \<le> p + y \<longleftrightarrow> unat x \<le> unat y"
  using assms by (simp add: word_le_nat_alt unat_word_ariths)

lemma dump_len:
  fixes a b :: u64
  assumes "unat a \<le> unat b" "unat b < 2 ^ 32"
  shows "unat (ucast (b - a) :: u32) = unat b - unat a"
proof -
  have "unat (b - a) = unat b - unat a" using assms(1) by (intro unat_sub) (simp add: word_le_nat_alt)
  then have "unat (ucast (b - a) :: u32) = (unat b - unat a) mod 2 ^ 32"
    by (simp add: unsigned_ucast_eq take_bit_eq_mod)
  then show ?thesis using assms(2) by simp
qed

lemma dump_len_reversed:
  fixes a b :: u64
  assumes "unat b < unat a" "unat a < 2 ^ 32"
  shows "unat (ucast (b - a) :: u32) = 2 ^ 32 - (unat a - unat b)"
proof -
  define d where "d = unat a - unat b"
  have d: "0 < d" "d < 2 ^ 32" using assms by (simp_all add: d_def)
  have "b - a = - of_nat d"
    using assms(1) by (simp add: d_def of_nat_diff)
  then have "unat (b - a) = (2 ^ 32 - 1) * 2 ^ 32 + (2 ^ 32 - d)"
    using d unat_sub_if' [of 0 "of_nat d :: u64"] unat_of_nat_word [of d, where 'a = 64] by simp
  then have "unat (ucast (b - a) :: u32) = ((2 ^ 32 - 1) * 2 ^ 32 + (2 ^ 32 - d)) mod 2 ^ 32"
    by (simp add: unsigned_ucast_eq take_bit_eq_mod)
  also have "\<dots> = 2 ^ 32 - d" unfolding mod_mult_self3 using d by simp
  finally show ?thesis by (simp add: d_def)
qed

definition vm_ok :: "machine_info \<Rightarrow> guest_mem \<Rightarrow> bool" where
  "vm_ok mi m \<longleftrightarrow> length m < 2 ^ 32 \<and> unat (mem_size mi) = length m \<and> unat (guest_mem_ptr mi) + length m < 2 ^ 64"

lemma dump_in_range:
  assumes "vm_ok mi m" "unat a \<le> unat b" "unat b \<le> length m"
  shows "send_dump_mem mi m a b = Inr (send_data (get_bytes (unat a) (unat b - unat a) m))"
proof -
  let ?p = "guest_mem_ptr mi"
  have v: "length m < 2 ^ 32" "unat (mem_size mi) = length m" "unat ?p + length m < 2 ^ 64"
    using assms(1) by (simp_all add: vm_ok_def)
  have c: "\<not> ?p + mem_size mi < ?p + a" "\<not> ?p + mem_size mi < ?p + b"
    using add_le_word [of ?p "mem_size mi" a] add_le_word [of ?p "mem_size mi" b] v assms(2,3)
    by (simp_all add: not_less)
  moreover have "unat (ucast (b - a) :: u32) = unat b - unat a" using assms v(1) by (intro dump_len) auto
  ultimately show ?thesis using assms(2,3) by (simp add: send_dump_mem_def Let_def c)
qed

lemma dump_refused:
  assumes "vm_ok mi m" "unat (guest_mem_ptr mi) + unat a < 2 ^ 64" "unat (guest_mem_ptr mi) + unat b < 2 ^ 64"
    "length m < unat a \<or> length m < unat b"
  shows "send_dump_mem mi m a b = Inr []"
proof -
  let ?p = "guest_mem_ptr mi"
  have "\<not> ?p + a \<le> ?p + mem_size mi \<or> \<not> ?p + b \<le> ?p + mem_size mi"
    using assms add_le_word [of ?p "mem_size mi"] by (auto simp: vm_ok_def)
  then show ?thesis by (auto simp: send_dump_mem_def Let_def not_less)
qed

lemma dump_reversed:
  assumes "vm_ok mi m" "unat b < unat a" "unat a \<le> length m"
  shows "send_dump_mem mi m a b = Inl OutOfBounds"
proof -
  let ?p = "guest_mem_ptr mi"
  have v: "length m < 2 ^ 32" "unat (mem_size mi) = length m" "unat ?p + length m < 2 ^ 64"
    using assms(1) by (simp_all add: vm_ok_def)
  have c: "\<not> ?p + mem_size mi < ?p + a" "\<not> ?p + mem_size mi < ?p + b"
    using add_le_word [of ?p "mem_size mi" a] add_le_word [of ?p "mem_size mi" b] v assms(2,3)
    by (simp_all add: not_less)
  have "unat (ucast (b - a) :: u32) = 2 ^ 32 - (unat a - unat b)"
    using assms v by (intro dump_len_reversed) simp_all
  then show ?thesis using assms(2,3) v by (simp add: send_dump_mem_def Let_def c)
qed

section \<open>Sessions\<close>

lemma wire_lengths [simp]:
  "length (wire_simple now t) = 12" "length (wire_info now sz) = 20" "length (wire_dump now a b) = 28"
  by (simp_all add: wire_simple_def wire_info_def wire_dump_def)

lemma dump_fields:
  "get32 0 (init_req_dump_mem now a b @ zs) = mt_code REQ_DUMP_MEM"
  "get64 12 (init_req_dump_mem now a b @ zs) = a" "get64 20 (init_req_dump_mem now a b @ zs) = b"
  "length (init_req_dump_mem now a b) = 28"
  using get_type [of "mt_code REQ_DUMP_MEM"]
    field64(1) [of "le_bytes 4 (unat (mt_code REQ_DUMP_MEM)) @ le_bytes 8 (unat now)" 12 a "le_bytes 8 (unat b) @ zs"]
    field64(1) [of "le_bytes 4 (unat (mt_code REQ_DUMP_MEM)) @ le_bytes 8 (unat now) @ le_bytes 8 (unat a)" 20 b zs]
  by (simp_all add: init_req_dump_mem_def del: mt_code.simps)

lemma message_received:
  assumes "arrives (msg # ms) s s'" "msg \<noteq> []" "length msg < 2 ^ 31" "buf_ok mb"
  obtains s2 sz where "recv_data s mb = (int (length msg),
      \<lparr>mb_buf = Some (msg @ replicate (unat (mb_size mb) - length msg) 0), mb_size = sz\<rparr>, s2)"
    "arrives ms s2 s'" "unat sz = max (length msg) (unat (mb_size mb))"
proof (rule recv_data_frame [OF assms])
  have n: "unat (of_nat (length msg) :: u32) = length msg" using assms(3) by (intro unat_of_nat_word) simp
  fix s2
  assume *: "recv_data s mb = (int (length msg),
      \<lparr>mb_buf = Some (msg @ replicate (unat (mb_size mb) - length msg) 0),
       mb_size = (if of_nat (length msg) > mb_size mb then of_nat (length msg) else mb_size mb)\<rparr>, s2)"
    "arrives ms s2 s'"
  show thesis by (rule that [OF *]) (simp add: word_less_nat_alt n)
qed

lemma turn_dump:
  assumes "arrives (wire_dump now a b # ms) s s'" "buf_ok mb" "vm_ok mi (vm_mem vm)"
    "unat a \<le> unat b" "unat b \<le> length (vm_mem vm)"
  obtains s2 mb2 where "worker_turn mi vm s mb =
      Inr (send_data (get_bytes (unat a) (unat b - unat a) (vm_mem vm)), Some (s2, mb2))"
    "arrives ms s2 s'" "buf_ok mb2"
    "\<exists>b1. mb_buf mb2 = Some b1 \<and> 4 \<le> length b1 \<and> get32 0 b1 = mt_code REQ_DUMP_MEM"
proof -
  let ?zs = "replicate (unat (mb_size mb) - 28) 0 :: u8 list"
  let ?b = "init_req_dump_mem (take_bit 32 now) a b @ ?zs"
  have ne: "wire_dump now a b \<noteq> []" by (metis wire_lengths(3) list.size(3) zero_neq_numeral)
  obtain s2 sz where r: "recv_data s mb = (28, \<lparr>mb_buf = Some (wire_dump now a b @ ?zs), mb_size = sz\<rparr>, s2)"
    and a2: "arrives ms s2 s'" and sz: "unat sz = max 28 (unat (mb_size mb))"
    by (rule message_received [OF assms(1) ne _ assms(2)]) simp_all
  have "worker_turn mi vm s mb = Inr (send_data (get_bytes (unat a) (unat b - unat a) (vm_mem vm)),
      Some (s2, \<lparr>mb_buf = Some ?b, mb_size = sz\<rparr>))"
    by (simp add: worker_turn_def r to_host dump_fields dump_in_range [OF assms(3-5)] del: mt_code.simps)
  moreover have "buf_ok \<lparr>mb_buf = Some ?b, mb_size = sz\<rparr>"
    by (simp add: buf_ok_def sz dump_fields(4))
  ultimately show thesis using that a2 dump_fields(1,4) [of "take_bit 32 now" a b] by simp
qed

lemma turn_info:
  assumes "arrives (wire_simple now REQ_INFO # ms) s s'" "buf_ok mb"
  shows "worker_turn mi vm s mb = bind_res (send_info mi vm) (\<lambda>out. Inr (out, None))"
proof -
  let ?zs = "replicate (unat (mb_size mb) - 12) 0 :: u8 list"
  have ne: "wire_simple now REQ_INFO \<noteq> []" by (metis wire_lengths(1) list.size(3) zero_neq_numeral)
  obtain s2 sz where r: "recv_data s mb = (12, \<lparr>mb_buf = Some (wire_simple now REQ_INFO @ ?zs), mb_size = sz\<rparr>, s2)"
    by (rule message_received [OF assms(1) ne _ assms(2)]) simp_all
  have "get32 0 (init_simple_msg (take_bit 32 now) REQ_INFO @ ?zs) = mt_code REQ_INFO" by (rule net_chain(1))
  then show ?thesis by (simp add: worker_turn_def r to_host(1))
qed

lemma turn_closed:
  assumes "mb_buf mb = Some b" "4 \<le> length b" "get32 0 b = mt_code REQ_DUMP_MEM"
  shows "worker_turn mi vm [] mb = Inr ([], None)"
proof -
  obtain m1 where m1: "conv_type ntohl b = Inr m1" using assms(2) by (simp add: conv_type_def put32_def)
  have t: "get32 0 m1 = htonl (mt_code REQ_DUMP_MEM)"
    using get32_conv_type [OF m1] assms(3) by (simp add: ntohl_eq)
  then have "convert_to_host_order b = Inr m1"
    using htonl_request unfolding convert_to_host_order_def m1 by (simp add: Let_def del: mt_code.simps)
  then show ?thesis
    using assms(1) t htonl_request by (simp add: worker_turn_def recv_data_def recv_count_def del: mt_code.simps)
qed

definition dumps :: "guest_mem \<Rightarrow> (u64 \<times> u64 \<times> u64) list \<Rightarrow> u8 list" where
  "dumps m reqs = concat (map (\<lambda>(now, a, b). send_data (get_bytes (unat a) (unat b - unat a) m)) reqs)"

definition in_range :: "guest_mem \<Rightarrow> u64 \<times> u64 \<times> u64 \<Rightarrow> bool" where
  "in_range m req = (case req of (now, a, b) \<Rightarrow> unat a \<le> unat b \<and> unat b \<le> length m)"

lemma dumps_served:
  assumes "arrives (map (\<lambda>(now, a, b). wire_dump now a b) reqs @ ms) s s'" "\<forall>r \<in> set reqs. in_range (vm_mem vm) r"
    "buf_ok mb" "vm_ok mi (vm_mem vm)"
  obtains s2 mb2 where
    "worker_fun mi vm s mb = bind_res (worker_fun mi vm s2 mb2) (\<lambda>out. Inr (dumps (vm_mem vm) reqs @ out))"
    "arrives ms s2 s'" "buf_ok mb2"
    "reqs = [] \<Longrightarrow> mb2 = mb"
    "reqs \<noteq> [] \<Longrightarrow> \<exists>b1. mb_buf mb2 = Some b1 \<and> 4 \<le> length b1 \<and> get32 0 b1 = mt_code REQ_DUMP_MEM"
  using assms
proof (induction reqs arbitrary: s mb thesis)
  case Nil
  have "worker_fun mi vm s mb = bind_res (worker_fun mi vm s mb) (\<lambda>out. Inr (dumps (vm_mem vm) [] @ out))"
    by (cases "worker_fun mi vm s mb") (simp_all add: dumps_def del: worker_fun.simps)
  then show ?case using Nil by (metis append_Nil list.map(1))
next
  case (Cons r reqs)
  obtain now a b where r: "r = (now, a, b)" by (cases r)
  obtain s1 mb1 where t: "worker_turn mi vm s mb =
      Inr (send_data (get_bytes (unat a) (unat b - unat a) (vm_mem vm)), Some (s1, mb1))"
    "arrives (map (\<lambda>(now, a, b). wire_dump now a b) reqs @ ms) s1 s'" "buf_ok mb1"
    "\<exists>b1. mb_buf mb1 = Some b1 \<and> 4 \<le> length b1 \<and> get32 0 b1 = mt_code REQ_DUMP_MEM"
    using Cons.prems(2-5) by (auto simp: r in_range_def elim: turn_dump)
  obtain s2 mb2 where i:
    "worker_fun mi vm s1 mb1 = bind_res (worker_fun mi vm s2 mb2) (\<lambda>out. Inr (dumps (vm_mem vm) reqs @ out))"
    "arrives ms s2 s'" "buf_ok mb2" "reqs = [] \<Longrightarrow> mb2 = mb1"
    "reqs \<noteq> [] \<Longrightarrow> \<exists>b1. mb_buf mb2 = Some b1 \<and> 4 \<le> length b1 \<and> get32 0 b1 = mt_code REQ_DUMP_MEM"
    using Cons.IH [OF _ t(2) _ t(3) Cons.prems(5)] Cons.prems(3) by auto
  have "worker_fun mi vm s mb = bind_res (worker_fun mi vm s2 mb2) (\<lambda>out. Inr (dumps (vm_mem vm) (r # reqs) @ out))"
    unfolding worker_fun.simps [of mi vm s mb] t(1) using i(1)
    by (cases "worker_fun mi vm s2 mb2") (simp_all add: dumps_def r del: worker_fun.simps)
  then show ?case using Cons.prems(1) i t(4) by (metis list.distinct(1))
qed

lemma send_info_result:
  "send_info mi vm = Inr (send_data (wire_info (vm_time vm) (mem_size mi)) @
     (case (vm_regs vm, vm_sregs vm) of (Some r, Some q) \<Rightarrow> send_data r @ send_data q | _ \<Rightarrow> []))"
  by (simp add: send_info_def to_network split: option.splits)

lemma session_info:
  assumes "arrives (map (\<lambda>(now, a, b). wire_dump now a b) reqs @ [wire_simple now REQ_INFO]) s s'"
    "\<forall>r \<in> set reqs. in_range (vm_mem vm) r" "buf_ok mb" "vm_ok mi (vm_mem vm)"
  shows "worker_fun mi vm s mb = Inr (dumps (vm_mem vm) reqs @ send_data (wire_info (vm_time vm) (mem_size mi)) @
     (case (vm_regs vm, vm_sregs vm) of (Some r, Some q) \<Rightarrow> send_data r @ send_data q | _ \<Rightarrow> []))"
proof (rule dumps_served [OF assms])
  fix s2 mb2
  assume *: "worker_fun mi vm s mb = bind_res (worker_fun mi vm s2 mb2) (\<lambda>out. Inr (dumps (vm_mem vm) reqs @ out))"
    "arrives [wire_simple now REQ_INFO] s2 s'" "buf_ok mb2"
  have "worker_turn mi vm s2 mb2 = bind_res (send_info mi vm) (\<lambda>out. Inr (out, None))"
    by (rule turn_info [OF *(2,3)])
  then have "worker_fun mi vm s2 mb2 = send_info mi vm"
    unfolding worker_fun.simps [of mi vm s2 mb2] by (simp add: send_info_result)
  with *(1) show ?thesis by (simp add: send_info_result del: worker_fun.simps)
qed

lemma session_closed:
  assumes "arrives (map (\<lambda>(now, a, b). wire_dump now a b) reqs) s []"
    "\<forall>r \<in> set reqs. in_range (vm_mem vm) r" "buf_ok mb" "vm_ok mi (vm_mem vm)" "reqs \<noteq> []"
  shows "worker_fun mi vm s mb = Inr (dumps (vm_mem vm) reqs)"
proof -
  have "arrives (map (\<lambda>(now, a, b). wire_dump now a b) reqs @ []) s []" using assms(1) by simp
  from dumps_served [OF this assms(2-4)] obtain s2 mb2 where *:
    "worker_fun mi vm s mb = bind_res (worker_fun mi vm s2 mb2) (\<lambda>out. Inr (dumps (vm_mem vm) reqs @ out))"
    "arrives [] s2 []"
    "reqs \<noteq> [] \<Longrightarrow> \<exists>b1. mb_buf mb2 = Some b1 \<and> 4 \<le> length b1 \<and> get32 0 b1 = mt_code REQ_DUMP_MEM"
    by blast
  have "worker_turn mi vm s2 mb2 = Inr ([], None)"
    using *(2,3) assms(5) turn_closed by (auto elim: arrives_NilE simp del: mt_code.simps)
  then have "worker_fun mi vm s2 mb2 = Inr []" unfolding worker_fun.simps [of mi vm s2 mb2] by simp
  with *(1) show ?thesis by (simp del: worker_fun.simps)
qed

lemma buf_ok_empty: "buf_ok \<lparr>mb_buf = None, mb_size = 0\<rparr>"
  by (simp add: buf_ok_def)

lemma info_fields: "get64 12 (init_info_msg now sz) = sz" "length (init_info_msg now sz) = 20"
  using field64(1) [of "le_bytes 4 (unat (mt_code SEND_INFO)) @ le_bytes 8 (unat now)" 12 sz "[]"]
  by (simp_all add: init_info_msg_def del: mt_code.simps)

lemma message_padded:
  assumes "arrives (msg # ms) s s'" "msg \<noteq> []" "length msg < 2 ^ 31" "buf_ok mb"
  obtains s2 sz k where
    "recv_data s mb = (int (length msg), \<lparr>mb_buf = Some (msg @ replicate k 0), mb_size = sz\<rparr>, s2)"
    "arrives ms s2 s'" "unat sz = length msg + k"
  by (rule message_received [OF assms], rule that) auto

lemma client_run:
  assumes "arrives [d, wire_info t sz, r, q] s s'" "d \<noteq> []" "length d < 2 ^ 31"
    "r \<noteq> []" "length r < 2 ^ 31" "q \<noteq> []" "length q < 2 ^ 31"
  shows "debug_client (length r) (length q) now s =
    Inr \<lparr>co_sent = send_data (wire_dump now 0xBF000 (0xBF000 + 2000)) @ send_data (wire_simple now REQ_INFO),
         co_dump = concat (map printf_02x d), co_info = Some (sz, r, q)\<rparr>"
proof -
  obtain s1 z1 where 1: "recv_data s \<lparr>mb_buf = None, mb_size = 0\<rparr> = (int (length d), \<lparr>mb_buf = Some d, mb_size = z1\<rparr>, s1)"
    "arrives [wire_info t sz, r, q] s1 s'" "unat z1 = length d"
    by (rule message_received [OF assms(1-3) buf_ok_empty]) simp
  have ne: "wire_info t sz \<noteq> []" by (metis wire_lengths(2) list.size(3) zero_neq_numeral)
  have "buf_ok \<lparr>mb_buf = Some d, mb_size = z1\<rparr>" by (simp add: buf_ok_def 1(3))
  then obtain s2 z2 k where
    2: "recv_data s1 \<lparr>mb_buf = Some d, mb_size = z1\<rparr> =
          (20, \<lparr>mb_buf = Some (wire_info t sz @ replicate k 0), mb_size = z2\<rparr>, s2)"
    "arrives [r, q] s2 s'" "unat z2 = 20 + k"
    by (rule message_padded [OF 1(2) ne, rotated]) simp_all
  let ?b = "init_info_msg (take_bit 32 t) sz @ replicate k 0"
  have "buf_ok \<lparr>mb_buf = Some ?b, mb_size = z2\<rparr>" by (simp add: buf_ok_def 2(3) info_fields)
  from message_padded [OF 2(2) assms(4,5) this] obtain s3 z3 k' where
    3: "recv_data s2 \<lparr>mb_buf = Some ?b, mb_size = z2\<rparr> =
          (int (length r), \<lparr>mb_buf = Some (r @ replicate k' 0), mb_size = z3\<rparr>, s3)"
    "arrives [q] s3 s'" "unat z3 = length r + k'"
    by blast
  have "buf_ok \<lparr>mb_buf = Some (r @ replicate k' 0), mb_size = z3\<rparr>" by (simp add: buf_ok_def 3(3))
  from message_padded [OF 3(2) assms(6,7) this] obtain s4 z4 k'' where
    4: "recv_data s3 \<lparr>mb_buf = Some (r @ replicate k' 0), mb_size = z3\<rparr> =
          (int (length q), \<lparr>mb_buf = Some (q @ replicate k'' 0), mb_size = z4\<rparr>, s4)"
    by blast
  show ?thesis
    unfolding debug_client_def to_network(3) bind_res_simps Let_def 1(1) prod.case
    by (simp add: to_network(1) 2(1) to_host(2) copy_out_def info_fields 3(1) 4(1) 1(3))
qed

section \<open>Properties\<close>

text \<open>
  (C26) A debug session: the worker answers every dump request inside the guest memory with a
  frame holding exactly the requested bytes, in the order of the requests, and a request for
  information with the size of the memory and the registers; it then ends. If the client closes
  the connection after one or more dump requests instead, the worker ends too.
\<close>

theorem debug_session:
  assumes "vm_ok mi (vm_mem vm)" "\<forall>r \<in> set reqs. in_range (vm_mem vm) r"
    and "arrives (map (\<lambda>(now, a, b). wire_dump now a b) reqs @ [wire_simple now REQ_INFO]) s s'"
    and "arrives (map (\<lambda>(now, a, b). wire_dump now a b) reqs) t []" "reqs \<noteq> []"
  shows "worker_fun mi vm s \<lparr>mb_buf = None, mb_size = 0\<rparr> =
      Inr (dumps (vm_mem vm) reqs @ send_data (wire_info (vm_time vm) (mem_size mi)) @
        (case (vm_regs vm, vm_sregs vm) of (Some r, Some q) \<Rightarrow> send_data r @ send_data q | _ \<Rightarrow> [])) \<and>
    worker_fun mi vm t \<lparr>mb_buf = None, mb_size = 0\<rparr> = Inr (dumps (vm_mem vm) reqs)"
  using session_info [OF assms(3,2) buf_ok_empty assms(1)]
    session_closed [OF assms(4,2) buf_ok_empty assms(1,5)]
  by (simp_all del: worker_fun.simps)

definition example_vm :: vm_snapshot where
  "example_vm = \<lparr>vm_time = 0x5F000000, vm_mem = [1, 2, 3, 0xF4], vm_regs = Some [7], vm_sregs = Some [8, 9]\<rparr>"

definition example_info :: machine_info where
  "example_info = \<lparr>guest_mem_ptr = 0x7F0000000000, mem_size = 4\<rparr>"

theorem debug_session_witness:
  "worker_fun example_info example_vm
     (pieces (send_data (wire_dump 0 1 3) @ send_data (wire_simple 0 REQ_INFO)) []) \<lparr>mb_buf = None, mb_size = 0\<rparr> =
   Inr (send_data [2, 3] @ send_data (wire_info 0x5F000000 4) @ send_data [7] @ send_data [8, 9])"
proof -
  let ?w = "map (\<lambda>(now, a, b). wire_dump now a b) [(0, 1, 3)]"
  have ne: "wire_dump 0 1 3 \<noteq> []" "wire_simple 0 REQ_INFO \<noteq> []"
    by (metis wire_lengths(3) list.size(3) zero_neq_numeral) (metis wire_lengths(1) list.size(3) zero_neq_numeral)
  have "arrives (?w @ [wire_simple 0 REQ_INFO])
      (pieces (send_data (wire_dump 0 1 3) @ send_data (wire_simple 0 REQ_INFO)) []) []"
    using arrives_stream [of "?w @ [wire_simple 0 REQ_INFO]" "[]" "[]"] ne by (simp add: pieces_def)
  moreover have "arrives ?w (pieces (send_data (wire_dump 0 1 3)) []) []"
    using arrives_stream [of ?w "[]" "[]"] ne by (simp add: pieces_def)
  moreover have "vm_ok example_info (vm_mem example_vm)" by (simp add: vm_ok_def example_info_def example_vm_def)
  moreover have "\<forall>r \<in> set [(0, 1, 3)]. in_range (vm_mem example_vm) r" by (simp add: in_range_def example_vm_def)
  ultimately show ?thesis
    using debug_session [of example_info example_vm "[(0, 1, 3)]" 0]
    by (simp add: dumps_def example_info_def example_vm_def get_bytes_def del: worker_fun.simps)
qed

text \<open>
  (C38) What the debug server does not handle: a client that closes the connection before its
  first message makes the worker use a null pointer; a request that leaves the guest memory gets
  no answer at all; a range whose end is below its start, and one that starts just below the guest
  memory (an address close to \<open>2^64\<close>), pass the check and read host memory outside the guest's.
\<close>

theorem debug_server_faults:
  assumes "vm_ok mi (vm_mem vm)" "0 < k" "k \<le> guest_mem_ptr mi" "unat k < 2 ^ 31" "length (vm_mem vm) < 2 ^ 31"
    and "unat (guest_mem_ptr mi) + unat c < 2 ^ 64" "length (vm_mem vm) < unat c" "unat a \<le> length (vm_mem vm)"
    and "unat b < unat a"
  shows "worker_fun mi vm [] \<lparr>mb_buf = None, mb_size = 0\<rparr> = Inl NullDeref \<and>
    send_dump_mem mi (vm_mem vm) a c = Inr [] \<and>
    send_dump_mem mi (vm_mem vm) a b = Inl OutOfBounds \<and>
    send_dump_mem mi (vm_mem vm) (- k) 0 = Inl OutOfBounds"
proof (intro conjI)
  have "worker_turn mi vm [] \<lparr>mb_buf = None, mb_size = 0\<rparr> = Inl NullDeref"
    by (simp add: worker_turn_def recv_data_def recv_count_def)
  then show "worker_fun mi vm [] \<lparr>mb_buf = None, mb_size = 0\<rparr> = Inl NullDeref" by simp
  show "send_dump_mem mi (vm_mem vm) a c = Inr []"
    using assms by (intro dump_refused) (auto simp: vm_ok_def)
  show "send_dump_mem mi (vm_mem vm) a b = Inl OutOfBounds"
    by (rule dump_reversed [OF assms(1,9,8)])
  let ?p = "guest_mem_ptr mi"
  have v: "unat (mem_size mi) = length (vm_mem vm)" "unat ?p + length (vm_mem vm) < 2 ^ 64"
    using assms(1) by (simp_all add: vm_ok_def)
  have p: "?p \<le> ?p + mem_size mi" using v add_le_word [of ?p "mem_size mi" 0] by simp
  moreover have "?p + (- k) \<le> ?p" using assms(2,3) by (simp add: word_le_nat_alt unat_sub)
  ultimately have c: "\<not> ?p + mem_size mi < ?p - k" "\<not> ?p + mem_size mi < ?p" by auto
  have "unat (ucast (0 - (- k)) :: u32) = unat k"
    using assms(4) by (simp add: unsigned_ucast_eq take_bit_nat_eq_self)
  moreover have "unat (- k) = 2 ^ 64 - unat k"
    using unat_sub_if' [of 0 k] assms(2) by (simp add: word_gt_0 unat_eq_zero split: if_splits)
  ultimately show "send_dump_mem mi (vm_mem vm) (- k) 0 = Inl OutOfBounds"
    using assms(4,5) by (simp add: send_dump_mem_def Let_def c)
qed

theorem debug_server_faults_witness:
  "worker_fun example_info example_vm [] \<lparr>mb_buf = None, mb_size = 0\<rparr> = Inl NullDeref \<and>
   send_dump_mem example_info (vm_mem example_vm) 3 0x1000 = Inr [] \<and>
   send_dump_mem example_info (vm_mem example_vm) 3 2 = Inl OutOfBounds \<and>
   send_dump_mem example_info (vm_mem example_vm) (- 16) 0 = Inl OutOfBounds"
proof -
  have "vm_ok example_info (vm_mem example_vm)" by (simp add: vm_ok_def example_info_def example_vm_def)
  then show ?thesis
    using debug_server_faults [of example_info example_vm 16 "0x1000" 3 2]
    by (simp add: example_info_def example_vm_def del: worker_fun.simps)
qed

text \<open>
  Client and server together: the client prints the 2000 bytes of the guest memory at
  \<open>0xBF000\<close> (each as \<open>printf\<close> shows it), the size of the guest memory, and the registers the
  server obtained from KVM.
\<close>

theorem debug_exchange:
  assumes "vm_ok mi (vm_mem vm)" "0xBF000 + 2000 \<le> length (vm_mem vm)"
    and "vm_regs vm = Some r" "r \<noteq> []" "length r < 2 ^ 31" "vm_sregs vm = Some q" "q \<noteq> []" "length q < 2 ^ 31"
    and "requests = send_data (wire_dump now 0xBF000 (0xBF000 + 2000)) @ send_data (wire_simple now REQ_INFO)"
  shows "\<exists>answers. worker_fun mi vm (pieces requests []) \<lparr>mb_buf = None, mb_size = 0\<rparr> = Inr answers \<and>
    debug_client (length r) (length q) now (pieces answers []) =
      Inr \<lparr>co_sent = requests, co_dump = concat (map printf_02x (get_bytes 0xBF000 2000 (vm_mem vm))),
           co_info = Some (mem_size mi, r, q)\<rparr>"
proof -
  let ?req = "[(now, 0xBF000, 0xBF000 + 2000)]"
  let ?d = "get_bytes 0xBF000 2000 (vm_mem vm)" and ?i = "wire_info (vm_time vm) (mem_size mi)"
  let ?out = "concat (map send_data [?d, ?i, r, q])"
  have d: "length ?d = 2000" using assms(2) by (simp add: get_bytes_def)
  have ne: "wire_dump now x y \<noteq> []" "wire_simple now REQ_INFO \<noteq> []" "?i \<noteq> []" "?d \<noteq> []" for x y
    using wire_lengths d by (metis list.size(3) zero_neq_numeral)+
  have "arrives (map (\<lambda>(now, a, b). wire_dump now a b) ?req @ [wire_simple now REQ_INFO]) (pieces requests []) []"
    using arrives_stream [of "[wire_dump now 0xBF000 (0xBF000 + 2000), wire_simple now REQ_INFO]" "[]" "[]"] ne
    by (simp add: pieces_def assms(9))
  moreover have "\<forall>r \<in> set ?req. in_range (vm_mem vm) r" using assms(2) by (simp add: in_range_def)
  ultimately have "worker_fun mi vm (pieces requests []) \<lparr>mb_buf = None, mb_size = 0\<rparr> = Inr ?out"
    using session_info [of ?req now "pieces requests []" "[]" vm _ mi] buf_ok_empty assms(1,3,6)
    by (simp add: dumps_def del: worker_fun.simps)
  moreover have "arrives [?d, ?i, r, q] (pieces ?out []) []"
    using arrives_stream [of "[?d, ?i, r, q]" "[]" "[]"] ne assms(4,7) by (simp add: pieces_def)
  then have "debug_client (length r) (length q) now (pieces ?out []) =
      Inr \<lparr>co_sent = requests, co_dump = concat (map printf_02x ?d), co_info = Some (mem_size mi, r, q)\<rparr>"
    using client_run [OF _ ne(4) _ assms(4,5,7,8)] d assms(9) by simp
  ultimately show ?thesis by blast
qed

definition idle_vm :: vm_snapshot where
  "idle_vm = \<lparr>vm_time = 0x5F000000, vm_mem = replicate 0x800000 0xF4, vm_regs = Some [7], vm_sregs = Some [8]\<rparr>"

definition idle_info :: machine_info where
  "idle_info = \<lparr>guest_mem_ptr = 0x7F0000000000, mem_size = 0x800000\<rparr>"

theorem debug_exchange_witness:
  "\<exists>requests answers. worker_fun idle_info idle_vm (pieces requests []) \<lparr>mb_buf = None, mb_size = 0\<rparr> = Inr answers \<and>
    debug_client 1 1 0 (pieces answers []) =
      Inr \<lparr>co_sent = requests, co_dump = concat (replicate 2000 (printf_02x 0xF4)), co_info = Some (0x800000, [7], [8])\<rparr>"
proof -
  have "vm_ok idle_info (vm_mem idle_vm)" by (simp add: vm_ok_def idle_info_def idle_vm_def)
  moreover have "get_bytes 0xBF000 2000 (vm_mem idle_vm) = replicate 2000 0xF4" by (simp add: get_bytes_def idle_vm_def)
  moreover have "0xBF000 + 2000 \<le> length (vm_mem idle_vm)" by (simp add: idle_vm_def)
  moreover have "vm_regs idle_vm = Some [7]" "vm_sregs idle_vm = Some [8]" "mem_size idle_info = 0x800000"
    by (simp_all add: idle_vm_def idle_info_def)
  ultimately show ?thesis
    using debug_exchange [of idle_info idle_vm "[7]" "[8]" _ 0] by (auto simp del: worker_fun.simps)
qed

text \<open>How the client shows a byte: two digits below \<open>0x80\<close>, eight digits with the sign otherwise.\<close>

lemma printed_byte:
  "printf_02x 0x0A = ''0a'' \<and> printf_02x 0x7F = ''7f'' \<and> printf_02x 0x80 = ''ffffff80'' \<and> printf_02x 0xFF = ''ffffffff''"
proof -
  have "unat (scast (0x0A :: u8) :: u32) = 0x0A" "unat (scast (0x7F :: u8) :: u32) = 0x7F"
    "unat (scast (0x80 :: u8) :: u32) = 0xFFFFFF80" "unat (scast (0xFF :: u8) :: u32) = 0xFFFFFFFF"
    by (simp_all add: unsigned_minus_1_eq_mask mask_eq_exp_minus_1)
  then show ?thesis by (simp add: printf_02x_def hex_digit_def hex_str.simps)
qed

end
