(* ===== verification/GuestIo.thy ===== *)
theory GuestIo
  imports Machine
begin

text \<open>
  The programs of \<open>target\<close> and \<open>target-sources\<close> run inside the virtual machine: every port
  instruction they execute is an exit of the virtual processor, which \<open>main\<close> hands to a device
  before the program goes on. This theory is that connection: the guest's processor as far as
  port accesses go, the four widths of access, and the loop shapes the drivers use. The model of
  a driver is then a function on the processor, with the machine of \<open>Machine\<close> inside.
\<close>

section \<open>Port instructions\<close>

text \<open>
  The state of the guest between two exits: the emulated devices, the data area of \<open>kvm_run\<close>
  that carries the operands, and the interrupt calls so far.
\<close>

record cpu =
  c_machine :: machine
  c_area :: "u8 list"
  c_irqs :: "irq_event list"

text \<open>
  On an output the processor puts the operand at the start of the data area. On an input the
  area is handed over as the kernel leaves it, \<open>fill area\<close>, and the operand is what the area holds
  when the run loop is done: a device's answer, or the untouched area if no device claims the
  port. What the kernel leaves there is not part of this program, so \<open>fill\<close> is a parameter.
\<close>

type_synonym fill = "u8 list \<Rightarrow> u8 list"

definition pio_in :: "fill \<Rightarrow> nat \<Rightarrow> io_addr \<Rightarrow> cpu \<Rightarrow> (nat \<times> cpu) res" where
  "pio_in fill n port c =
     bind_res (handle_io \<lparr>io_direction = KVM_EXIT_IO_IN, io_size = of_nat n, io_port = port,
                           io_count = 1, io_data = fill (c_area c)\<rparr> (c_machine c))
       (\<lambda>(m, dat, es). Inr (le_val (get_bytes 0 n dat),
                            \<lparr>c_machine = m, c_area = dat, c_irqs = c_irqs c @ es\<rparr>))"

definition pio_out :: "nat \<Rightarrow> nat \<Rightarrow> io_addr \<Rightarrow> cpu \<Rightarrow> cpu res" where
  "pio_out n v port c =
     bind_res (handle_io \<lparr>io_direction = KVM_EXIT_IO_OUT, io_size = of_nat n, io_port = port,
                           io_count = 1, io_data = put_bytes 0 (le_bytes n v) (c_area c)\<rparr> (c_machine c))
       (\<lambda>(m, dat, es). Inr \<lparr>c_machine = m, c_area = dat, c_irqs = c_irqs c @ es\<rparr>)"

definition inputb :: "fill \<Rightarrow> io_addr \<Rightarrow> cpu \<Rightarrow> (u8 \<times> cpu) res" where
  "inputb fill port c = bind_res (pio_in fill 1 port c) (\<lambda>(v, c'). Inr (of_nat v, c'))"

definition inputw :: "fill \<Rightarrow> io_addr \<Rightarrow> cpu \<Rightarrow> (u16 \<times> cpu) res" where
  "inputw fill port c = bind_res (pio_in fill 2 port c) (\<lambda>(v, c'). Inr (of_nat v, c'))"

definition inputl :: "fill \<Rightarrow> io_addr \<Rightarrow> cpu \<Rightarrow> (u32 \<times> cpu) res" where
  "inputl fill port c = bind_res (pio_in fill 4 port c) (\<lambda>(v, c'). Inr (of_nat v, c'))"

definition outputb :: "u8 \<Rightarrow> io_addr \<Rightarrow> cpu \<Rightarrow> cpu res" where
  "outputb v port c = pio_out 1 (unat v) port c"

definition outputw :: "u16 \<Rightarrow> io_addr \<Rightarrow> cpu \<Rightarrow> cpu res" where
  "outputw v port c = pio_out 2 (unat v) port c"

definition outputl :: "u32 \<Rightarrow> io_addr \<Rightarrow> cpu \<Rightarrow> cpu res" where
  "outputl v port c = pio_out 4 (unat v) port c"

section \<open>Loops\<close>

text \<open>A driver that waits for a device may wait forever: a run that does not end is \<open>None\<close>.\<close>

definition bind_run :: "'a res option \<Rightarrow> ('a \<Rightarrow> 'b res option) \<Rightarrow> 'b res option" where
  "bind_run m k =
     (case m of None \<Rightarrow> None | Some (Inl flt) \<Rightarrow> Some (Inl flt) | Some (Inr x) \<Rightarrow> k x)"

lemma bind_run_simps [simp]:
  "bind_run None k = None" "bind_run (Some (Inl flt)) k = Some (Inl flt)"
  "bind_run (Some (Inr x)) k = k x"
  by (simp_all add: bind_run_def)

text \<open>\<open>do ... while (busy s)\<close> around the read of a status register.\<close>

partial_function (option) poll ::
  "('c \<Rightarrow> (u8 \<times> 'c) res) \<Rightarrow> (u8 \<Rightarrow> bool) \<Rightarrow> 'c \<Rightarrow> (u8 \<times> 'c) res option" where
  "poll rd busy c =
     (case rd c of
        Inl flt \<Rightarrow> Some (Inl flt)
      | Inr sc \<Rightarrow> if busy (fst sc) then poll rd busy (snd sc) else Some (Inr sc))"

declare poll.simps [code]

lemma poll_ready: "rd c = Inr (s, c') \<Longrightarrow> \<not> busy s \<Longrightarrow> poll rd busy c = Some (Inr (s, c'))"
  by (subst poll.simps) simp

text \<open>A device that stays busy is polled forever.\<close>

lemma poll_forever:
  assumes "Q c" "\<And>c. Q c \<Longrightarrow> \<exists>s c'. rd c = Inr (s, c') \<and> busy s \<and> Q c'"
  shows "poll rd busy c = None"
proof (cases "poll rd busy c")
  case (Some r)
  have "Q c \<longrightarrow> (\<forall>c. Q c \<longrightarrow> (\<exists>s c'. rd c = Inr (s, c') \<and> busy s \<and> Q c')) \<longrightarrow> False"
  proof (induction rule: poll.raw_induct [OF _ Some])
    case (1 poll rd busy c r)
    then show ?case by (fastforce split: sum.splits if_splits)
  qed
  then show ?thesis using assms by blast
qed simp

text \<open>A counting loop, over the values its variable takes.\<close>

primrec for_each :: "(nat \<Rightarrow> 's \<Rightarrow> 's res option) \<Rightarrow> nat list \<Rightarrow> 's \<Rightarrow> 's res option" where
  "for_each body [] s = Some (Inr s)"
| "for_each body (i # is) s = bind_run (body i s) (for_each body is)"

lemma for_each_cong:
  "(\<And>i s. i \<in> set is \<Longrightarrow> body i s = body' i s) \<Longrightarrow> for_each body is s = for_each body' is s"
proof (induction "is" arbitrary: s)
  case (Cons i "is")
  have "for_each body is = for_each body' is" using Cons by (intro ext) simp
  then show ?case using Cons.prems by simp
qed simp

lemma for_each_append:
  "for_each body (is @ js) s = bind_run (for_each body is s) (for_each body js)"
  by (induction "is" arbitrary: s) (auto simp: bind_run_def split: option.splits sum.splits)

section \<open>Operands\<close>

text \<open>The kernel may change what the data area holds, but not its size.\<close>

definition keeps_length :: "fill \<Rightarrow> bool" where
  "keeps_length fill \<longleftrightarrow> (\<forall>a. length (fill a) = length a)"

lemma get_bytes_put_front:
  "length bs \<le> length a \<Longrightarrow> n = length bs \<Longrightarrow> get_bytes 0 n (put_bytes 0 bs a) = bs"
  by (simp add: get_put_same)

lemma le_val_front:
  assumes "n \<le> length a" "v < 256 ^ n"
  shows "le_val (get_bytes 0 n (put_bytes 0 (le_bytes n v) a)) = v"
  using assms by (simp add: get_bytes_put_front le_val_le_bytes)

lemma length_front: "n \<le> length a \<Longrightarrow> length (put_bytes 0 (le_bytes n v) a) = length a"
  by (simp add: length_put_bytes)

lemmas pio_defs = pio_in_def pio_out_def inputb_def inputw_def outputb_def outputw_def
lemmas word_bounds = unsigned_less [where 'a = nat]

section \<open>Devices a driver talks to\<close>

text \<open>
  The interface between a driver and a device: an exit for a byte at one of the device's ports is
  an access to its registers, and changes nothing else of the machine. \<open>embed m d\<close> is the machine
  \<open>m\<close> with the device in state \<open>d\<close>; which register a port is can depend on the machine.
\<close>

locale driven_device =
  fixes ports :: "machine \<Rightarrow> io_addr \<Rightarrow> bool"
    and embed :: "machine \<Rightarrow> 'd \<Rightarrow> machine"
    and reg_out :: "machine \<Rightarrow> io_addr \<Rightarrow> u8 \<Rightarrow> 'd \<Rightarrow> 'd \<times> irq_event list"
    and reg_in :: "machine \<Rightarrow> io_addr \<Rightarrow> 'd \<Rightarrow> u8 \<times> 'd \<times> irq_event list"
  assumes exit_out: "ports m (io_port x) \<Longrightarrow> io_direction x = KVM_EXIT_IO_OUT \<Longrightarrow> io_size x = 1 \<Longrightarrow>
      io_count x = 1 \<Longrightarrow> reg_out m (io_port x) (io_param x) d = (d', es) \<Longrightarrow>
      handle_io x (embed m d) = Inr (embed m d', io_data x, es)"
    and exit_in: "ports m (io_port x) \<Longrightarrow> io_direction x = KVM_EXIT_IO_IN \<Longrightarrow> io_size x = 1 \<Longrightarrow>
      io_count x = 1 \<Longrightarrow> reg_in m (io_port x) d = (v, d', es) \<Longrightarrow>
      handle_io x (embed m d) = Inr (embed m d', io_return 1 (unat v) x, es)"
begin

text \<open>The processor in front of the machine \<open>m\<close>, whose device is in state \<open>d\<close>.\<close>

definition at_dev :: "machine \<Rightarrow> cpu \<Rightarrow> 'd \<Rightarrow> irq_event list \<Rightarrow> bool" where
  "at_dev m c d es \<longleftrightarrow> c_machine c = embed m d \<and> c_irqs c = es \<and> 4 \<le> length (c_area c)"

lemma guest_out:
  assumes "at_dev m c d es" "ports m p" "reg_out m p v d = (d', es')"
  shows "\<exists>c'. outputb v p c = Inr c' \<and> at_dev m c' d' (es @ es')"
proof -
  let ?x = "\<lparr>io_direction = KVM_EXIT_IO_OUT, io_size = 1, io_port = p, io_count = 1,
    io_data = put_bytes 0 (le_bytes 1 (unat v)) (c_area c)\<rparr>"
  have "le_val (get_bytes 0 1 (put_bytes 0 (le_bytes 1 (unat v)) (c_area c))) = unat v"
    using assms(1) word_bounds [of v] by (intro le_val_front) (simp_all add: at_dev_def)
  then have "io_param ?x = v" by (simp only: io_param_def io_exit.simps of_nat_unat ucast_id)
  then have "handle_io ?x (embed m d) = Inr (embed m d', io_data ?x, es')"
    using exit_out [of m ?x d d' es'] assms(2,3) by simp
  then show ?thesis
    using assms(1) by (simp add: pio_defs at_dev_def length_front del: le_bytes.simps One_nat_def)
qed

lemma guest_in:
  assumes "at_dev m c d es" "ports m p" "reg_in m p d = (v, d', es')" "keeps_length fill"
  shows "\<exists>c'. inputb fill p c = Inr (v, c') \<and> at_dev m c' d' (es @ es')"
proof -
  let ?x = "\<lparr>io_direction = KVM_EXIT_IO_IN, io_size = 1, io_port = p, io_count = 1,
    io_data = fill (c_area c)\<rparr>"
  have len: "4 \<le> length (fill (c_area c))" using assms(1,4) by (simp add: at_dev_def keeps_length_def)
  have "le_val (get_bytes 0 1 (put_bytes 0 (le_bytes 1 (unat v)) (fill (c_area c)))) = unat v"
    using len word_bounds [of v] by (intro le_val_front) simp_all
  moreover have "handle_io ?x (embed m d) = Inr (embed m d', io_return 1 (unat v) ?x, es')"
    using exit_in [of m ?x d v d' es'] assms(2,3) by simp
  ultimately show ?thesis
    using assms(1) len
    by (simp add: pio_defs at_dev_def io_return_def length_front del: le_bytes.simps One_nat_def)
qed

end

text \<open>The keyboard and the serial ports at their fixed addresses.\<close>

interpretation kbp: driven_device "\<lambda>m p. p \<in> {0x60, 0x64}" "\<lambda>m k. m\<lparr>m_keyb := k\<rparr>"
  "\<lambda>m. keyboard_write_reg_byte" "\<lambda>m. keyboard_read_reg_byte"
proof unfold_locales
  fix m :: machine and x :: io_exit and d d' es
  assume a: "io_port x \<in> {0x60, 0x64}" "io_direction x = KVM_EXIT_IO_OUT" "io_size x = 1" "io_count x = 1"
    "keyboard_write_reg_byte (io_port x) (io_param x) d = (d', es)"
  then have "route x (m\<lparr>m_keyb := d\<rparr>) = Keyb" by (auto simp: route_kb kb_port_def)
  then show "handle_io x (m\<lparr>m_keyb := d\<rparr>) = Inr (m\<lparr>m_keyb := d'\<rparr>, io_data x, es)"
    using a by (simp add: handle_io_route keyboard_io_def)
next
  fix m :: machine and x :: io_exit and d v d' es
  assume a: "io_port x \<in> {0x60, 0x64}" "io_direction x = KVM_EXIT_IO_IN" "io_size x = 1" "io_count x = 1"
    "keyboard_read_reg_byte (io_port x) d = (v, d', es)"
  then have "route x (m\<lparr>m_keyb := d\<rparr>) = Keyb" by (auto simp: route_kb kb_port_def)
  then show "handle_io x (m\<lparr>m_keyb := d\<rparr>) = Inr (m\<lparr>m_keyb := d'\<rparr>, io_return 1 (unat v) x, es)"
    using a by (simp add: handle_io_route keyboard_io_def)
qed

interpretation com2p: driven_device "\<lambda>m p. 0x2F8 \<le> p \<and> p \<le> 0x2FF" "\<lambda>m s. m\<lparr>m_com2 := s\<rparr>"
  "\<lambda>m p v s. (serial_port_write_reg_byte p v s, [])" "\<lambda>m p s. case serial_port_read_reg_byte p s of (v, s') \<Rightarrow> (v, s', [])"
proof unfold_locales
  fix m :: machine and x :: io_exit and d d' and es :: "irq_event list"
  assume a: "0x2F8 \<le> io_port x \<and> io_port x \<le> 0x2FF" "io_direction x = KVM_EXIT_IO_OUT" "io_size x = 1" "io_count x = 1"
    "(serial_port_write_reg_byte (io_port x) (io_param x) d, []) = (d', es)"
  then have "route x (m\<lparr>m_com2 := d\<rparr>) = Com 0x2F8"
    by (intro com_port_route) (auto simp: com_port_def com_bases_def)
  then show "handle_io x (m\<lparr>m_com2 := d\<rparr>) = Inr (m\<lparr>m_com2 := d'\<rparr>, io_data x, es)"
    using a by (simp add: handle_io_route com_effect_def com_io_def)
next
  fix m :: machine and x :: io_exit and d v d' and es :: "irq_event list"
  assume a: "0x2F8 \<le> io_port x \<and> io_port x \<le> 0x2FF" "io_direction x = KVM_EXIT_IO_IN" "io_size x = 1" "io_count x = 1"
    "(case serial_port_read_reg_byte (io_port x) d of (v, s') \<Rightarrow> (v, s', [])) = (v, d', es)"
  then have "route x (m\<lparr>m_com2 := d\<rparr>) = Com 0x2F8"
    by (intro com_port_route) (auto simp: com_port_def com_bases_def)
  then show "handle_io x (m\<lparr>m_com2 := d\<rparr>) = Inr (m\<lparr>m_com2 := d'\<rparr>, io_return 1 (unat v) x, es)"
    using a by (simp add: handle_io_route com_effect_def com_io_def case_prod_beta Let_def)
qed

section \<open>Properties\<close>

lemma handle_io_data:
  assumes "handle_io x m = Inr (m', dat, es)" "4 \<le> length (io_data x)"
  shows "length dat = length (io_data x)"
  using assms
  by (auto simp: handle_io_route keyboard_io_def vga_io_def com_effect_def com_io_def pci_io_def hdd_word_io_def
      hdd_byte_io_def io_return_def length_front length_put_bytes Let_def split: target.splits if_splits prod.splits)



end
