(* ===== verification/DiskDriver.thy ===== *)
theory DiskDriver
  imports GuestIo
begin

text \<open>
  The transfer routines of the guest's disk programs, \<open>scrivisett\<close> of
  \<open>target-sources/pci-hdd-1.cpp\<close> and \<open>leggisett\<close> of \<open>target-sources/pci-hdd-2.cpp\<close>, running on the
  emulated machine. Each port access is an exit of the run loop; the lemmas connect it with the
  register access of the disk it becomes, and follow the sector loops to their end, or to the wait
  that never ends.
\<close>

section \<open>The transfer routines\<close>

abbreviation iBR :: io_addr where "iBR \<equiv> 0x01F0 - 0x01F0"
abbreviation iCNL :: io_addr where "iCNL \<equiv> 0x01F4 - 0x01F0"
abbreviation iCNH :: io_addr where "iCNH \<equiv> 0x01F5 - 0x01F0"
abbreviation iSNR :: io_addr where "iSNR \<equiv> 0x01F3 - 0x01F0"
abbreviation iHND :: io_addr where "iHND \<equiv> 0x01F6 - 0x01F0"
abbreviation iSCR :: io_addr where "iSCR \<equiv> 0x01F2 - 0x01F0"
abbreviation iCMD :: io_addr where "iCMD \<equiv> 0x01F7 - 0x01F0"
abbreviation iSTS :: io_addr where "iSTS \<equiv> 0x01F7 - 0x01F0"
abbreviation iDCR :: io_addr where "iDCR \<equiv> 0x03F6 - 0x03F6"

text \<open>The seven outputs that start command \<open>cmd\<close>, the same in both routines.\<close>

definition start_command :: "io_addr \<Rightarrow> io_addr \<Rightarrow> u32 \<Rightarrow> u8 \<Rightarrow> u8 \<Rightarrow> cpu \<Rightarrow> cpu res" where
  "start_command bar0 bar1 lba quanti cmd c =
     (let lba_0 = ucast lba; lba_1 = ucast (drop_bit 8 lba); lba_2 = ucast (drop_bit 16 lba);
          lba_3 = ucast (drop_bit 24 lba); hnd = (lba_3 AND 0x0F) OR 0xE0
      in bind_res (outputb lba_0 (iSNR + bar0) c) (\<lambda>c.
         bind_res (outputb lba_1 (iCNL + bar0) c) (\<lambda>c.
         bind_res (outputb lba_2 (iCNH + bar0) c) (\<lambda>c.
         bind_res (outputb hnd (iHND + bar0) c) (\<lambda>c.
         bind_res (outputb quanti (iSCR + bar0) c) (\<lambda>c.
         bind_res (outputb 0x0A (iDCR + bar1) c) (\<lambda>c.
         outputb cmd (iCMD + bar0) c)))))))"

definition busy_bit :: "u8 \<Rightarrow> bool" where
  "busy_bit s \<longleftrightarrow> s AND 0x80 \<noteq> 0"

definition no_data :: "u8 \<Rightarrow> bool" where
  "no_data s \<longleftrightarrow> s AND 0x88 \<noteq> 0x08"

text \<open>
  The first wait of \<open>scrivisett\<close> reads port \<open>iSTS\<close>, without the base address. The vector is read
  at \<open>vetto[i*512/2 + j]\<close>, out of bounds if it is too short.
\<close>

definition scrivi_parola :: "io_addr \<Rightarrow> u16 list \<Rightarrow> nat \<Rightarrow> nat \<Rightarrow> cpu \<Rightarrow> cpu res option" where
  "scrivi_parola bar0 vetto i j c =
     Some (if length vetto \<le> i * 512 div 2 + j then Inl OutOfBounds
           else outputw (vetto ! (i * 512 div 2 + j)) (iBR + bar0) c)"

definition scrivi_settori :: "fill \<Rightarrow> io_addr \<Rightarrow> u16 list \<Rightarrow> nat \<Rightarrow> cpu \<Rightarrow> cpu res option" where
  "scrivi_settori fill bar0 vetto i c =
     bind_run (poll (inputb fill (iSTS + bar0)) no_data c) (\<lambda>(s, c).
       for_each (scrivi_parola bar0 vetto i) [0..<512 div 2] c)"

definition scrivisett ::
  "fill \<Rightarrow> io_addr \<Rightarrow> io_addr \<Rightarrow> u32 \<Rightarrow> u8 \<Rightarrow> u16 list \<Rightarrow> cpu \<Rightarrow> cpu res option" where
  "scrivisett fill bar0 bar1 lba quanti vetto c =
     bind_run (poll (inputb fill iSTS) busy_bit c) (\<lambda>(s, c).
     bind_run (Some (start_command bar0 bar1 lba quanti 0x30 c)) (\<lambda>c.
     for_each (scrivi_settori fill bar0 vetto) [0..<unat quanti] c))"

text \<open>The state of \<open>leggisett\<close> includes the vector it fills.\<close>

definition leggi_parola ::
  "fill \<Rightarrow> io_addr \<Rightarrow> nat \<Rightarrow> nat \<Rightarrow> u16 list \<times> cpu \<Rightarrow> (u16 list \<times> cpu) res option" where
  "leggi_parola fill bar0 i j s =
     Some (let (vetti, c) = s in
       bind_res (inputw fill (iBR + bar0) c) (\<lambda>(w, c').
         if length vetti \<le> i * 512 div 2 + j then Inl OutOfBounds
         else Inr (vetti[i * 512 div 2 + j := w], c')))"

definition leggi_settori ::
  "fill \<Rightarrow> io_addr \<Rightarrow> nat \<Rightarrow> u16 list \<times> cpu \<Rightarrow> (u16 list \<times> cpu) res option" where
  "leggi_settori fill bar0 i s =
     (let (vetti, c) = s in
      bind_run (poll (inputb fill (iSTS + bar0)) no_data c) (\<lambda>(s, c).
        for_each (leggi_parola fill bar0 i) [0..<512 div 2] (vetti, c)))"

definition leggisett ::
  "fill \<Rightarrow> io_addr \<Rightarrow> io_addr \<Rightarrow> u32 \<Rightarrow> u8 \<Rightarrow> u16 list \<Rightarrow> cpu \<Rightarrow> (u16 list \<times> cpu) res option" where
  "leggisett fill bar0 bar1 lba quanti vetti c =
     bind_run (poll (inputb fill (iSTS + bar0)) busy_bit c) (\<lambda>(s, c).
     bind_run (Some (start_command bar0 bar1 lba quanti 0x20 c)) (\<lambda>c.
     for_each (leggi_settori fill bar0) [0..<unat quanti] (vetti, c)))"

section \<open>The disk behind its ports\<close>

text \<open>
  The controller has I/O base addresses where no fixed device is: the eight task file ports and
  the control port are free and distinct, and port 7 is not one of them.
\<close>

definition ide_at :: "io_addr \<Rightarrow> io_addr \<Rightarrow> machine \<Rightarrow> bool" where
  "ide_at b0 b1 m \<longleftrightarrow>
     getBar 0 (m_devices m ! 0) = ucast b0 \<and> getBar 1 (m_devices m ! 0) = ucast b1 \<and>
     8 \<le> unat b0 \<and> unat b0 + 7 < 2 ^ 16 \<and> 8 \<le> unat b1 \<and> unat b1 + 1 < 2 ^ 16 \<and>
     (unat b1 < unat b0 \<or> unat b0 + 7 < unat b1) \<and>
     (\<forall>i\<le>7. free_port (b0 + of_nat i)) \<and> free_port b1"

text \<open>The processor in front of the machine \<open>m\<close>, whose disk is in state \<open>d\<close>.\<close>

definition at_disk :: "machine \<Rightarrow> cpu \<Rightarrow> hard_disk \<Rightarrow> irq_event list \<Rightarrow> bool" where
  "at_disk m c d es \<longleftrightarrow> c_machine c = m\<lparr>m_hdd := d\<rparr> \<and> c_irqs c = es \<and> 4 \<le> length (c_area c)"

lemma ucast_ucast_u16: "ucast (ucast (a :: u16) :: u32) = a"
  by (rule bit_word_eqI) (simp add: bit_simps)

lemma unat_offset:
  assumes "unat (b :: u16) + 7 < 2 ^ 16" "i \<le> 7"
  shows "unat (b + of_nat i) = unat b + i"
  using assms by (simp add: unat_word_ariths unat_of_nat)

lemma bar_range:
  assumes "unat (b :: u16) + k < 2 ^ 16"
  shows "ucast p \<ge> (ucast b :: u32) \<and> ucast p \<le> (ucast b :: u32) + of_nat k \<longleftrightarrow>
    unat b \<le> unat (p :: u16) \<and> unat p \<le> unat b + k"
proof -
  have "unat ((ucast b :: u32) + of_nat k) = unat b + k"
    using assms by (simp add: unat_word_ariths unat_ucast_u16 unat_of_nat)
  then show ?thesis by (simp add: word_le_nat_alt unat_ucast_u16)
qed

lemma route_ide:
  assumes "ide_at b0 b1 m" "io_count x = 1"
  shows "i \<le> 7 \<Longrightarrow> io_port x = b0 + of_nat i \<Longrightarrow> io_size x = 1 \<Longrightarrow> route x m = DiskByte"
    and "io_port x = b0 \<Longrightarrow> io_size x = 2 \<Longrightarrow> route x m = DiskWord"
    and "io_port x = b1 \<Longrightarrow> io_size x = 1 \<Longrightarrow> route x m = DiskByte"
    and "io_port x = 7 \<Longrightarrow> io_size x = 1 \<Longrightarrow> route x m = Nobody"
proof -
  note ide = assms(1) [unfolded ide_at_def]
  have in0: "ucast p \<ge> getBar 0 (m_devices m ! 0) \<and> ucast p \<le> getBar 0 (m_devices m ! 0) + 7 \<longleftrightarrow>
      unat b0 \<le> unat p \<and> unat p \<le> unat b0 + 7" for p :: u16
    using bar_range [of b0 7 p] ide by simp
  have in1: "ucast p \<ge> getBar 1 (m_devices m ! 0) \<and> ucast p \<le> getBar 1 (m_devices m ! 0) + 1 \<longleftrightarrow>
      unat b1 \<le> unat p \<and> unat p \<le> unat b1 + 1" for p :: u16
    using bar_range [of b1 1 p] ide by simp
  have free: "\<not> kb_port x \<and> io_port x \<noteq> 0x03D4 \<and> io_port x \<noteq> 0x03D5 \<and> \<not> pci_port (io_port x) \<and>
      \<not> com_port 0x3f8 x \<and> \<not> com_port 0x2f8 x \<and> \<not> com_port 0x3e8 x \<and> \<not> com_port 0x2e8 x"
    if "free_port (io_port x)"
    using that by (auto simp: free_port_def kb_port_def com_port_def com_bases_def)
  note r = route_def [of x m, unfolded Let_def in0 in1]
  show "route x m = DiskByte" if "i \<le> 7" "io_port x = b0 + of_nat i" "io_size x = 1"
    using that free assms(2) ide unat_offset [of b0 i] by (simp add: r)
  show "route x m = DiskWord" if "io_port x = b0" "io_size x = 2"
  proof -
    have "free_port b0" using ide by (auto dest: spec [of _ 0])
    then show ?thesis using that free assms(2) ide by (simp add: r)
  qed
  show "route x m = DiskByte" if "io_port x = b1" "io_size x = 1"
    using that free assms(2) ide by (auto simp: r)
  show "route x m = Nobody" if "io_port x = 7" "io_size x = 1"
    using that assms(2) ide by (simp add: r kb_port_def com_port_def pci_port_def)
qed

lemma ata_translate_ide:
  assumes "ide_at b0 b1 m"
  shows "i \<le> 7 \<Longrightarrow> ata_translate (m_devices m ! 0) (b0 + of_nat i) = 0x01F0 + of_nat i"
    and "ata_translate (m_devices m ! 0) b1 = DCR_addr"
proof -
  note ide = assms [unfolded ide_at_def]
  show "ata_translate (m_devices m ! 0) (b0 + of_nat i) = 0x01F0 + of_nat i" if "i \<le> 7"
    using that ide unat_offset [of b0 i] by (simp add: ata_translate_def ucast_ucast_u16 Let_def)
  show "ata_translate (m_devices m ! 0) b1 = DCR_addr"
    using ide by (auto simp: ata_translate_def ucast_ucast_u16 Let_def)
qed

text \<open>The task file and control registers of the disk, at the ports the controller maps them to.\<close>

definition ide_port :: "machine \<Rightarrow> io_addr \<Rightarrow> bool" where
  "ide_port m p \<longleftrightarrow> (\<exists>b0 b1. ide_at b0 b1 m \<and> ((\<exists>i\<le>7. p = b0 + of_nat i) \<or> p = b1))"

lemma route_ide_port:
  assumes "ide_port m (io_port x)" "io_size x = 1" "io_count x = 1"
  shows "route x (m\<lparr>m_hdd := d\<rparr>) = DiskByte"
proof -
  obtain b0 b1 where "ide_at b0 b1 m" and p: "(\<exists>i\<le>7. io_port x = b0 + of_nat i) \<or> io_port x = b1"
    using assms(1) by (auto simp: ide_port_def)
  then have "ide_at b0 b1 (m\<lparr>m_hdd := d\<rparr>)" by (simp add: ide_at_def)
  then show ?thesis using route_ide(1,3) assms(2,3) p by blast
qed

interpretation idep: driven_device ide_port "\<lambda>m d. m\<lparr>m_hdd := d\<rparr>"
  "\<lambda>m p. HardDisk_write_reg_byte (ata_translate (m_devices m ! 0) p)"
  "\<lambda>m p. HardDisk_read_reg_byte (ata_translate (m_devices m ! 0) p)"
  by unfold_locales
    (simp_all add: handle_io_route route_ide_port hdd_byte_io_def PCI_ATA_write_reg_byte_def PCI_ATA_read_reg_byte_def)

lemma at_disk_dev: "at_disk = idep.at_dev"
  by (intro ext) (simp add: at_disk_def idep.at_dev_def)

lemma guest_outputb:
  assumes "ide_at b0 b1 m" "at_disk m c d es" "HardDisk_write_reg_byte a v d = (d', es')"
    "i \<le> 7 \<and> p = b0 + of_nat i \<and> a = 0x01F0 + of_nat i \<or> p = b1 \<and> a = DCR_addr"
  shows "\<exists>c'. outputb v p c = Inr c' \<and> at_disk m c' d' (es @ es')"
proof -
  have "ide_port m p" "ata_translate (m_devices m ! 0) p = a"
    using assms(1,4) ata_translate_ide [OF assms(1)] by (auto simp: ide_port_def)
  then show ?thesis using idep.guest_out assms(2,3) unfolding at_disk_dev by simp
qed

lemma guest_inputb:
  assumes "ide_at b0 b1 m" "at_disk m c d es" "HardDisk_read_reg_byte (0x01F0 + of_nat i) d = (v, d', es')"
    "i \<le> 7" "keeps_length fill"
  shows "\<exists>c'. inputb fill (b0 + of_nat i) c = Inr (v, c') \<and> at_disk m c' d' (es @ es')"
proof -
  have "ide_port m (b0 + of_nat i)" "ata_translate (m_devices m ! 0) (b0 + of_nat i) = 0x01F0 + of_nat i"
    using assms(1,4) ata_translate_ide(1) [OF assms(1)] by (auto simp: ide_port_def)
  then show ?thesis using idep.guest_in assms(2,3,5) unfolding at_disk_dev by simp
qed

lemma guest_outputw:
  assumes "ide_at b0 b1 m" "at_disk m c d es" "HardDisk_write_reg_word BR_addr w d = Inr (d', es')"
  shows "\<exists>c'. outputw w b0 c = Inr c' \<and> at_disk m c' d' (es @ es')"
proof -
  let ?x = "\<lparr>io_direction = KVM_EXIT_IO_OUT, io_size = 2, io_port = b0, io_count = 1,
    io_data = put_bytes 0 (le_bytes 2 (unat w)) (c_area c)\<rparr>"
  let ?m = "m\<lparr>m_hdd := d\<rparr>"
  have ide: "ide_at b0 b1 ?m" using assms(1) by (simp add: ide_at_def)
  have rt: "route ?x ?m = DiskWord" using route_ide(2) [OF ide, of ?x] by simp
  have tr: "ata_translate (m_devices m ! 0) b0 = BR_addr"
    using ata_translate_ide(1) [OF assms(1), of 0] by simp
  have "le_val (get_bytes 0 2 (put_bytes 0 (le_bytes 2 (unat w)) (c_area c))) = unat w"
    using assms(2) word_bounds [of w] by (intro le_val_front) (simp_all add: at_disk_def)
  then have "io_param_word ?x = w" by (simp only: io_param_word_def io_exit.simps of_nat_unat ucast_id)
  then show ?thesis
    using assms(2,3) rt
    by (simp add: pio_defs at_disk_def handle_io_route hdd_word_io_def PCI_ATA_write_reg_word_def tr
        length_front del: le_bytes.simps)
qed

lemma guest_inputw:
  assumes "ide_at b0 b1 m" "at_disk m c d es" "HardDisk_read_reg_word BR_addr d = Inr (w, d', es')"
    "keeps_length fill"
  shows "\<exists>c'. inputw fill b0 c = Inr (w, c') \<and> at_disk m c' d' (es @ es')"
proof -
  let ?x = "\<lparr>io_direction = KVM_EXIT_IO_IN, io_size = 2, io_port = b0, io_count = 1,
    io_data = fill (c_area c)\<rparr>"
  let ?m = "m\<lparr>m_hdd := d\<rparr>"
  have ide: "ide_at b0 b1 ?m" using assms(1) by (simp add: ide_at_def)
  have rt: "route ?x ?m = DiskWord" using route_ide(2) [OF ide, of ?x] by simp
  have tr: "ata_translate (m_devices m ! 0) b0 = BR_addr"
    using ata_translate_ide(1) [OF assms(1), of 0] by simp
  have len: "4 \<le> length (fill (c_area c))" using assms(2,4) by (simp add: at_disk_def keeps_length_def)
  have "le_val (get_bytes 0 2 (put_bytes 0 (le_bytes 2 (unat w)) (fill (c_area c)))) = unat w"
    using len word_bounds [of w] by (intro le_val_front) simp_all
  then show ?thesis
    using assms(2,3) rt len
    by (simp add: pio_defs at_disk_def handle_io_route hdd_word_io_def PCI_ATA_read_reg_word_def tr
        io_return_def length_front del: le_bytes.simps)
qed

text \<open>No device answers on port 7: the program sees what the data area held.\<close>

lemma guest_input_nobody:
  assumes "ide_at b0 b1 m" "at_disk m c d es" "keeps_length fill"
  shows "\<exists>c'. inputb fill 7 c = Inr (fill (c_area c) ! 0, c') \<and> at_disk m c' d es \<and>
    c_area c' = fill (c_area c)"
proof -
  let ?x = "\<lparr>io_direction = KVM_EXIT_IO_IN, io_size = 1, io_port = 7, io_count = 1,
    io_data = fill (c_area c)\<rparr>"
  let ?m = "m\<lparr>m_hdd := d\<rparr>"
  have ide: "ide_at b0 b1 ?m" using assms(1) by (simp add: ide_at_def)
  have rt: "route ?x ?m = Nobody" using route_ide(4) [OF ide, of ?x] by simp
  have len: "4 \<le> length (fill (c_area c))" using assms(2,3) by (simp add: at_disk_def keeps_length_def)
  then obtain b bs where "fill (c_area c) = b # bs" by (cases "fill (c_area c)") auto
  then show ?thesis
    using assms(2) rt len by (simp add: pio_defs at_disk_def handle_io_route get_bytes_def)
qed

subsection \<open>Starting a command\<close>

text \<open>The driver's register writes have the effect of programming the task file with interrupts
  off.\<close>

definition quiet :: "hard_disk \<Rightarrow> hard_disk" where
  "quiet d = d\<lparr>hd_DCR := 0x02, hd_interrupt_enabled := False, hd_interrupt_raised := False\<rparr>"

lemma start_command_run:
  assumes "ide_at b0 b1 m" "at_disk m c d es"
    "hd_run (task_file n l cmd) (quiet d) = Inr (d', [], es')"
  shows "\<exists>c'. start_command b0 b1 l n cmd c = Inr c' \<and> at_disk m c' d' (es @ es')"
proof -
  let ?hnd = "(ucast (drop_bit 24 l) AND 0x0F) OR 0xE0"
  have out: "\<exists>c'. outputb v (of_nat i + b0) c = Inr c' \<and> at_disk m c' d' (es @ es')"
    if "at_disk m c d es" "HardDisk_write_reg_byte (0x01F0 + of_nat i) v d = (d', es')" "i \<le> 7"
    for v i c d d' es es'
    using guest_outputb [OF assms(1) that(1,2), of i "of_nat i + b0"] that(3) by (simp add: add.commute)
  obtain c1 where c1: "outputb (ucast l) (3 + b0) c = Inr c1" "at_disk m c1 (d\<lparr>hd_SNR := ucast l\<rparr>) es"
    using out [OF assms(2), of 3 "ucast l"] by (auto simp: HardDisk_write_reg_byte_def)
  obtain c2 where c2: "outputb (ucast (drop_bit 8 l)) (4 + b0) c1 = Inr c2"
    "at_disk m c2 (d\<lparr>hd_SNR := ucast l, hd_CNL := ucast (drop_bit 8 l)\<rparr>) es"
    using out [OF c1(2), of 4 "ucast (drop_bit 8 l)"] by (auto simp: HardDisk_write_reg_byte_def)
  obtain c3 where c3: "outputb (ucast (drop_bit 16 l)) (5 + b0) c2 = Inr c3"
    "at_disk m c3 (d\<lparr>hd_SNR := ucast l, hd_CNL := ucast (drop_bit 8 l), hd_CNH := ucast (drop_bit 16 l)\<rparr>) es"
    using out [OF c2(2), of 5 "ucast (drop_bit 16 l)"] by (auto simp: HardDisk_write_reg_byte_def)
  obtain c4 where c4: "outputb ?hnd (6 + b0) c3 = Inr c4"
    "at_disk m c4 (d\<lparr>hd_SNR := ucast l, hd_CNL := ucast (drop_bit 8 l), hd_CNH := ucast (drop_bit 16 l),
      hd_HND := ?hnd\<rparr>) es"
    using out [OF c3(2), of 6 ?hnd] by (auto simp: HardDisk_write_reg_byte_def)
  obtain c5 where c5: "outputb n (2 + b0) c4 = Inr c5"
    "at_disk m c5 (d\<lparr>hd_SNR := ucast l, hd_CNL := ucast (drop_bit 8 l), hd_CNH := ucast (drop_bit 16 l),
      hd_HND := ?hnd, hd_SCR := n\<rparr>) es"
    using out [OF c4(2), of 2 n] by (auto simp: HardDisk_write_reg_byte_def)
  obtain c6 where c6: "outputb 0x0A b1 c5 = Inr c6"
    "at_disk m c6 (quiet (d\<lparr>hd_SNR := ucast l, hd_CNL := ucast (drop_bit 8 l),
      hd_CNH := ucast (drop_bit 16 l), hd_HND := ?hnd, hd_SCR := n\<rparr>)) es"
    using guest_outputb [OF assms(1) c5(2), of DCR_addr "0x0A" _ _ 0 b1]
    by (auto simp: HardDisk_write_reg_byte_def quiet_def)
  have "(quiet (d\<lparr>hd_SNR := ucast l, hd_CNL := ucast (drop_bit 8 l), hd_CNH := ucast (drop_bit 16 l),
      hd_HND := ?hnd, hd_SCR := n\<rparr>))\<lparr>hd_CMD := cmd\<rparr> = task_regs n l cmd (quiet d)"
    by (intro hard_disk.equality) (simp_all add: task_regs_def quiet_def)
  then have "HardDisk_process_cmd ((quiet (d\<lparr>hd_SNR := ucast l, hd_CNL := ucast (drop_bit 8 l),
      hd_CNH := ucast (drop_bit 16 l), hd_HND := ?hnd, hd_SCR := n\<rparr>))\<lparr>hd_CMD := cmd\<rparr>) = (d', es')"
    using assms(3) by (simp add: task_file_run prod_eq_iff)
  then obtain c7 where "outputb cmd (7 + b0) c6 = Inr c7" "at_disk m c7 d' (es @ es')"
    using out [OF c6(2), of 7 cmd] by (auto simp: HardDisk_write_reg_byte_def)
  then show ?thesis
    using c1 c2 c3 c4 c5 c6 by (simp add: start_command_def Let_def)
qed


subsection \<open>Writing sectors\<close>

text \<open>Waiting for data on a disk whose interrupt is not pending looks at the status only.\<close>

lemma wait_status:
  assumes "ide_at b0 b1 m" "at_disk m c d es" "keeps_length fill" "\<not> hd_interrupt_raised d"
  shows "\<not> busy (hd_STS d) \<Longrightarrow>
      \<exists>c'. poll (inputb fill (7 + b0)) busy c = Some (Inr (hd_STS d, c')) \<and> at_disk m c' d es"
    and "busy (hd_STS d) \<Longrightarrow> poll (inputb fill (7 + b0)) busy c = None"
proof -
  have rd: "\<exists>c'. inputb fill (7 + b0) c = Inr (hd_STS d, c') \<and> at_disk m c' d es"
    if "at_disk m c d es" for c
  proof -
    have "HardDisk_read_reg_byte (0x01F0 + of_nat 7) d = (hd_STS d, d, [])"
      using assms(4) by (simp add: HardDisk_read_reg_byte_def)
    from guest_inputb [OF assms(1) that this _ assms(3)] show ?thesis by (simp add: add.commute)
  qed
  show "\<exists>c'. poll (inputb fill (7 + b0)) busy c = Some (Inr (hd_STS d, c')) \<and> at_disk m c' d es"
    if "\<not> busy (hd_STS d)"
    using rd [OF assms(2)] poll_ready [of "inputb fill (7 + b0)" c "hd_STS d" _ busy] that by auto
  show "poll (inputb fill (7 + b0)) busy c = None" if "busy (hd_STS d)"
    using rd that by (intro poll_forever [of "\<lambda>c. at_disk m c d es"] assms(2)) blast
qed

lemma guest_write_words:
  assumes "ide_at b0 b1 m" "at_disk m c d es" "hd_run (map (\<lambda>j. OutW BR_addr (f j)) js) d = Inr (d', vs, es')"
  shows "\<exists>c'. for_each (\<lambda>j c. Some (outputw (f j) b0 c)) js c = Some (Inr c') \<and>
    at_disk m c' d' (es @ es')"
  using assms(2,3)
proof (induction js arbitrary: c d es vs es')
  case (Cons j js)
  obtain d1 e1 vs2 e2 where st: "HardDisk_write_reg_word BR_addr (f j) d = Inr (d1, e1)"
    "hd_run (map (\<lambda>j. OutW BR_addr (f j)) js) d1 = Inr (d', vs2, e2)" "es' = e1 @ e2"
    using Cons.prems(2) by (auto simp: then_run_eq_Inr)
  obtain c1 where c1: "outputw (f j) b0 c = Inr c1" "at_disk m c1 d1 (es @ e1)"
    using guest_outputw [OF assms(1) Cons.prems(1) st(1)] by blast
  show ?case using Cons.IH [OF c1(2) st(2)] c1(1) st(3) by simp
qed simp

text \<open>The words of sector \<open>i\<close> of a vector.\<close>

definition sector_of :: "'a list \<Rightarrow> nat \<Rightarrow> 'a list" where
  "sector_of v i = get_bytes (256 * i) 256 v"

lemma length_sector_of: "256 * Suc i \<le> length v \<Longrightarrow> length (sector_of v i) = 256"
  by (simp add: sector_of_def get_bytes_def)

lemma sector_of_map:
  assumes "256 * Suc i \<le> length v"
  shows "sector_of v i = map (\<lambda>j. v ! (i * 512 div 2 + j)) [0..<512 div 2]"
  using assms by (intro nth_equalityI) (simp_all add: sector_of_def get_bytes_def mult.commute)

lemma scrivi_settore:
  assumes "ide_at b0 b1 m" "at_disk m c d es" "hd_current_position d = 0"
    "length (hd_internal_buffer d) = 512" "\<not> hd_interrupt_enabled d" "256 * Suc i \<le> length v"
  shows "\<exists>c'. for_each (scrivi_parola b0 v i) [0..<512 div 2] c = Some (Inr c') \<and>
    at_disk m c' (sector_written (sector_of v i) d) es"
proof -
  let ?f = "\<lambda>j. v ! (i * 512 div 2 + j)"
  have run: "hd_run (map (\<lambda>j. OutW BR_addr (?f j)) [0..<512 div 2]) d =
      Inr (sector_written (sector_of v i) d, [], [])"
    using write_sector [OF assms(3,4) length_sector_of [OF assms(6)]] assms(5)
    by (simp add: sector_of_map [OF assms(6)] comp_def)
  have "for_each (scrivi_parola b0 v i) [0..<512 div 2] c =
      for_each (\<lambda>j c. Some (outputw (?f j) b0 c)) [0..<512 div 2] c"
    using assms(6) by (intro for_each_cong) (simp add: scrivi_parola_def)
  then show ?thesis using guest_write_words [OF assms(1,2) run] by (simp only: append_Nil2)
qed

text \<open>
  The sector loop of \<open>scrivisett\<close>, from a disk that requests data. It waits forever exactly if the
  disk stops requesting before the last sector.
\<close>

definition write_ready :: "nat \<Rightarrow> hard_disk \<Rightarrow> bool" where
  "write_ready nb d \<longleftrightarrow> hd_current_position d = 0 \<and> length (hd_internal_buffer d) = 512 \<and>
     hd_disk_manager d = disk_of nb \<and> disk_ok nb (hd_file d) \<and> sts_wf (hd_STS d) \<and>
     \<not> hd_interrupt_enabled d \<and> \<not> hd_interrupt_raised d"

lemma sector_written_ready:
  assumes "write_ready nb d" "length ws = 256" "unat (hd_lba d) + hd_current_sector_number d < nb"
  shows "write_ready nb (sector_written ws d)"
    and "hd_file (sector_written ws d) =
      file_put (sector_bytes ws) (unat (hd_lba d) + hd_current_sector_number d) (hd_file d)"
    and "no_data (hd_STS (sector_written ws d)) \<longleftrightarrow> hd_sector_numbers_cmd d = hd_current_sector_number d + 1"
proof -
  note r = assms(1) [unfolded write_ready_def]
  show fl: "hd_file (sector_written ws d) =
      file_put (sector_bytes ws) (unat (hd_lba d) + hd_current_sector_number d) (hd_file d)"
    using r assms(2,3) by (intro sector_written_file [of d nb]) simp_all
  have sts: "hd_STS (sector_written ws d) =
      sector_status (hd_sector_numbers_cmd d = hd_current_sector_number d + 1) (hd_STS d)"
    by (simp add: sector_written_def)
  then have "sts_wf (hd_STS (sector_written ws d))" using r by (simp add: sector_status_def Let_def)
  then show "write_ready nb (sector_written ws d)"
    using r assms(2) fl file_put_ok [of nb "hd_file d" _ "sector_bytes ws"] assms(3)
    by (simp add: write_ready_def) (simp add: sector_written_def)
  show "no_data (hd_STS (sector_written ws d)) \<longleftrightarrow> hd_sector_numbers_cmd d = hd_current_sector_number d + 1"
    using sector_status_wf [of "hd_STS d"] r by (simp add: sts no_data_def)
qed

lemma write_loop:
  assumes "ide_at b0 b1 m" "keeps_length fill" "at_disk m c d es" "write_ready nb d"
    "\<not> no_data (hd_STS d)" "256 * (i + k) \<le> length v"
    "unat (hd_lba d) + hd_current_sector_number d + k \<le> nb"
  shows "if hd_current_sector_number d < hd_sector_numbers_cmd d \<and>
        hd_sector_numbers_cmd d < hd_current_sector_number d + k
    then for_each (scrivi_settori fill b0 v) [i..<i + k] c = None
    else \<exists>c' d'. for_each (scrivi_settori fill b0 v) [i..<i + k] c = Some (Inr c') \<and>
      at_disk m c' d' es \<and> write_ready nb d' \<and>
      hd_file d' = disk.wr_run (map (\<lambda>i. sector_bytes (sector_of v i)) [i..<i + k])
        (unat (hd_lba d) + hd_current_sector_number d) (hd_file d) \<and>
      hd_lba d' = hd_lba d \<and> hd_current_sector_number d' = hd_current_sector_number d + k"
  using assms(3-7)
proof (induction k arbitrary: c d i)
  case 0
  then show ?case by auto
next
  case (Suc k)
  let ?ws = "sector_of v i"
  let ?d = "sector_written ?ws d"
  have len: "256 * Suc i \<le> length v" using Suc.prems(4) by simp
  note ready = sector_written_ready [OF Suc.prems(2) length_sector_of [OF len]]
  have lt: "unat (hd_lba d) + hd_current_sector_number d < nb" using Suc.prems(5) by simp
  obtain c1 where c1: "poll (inputb fill (7 + b0)) no_data c = Some (Inr (hd_STS d, c1))" "at_disk m c1 d es"
    using wait_status(1) [OF assms(1) Suc.prems(1) assms(2), of no_data] Suc.prems(2,3)
    by (auto simp: write_ready_def)
  obtain c2 where "for_each (scrivi_parola b0 v i) [0..<512 div 2] c1 = Some (Inr c2)"
    and at2: "at_disk m c2 ?d es"
    using scrivi_settore [OF assms(1) c1(2), of i v] Suc.prems(2) len by (auto simp: write_ready_def)
  then have step: "scrivi_settori fill b0 v i c = Some (Inr c2)"
    using c1(1) by (simp add: scrivi_settori_def)
  have upt: "[i..<Suc (i + k)] = i # [Suc i..<Suc (i + k)]" by (simp add: upt_conv_Cons)
  show ?case
  proof (cases "hd_sector_numbers_cmd d = hd_current_sector_number d + 1")
    case True
    then have "scrivi_settori fill b0 v j c2 = None" for j
      using wait_status(2) [OF assms(1) at2 assms(2), of no_data] ready [OF lt]
      by (simp add: scrivi_settori_def write_ready_def)
    then have hang: "for_each (scrivi_settori fill b0 v) [i..<i + Suc k] c = None" if "k \<noteq> 0"
      using that by (cases k) (simp_all add: upt step upt_conv_Cons del: upt_Suc)
    show ?thesis
    proof (cases "k = 0")
      case k: True
      then show ?thesis using True step at2 ready [OF lt] by auto
    qed (use hang True in simp)
  next
    case False
    then show ?thesis
      using Suc.IH [OF at2, of "Suc i"] ready [OF lt] Suc.prems(4,5)
      by (auto simp: upt step simp del: upt_Suc split: if_splits)
  qed
qed


subsection \<open>Reading sectors\<close>

lemma guest_read_words:
  assumes "ide_at b0 b1 m" "keeps_length fill" "at_disk m c d es"
    "hd_run (replicate k (InW BR_addr)) d = Inr (d', ws, es')" "256 * i + j + k \<le> length v"
  shows "\<exists>c'. for_each (leggi_parola fill b0 i) [j..<j + k] (v, c) =
      Some (Inr (put_bytes (256 * i + j) ws v, c')) \<and> at_disk m c' d' (es @ es')"
  using assms(3-5)
proof (induction k arbitrary: c d es ws es' j v)
  case 0
  then show ?case by (simp add: put_bytes_def)
next
  case (Suc k)
  obtain d1 w e1 vs2 e2 where st: "HardDisk_read_reg_word BR_addr d = Inr (w, d1, e1)"
    "hd_run (replicate k (InW BR_addr)) d1 = Inr (d', vs2, e2)" "ws = w # vs2" "es' = e1 @ e2"
    using Suc.prems(2) by (auto simp: then_run_eq_Inr)
  obtain c1 where c1: "inputw fill b0 c = Inr (w, c1)" "at_disk m c1 d1 (es @ e1)"
    using guest_inputw [OF assms(1) Suc.prems(1) st(1) assms(2)] by blast
  have lt: "256 * i + j < length v" using Suc.prems(3) by simp
  obtain c2 where "for_each (leggi_parola fill b0 i) [Suc j..<Suc j + k] (v[256 * i + j := w], c1) =
      Some (Inr (put_bytes (Suc (256 * i + j)) vs2 (v[256 * i + j := w]), c2))"
    "at_disk m c2 d' ((es @ e1) @ e2)"
    using Suc.IH [OF c1(2) st(2), of "Suc j" "v[256 * i + j := w]"] Suc.prems(3) by auto
  moreover have "leggi_parola fill b0 i j (v, c) = Some (Inr (v[256 * i + j := w], c1))"
    using c1(1) lt by (simp add: leggi_parola_def mult.commute [of i])
  moreover have "[j..<Suc (j + k)] = j # [Suc j..<Suc (j + k)]" by (simp add: upt_conv_Cons)
  ultimately show ?case
    using lt st(3,4) by (simp add: put_bytes_Cons del: upt_Suc)
qed

text \<open>The disk after a sector was read: finished, or with the next block in its buffer.\<close>

lemma leggi_settore:
  assumes "ide_at b0 b1 m" "keeps_length fill" "at_disk m c d es" "write_ready nb d"
    "256 * Suc i \<le> length v"
  shows "\<exists>c' d'. for_each (leggi_parola fill b0 i) [0..<512 div 2] (v, c) =
      Some (Inr (put_bytes (256 * i) (sector_words (hd_internal_buffer d)) v, c')) \<and>
    at_disk m c' d' es \<and> write_ready nb d' \<and> hd_file d' = hd_file d \<and> hd_lba d' = hd_lba d \<and>
    hd_sector_numbers_cmd d' = hd_sector_numbers_cmd d \<and>
    (no_data (hd_STS d') \<longleftrightarrow> hd_sector_numbers_cmd d = hd_current_sector_number d) \<and>
    (hd_sector_numbers_cmd d \<noteq> hd_current_sector_number d \<longrightarrow>
       hd_current_sector_number d' = hd_current_sector_number d + 1 \<and>
       (unat (hd_lba d) + hd_current_sector_number d < nb \<longrightarrow> hd_internal_buffer d' =
          file_block (unat (hd_lba d) + hd_current_sector_number d) (hd_file d)))"
proof -
  note r = assms(4) [unfolded write_ready_def]
  let ?fin = "hd_sector_numbers_cmd d = hd_current_sector_number d"
  let ?d = "if ?fin then (sector_read d)\<lparr>hd_STS := sector_status True (hd_STS d)\<rparr>
    else fst (read_from_backend (sector_read d))"
  have quiet: "read_from_backend (sector_read d) = (fst (read_from_backend (sector_read d)), [])"
    using r by (simp add: read_from_backend_def sector_read_def Let_def)
  then have run: "hd_run (replicate 256 (InW BR_addr)) d = Inr (?d, sector_words (hd_internal_buffer d), [])"
    using read_sector [of d] r by (auto split: prod.split)
  have lba: "hd_lba d + of_nat (hd_current_sector_number d) =
      of_nat (unat (hd_lba d) + hd_current_sector_number d)" by simp
  have "\<exists>c'. for_each (leggi_parola fill b0 i) [0..<512 div 2] (v, c) =
      Some (Inr (put_bytes (256 * i) (sector_words (hd_internal_buffer d)) v, c')) \<and> at_disk m c' ?d es"
    using guest_read_words [OF assms(1-3) run, of i 0 v] assms(5) by (simp del: upt_conv_Cons)
  moreover have sts: "hd_STS ?d = sector_status ?fin (hd_STS d)"
    by (simp add: read_from_backend_def sector_read_def sector_status_def Let_def)
  moreover have "no_data (hd_STS ?d) \<longleftrightarrow> ?fin"
    using sector_status_wf [of "hd_STS d" ?fin] r by (simp add: sts no_data_def)
  moreover have "write_ready nb ?d"
  proof -
    have "sts_wf (hd_STS ?d)" using r by (simp add: sts sector_status_def Let_def)
    then show ?thesis
      using r by (auto simp: write_ready_def read_from_backend_def sector_read_def Let_def
          length_DiskManager_read)
  qed
  moreover have "unat (hd_lba d) + hd_current_sector_number d < nb \<Longrightarrow> \<not> ?fin \<Longrightarrow> hd_internal_buffer ?d =
      file_block (unat (hd_lba d) + hd_current_sector_number d) (hd_file d)"
    using r DiskManager_read_ok [of nb "hd_file d" "unat (hd_lba d) + hd_current_sector_number d"]
    by (simp add: read_from_backend_def sector_read_def Let_def lba del: of_nat_add)
  moreover have "hd_file ?d = hd_file d" "hd_lba ?d = hd_lba d"
    "hd_sector_numbers_cmd ?d = hd_sector_numbers_cmd d"
    "\<not> ?fin \<Longrightarrow> hd_current_sector_number ?d = hd_current_sector_number d + 1"
    by (simp_all add: read_from_backend_def sector_read_def Let_def)
  ultimately show ?thesis by blast
qed


text \<open>
  The sector loop of \<open>leggisett\<close>. The words come from the buffer first, then from the blocks that
  follow; the loop waits forever exactly if the disk stops before the last sector.
\<close>

definition words_from :: "nat \<Rightarrow> nat \<Rightarrow> hard_disk \<Rightarrow> u16 list" where
  "words_from n k d = concat (map (\<lambda>i. sector_words (file_block i (hd_file d))) [n..<n + k])"

lemma words_from_Suc:
  "words_from n (Suc k) d = sector_words (file_block n (hd_file d)) @ words_from (Suc n) k d"
  by (simp add: words_from_def upt_conv_Cons del: upt_Suc)

lemma length_sector_words: "length (sector_words bs) = length bs div 2"
  by (simp add: sector_words_def)

lemma length_words_from:
  assumes "disk_ok nb (hd_file d)" "n + k \<le> nb"
  shows "length (words_from n k d) = 256 * k"
  using assms(2)
proof (induction k arbitrary: n)
  case (Suc k)
  have "length (file_block n (hd_file d)) = 512"
    using assms(1) Suc.prems by (auto simp: disk_ok_def file_block_def get_bytes_def)
  then show ?case using Suc by (simp add: words_from_Suc length_sector_words)
qed (simp add: words_from_def)

lemma read_loop:
  assumes "ide_at b0 b1 m" "keeps_length fill" "at_disk m c d es" "write_ready nb d"
    "\<not> no_data (hd_STS d)" "256 * (i + Suc k) \<le> length v"
    "unat (hd_lba d) + hd_current_sector_number d + k \<le> nb"
  shows "if hd_current_sector_number d \<le> hd_sector_numbers_cmd d \<and>
        hd_sector_numbers_cmd d < hd_current_sector_number d + k
    then for_each (leggi_settori fill b0) [i..<i + Suc k] (v, c) = None
    else \<exists>c' d'. for_each (leggi_settori fill b0) [i..<i + Suc k] (v, c) =
        Some (Inr (put_bytes (256 * i) (sector_words (hd_internal_buffer d) @
          words_from (unat (hd_lba d) + hd_current_sector_number d) k d) v, c')) \<and>
      at_disk m c' d' es \<and> write_ready nb d' \<and> hd_file d' = hd_file d \<and> hd_lba d' = hd_lba d"
  using assms(3-7)
proof (induction k arbitrary: c d i v)
  case 0
  obtain c1 where c1: "poll (inputb fill (7 + b0)) no_data c = Some (Inr (hd_STS d, c1))" "at_disk m c1 d es"
    using wait_status(1) [OF assms(1) "0.prems"(1) assms(2), of no_data] "0.prems"(2,3)
    by (auto simp: write_ready_def)
  have "256 * Suc i \<le> length v" using "0.prems"(4) by simp
  from leggi_settore [OF assms(1,2) c1(2) "0.prems"(2) this]
  show ?case using c1(1) by (auto simp: leggi_settori_def words_from_def simp del: upt_conv_Cons)
next
  case (Suc k)
  let ?n = "unat (hd_lba d) + hd_current_sector_number d"
  let ?B = "sector_words (hd_internal_buffer d)"
  obtain c1 where c1: "poll (inputb fill (7 + b0)) no_data c = Some (Inr (hd_STS d, c1))" "at_disk m c1 d es"
    using wait_status(1) [OF assms(1) Suc.prems(1) assms(2), of no_data] Suc.prems(2,3)
    by (auto simp: write_ready_def)
  have len: "256 * Suc i \<le> length v" using Suc.prems(4) by simp
  have lt: "?n < nb" using Suc.prems(5) by simp
  obtain c2 d2 where s2: "for_each (leggi_parola fill b0 i) [0..<512 div 2] (v, c1) =
      Some (Inr (put_bytes (256 * i) ?B v, c2))" "at_disk m c2 d2 es" "write_ready nb d2"
    "hd_file d2 = hd_file d" "hd_lba d2 = hd_lba d" "hd_sector_numbers_cmd d2 = hd_sector_numbers_cmd d"
    "no_data (hd_STS d2) \<longleftrightarrow> hd_sector_numbers_cmd d = hd_current_sector_number d"
    "hd_sector_numbers_cmd d \<noteq> hd_current_sector_number d \<Longrightarrow>
       hd_current_sector_number d2 = hd_current_sector_number d + 1 \<and>
       hd_internal_buffer d2 = file_block ?n (hd_file d)"
    using leggi_settore [OF assms(1,2) c1(2) Suc.prems(2) len] lt by blast
  have step: "leggi_settori fill b0 i (v, c) = Some (Inr (put_bytes (256 * i) ?B v, c2))"
    using c1(1) s2(1) by (simp add: leggi_settori_def)
  have upt: "[i..<Suc (Suc (i + k))] = i # [Suc i..<Suc (Suc (i + k))]" by (simp add: upt_conv_Cons)
  have lenB: "length ?B = 256" using Suc.prems(2) by (simp add: write_ready_def length_sector_words)
  show ?case
  proof (cases "hd_sector_numbers_cmd d = hd_current_sector_number d")
    case True
    then have "leggi_settori fill b0 j (v', c2) = None" for j v'
      using wait_status(2) [OF assms(1) s2(2) assms(2), of no_data] s2(3,7)
      by (simp add: leggi_settori_def write_ready_def)
    then have "for_each (leggi_settori fill b0) [i..<Suc (Suc (i + k))] (v, c) = None"
      by (simp add: upt step upt_conv_Cons del: upt_Suc)
    then show ?thesis using True by (simp del: upt_Suc)
  next
    case False
    have app: "put_bytes (256 * Suc i) ws (put_bytes (256 * i) ?B v) = put_bytes (256 * i) (?B @ ws) v"
      if "length ws = 256 * Suc k" for ws
      using put_bytes_append [of "256 * i" ?B v ws] lenB that Suc.prems(4) by (simp add: add.commute)
    have lenw: "length (words_from ?n (Suc k) d) = 256 * Suc k"
      using Suc.prems(2,5) by (intro length_words_from [of nb]) (simp_all add: write_ready_def)
    have w2: "words_from a b d2 = words_from a b d" for a b by (simp add: words_from_def s2(4))
    have "length (put_bytes (256 * i) ?B v) = length v" using len lenB by (simp add: length_put_bytes)
    then show ?thesis
      using Suc.IH [OF s2(2,3), of "Suc i" "put_bytes (256 * i) ?B v"] False s2(4-8) Suc.prems(4,5)
        app [of "words_from ?n (Suc k) d", OF lenw]
      by (auto simp: upt step words_from_Suc w2 simp del: upt_Suc split: if_splits)
  qed
qed


section \<open>Whole transfers\<close>

text \<open>The disk of a machine between two commands.\<close>

definition disk_idle :: "nat \<Rightarrow> hard_disk \<Rightarrow> bool" where
  "disk_idle nb d \<longleftrightarrow> hd_inv d \<and> hd_current_position d = 0 \<and> hd_disk_manager d = disk_of nb \<and>
     disk_ok nb (hd_file d) \<and> hd_STS d AND 0x80 = 0"

text \<open>What the kernel leaves in the data area has bit 7 of its first byte clear.\<close>

definition clears_bit7 :: "fill \<Rightarrow> bool" where
  "clears_bit7 fill \<longleftrightarrow> (\<forall>a. a \<noteq> [] \<longrightarrow> fill a ! 0 AND 0x80 = 0)"

lemma data_requested:
  "sts_wf s \<Longrightarrow> \<not> no_data ((s OR DRQ_MASK) AND NOT BUSY_MASK)"
  "sts_wf s \<Longrightarrow> \<not> no_data ((s AND NOT BUSY_MASK) OR DRQ_MASK)"
  by (auto simp: no_data_def sts_wf_def)

lemma quiet_idle: "disk_idle nb d \<Longrightarrow> write_ready nb (quiet d)"
  by (simp add: disk_idle_def write_ready_def hd_inv_def quiet_def)

lemma quiet_fields [simp]:
  "hd_file (quiet d) = hd_file d" "hd_lba (quiet d) = hd_lba d" "hd_STS (quiet d) = hd_STS d"
  "hd_current_sector_number (quiet d) = hd_current_sector_number d"
  "hd_internal_buffer (quiet d) = hd_internal_buffer d" "hd_disk_manager (quiet d) = hd_disk_manager d"
  "\<not> hd_interrupt_enabled (quiet d)" "\<not> hd_interrupt_raised (quiet d)"
  "hd_current_position (quiet d) = hd_current_position d"
  by (simp_all add: quiet_def)

lemma write_ready_idle:
  "write_ready nb d \<Longrightarrow> hd_STS d AND 0x80 = 0 \<Longrightarrow> disk_idle nb d"
  by (simp add: disk_idle_def write_ready_def hd_inv_def)

text \<open>The write routine after its first wait.\<close>

lemma scrivisett_body:
  assumes "ide_at b0 b1 m" "keeps_length fill" "at_disk m c d es" "disk_idle nb d"
    "256 * unat n \<le> length v" "unat l + hd_current_sector_number d + unat n \<le> nb"
  shows "if 0 < hd_current_sector_number d \<and> hd_current_sector_number d < unat n
    then bind_run (Some (start_command b0 b1 l n 0x30 c))
      (for_each (scrivi_settori fill b0 v) [0..<unat n]) = None
    else \<exists>c' d'. bind_run (Some (start_command b0 b1 l n 0x30 c))
        (for_each (scrivi_settori fill b0 v) [0..<unat n]) = Some (Inr c') \<and>
      at_disk m c' d' es \<and> write_ready nb d' \<and>
      hd_file d' = disk.wr_run (map (\<lambda>i. sector_bytes (sector_of v i)) [0..<unat n])
        (unat l + hd_current_sector_number d) (hd_file d) \<and>
      hd_lba d' = l \<and> hd_current_sector_number d' = hd_current_sector_number d + unat n"
proof -
  let ?d = "(task_regs n l 0x30 (quiet d))\<lparr>hd_STS := (hd_STS d OR DRQ_MASK) AND NOT BUSY_MASK,
    hd_lba := l, hd_sector_numbers_cmd := unat n\<rparr>"
  have "unat l < 2 ^ 28" using assms(4,6) by (simp add: disk_idle_def disk_ok_def)
  then have "hd_run (task_file n l 0x30) (quiet d) = Inr (?d, [], [])"
    using write_command_state [of l n "quiet d"] by simp
  then obtain c1 where c1: "start_command b0 b1 l n 0x30 c = Inr c1" "at_disk m c1 ?d es"
    using start_command_run [OF assms(1,3), of n l "0x30" ?d "[]"] by auto
  have "sts_wf (hd_STS d)" using assms(4) by (simp add: disk_idle_def hd_inv_def)
  then have rdy: "write_ready nb ?d" "\<not> no_data (hd_STS ?d)"
    using quiet_idle [OF assms(4)] data_requested(1) [of "hd_STS d"]
    by (simp_all add: write_ready_def task_regs_def)
  have f: "hd_current_sector_number ?d = hd_current_sector_number d" "hd_lba ?d = l"
    "hd_sector_numbers_cmd ?d = unat n" "hd_file ?d = hd_file d"
    by (simp_all add: task_regs_def)
  have pre: "256 * (0 + unat n) \<le> length v" "unat (hd_lba ?d) + hd_current_sector_number ?d + unat n \<le> nb"
    unfolding f using assms(5,6) by simp_all
  have hang: "hd_current_sector_number d < unat n \<and> unat n < hd_current_sector_number d + unat n \<longleftrightarrow>
      0 < hd_current_sector_number d \<and> hd_current_sector_number d < unat n" by auto
  from write_loop [OF assms(1,2) c1(2) rdy pre] show ?thesis
    unfolding f c1(1) bind_run_simps add_0 hang .
qed

lemma leggisett_body:
  assumes "ide_at b0 b1 m" "keeps_length fill" "at_disk m c d es" "disk_idle nb d" "n \<noteq> 0"
    "256 * unat n \<le> length v" "unat l + hd_current_sector_number d + unat n \<le> nb"
    "unat (hd_lba d) + hd_current_sector_number d < nb"
  shows "if 0 < hd_current_sector_number d \<and> hd_current_sector_number d < unat n
    then bind_run (Some (start_command b0 b1 l n 0x20 c))
      (\<lambda>c. for_each (leggi_settori fill b0) [0..<unat n] (v, c)) = None
    else \<exists>c' d'. bind_run (Some (start_command b0 b1 l n 0x20 c))
        (\<lambda>c. for_each (leggi_settori fill b0) [0..<unat n] (v, c)) =
        Some (Inr (put_bytes 0
          (sector_words (file_block (unat (hd_lba d) + hd_current_sector_number d) (hd_file d)) @
           words_from (unat l + hd_current_sector_number d + 1) (unat n - 1) d) v, c')) \<and>
      at_disk m c' d' es \<and> write_ready nb d' \<and> hd_file d' = hd_file d \<and> hd_lba d' = l"
proof -
  have "unat l < 2 ^ 28" using assms(4,7) by (simp add: disk_idle_def disk_ok_def)
  then obtain d1 where d1: "hd_run (task_file n l 0x20) (quiet d) = Inr (d1, [], [])"
    "hd_internal_buffer d1 = file_block (unat (hd_lba d) + hd_current_sector_number d) (hd_file d)"
    "hd_lba d1 = l" "hd_sector_numbers_cmd d1 = unat n"
    "hd_current_sector_number d1 = hd_current_sector_number d + 1"
    "hd_current_position d1 = 0" "hd_file d1 = hd_file d" "hd_disk_manager d1 = disk_of nb"
    "hd_interrupt_enabled d1 = False" "hd_STS d1 = (hd_STS d AND NOT BUSY_MASK) OR DRQ_MASK"
    using read_command_state [of l "quiet d" nb n] assms(4,8) by (auto simp: disk_idle_def hd_inv_def)
  have inv: "hd_inv d1"
    using hd_run_inv [OF _ d1(1)] assms(4) by (simp add: disk_idle_def hd_inv_def)
  have "\<not> hd_interrupt_raised d1"
    using d1(1) by (auto simp: task_file_run HardDisk_process_cmd_def read_from_backend_def
        task_regs_def Let_def)
  moreover have "sts_wf (hd_STS d)" using assms(4) by (simp add: disk_idle_def hd_inv_def)
  ultimately have rdy: "write_ready nb d1" "\<not> no_data (hd_STS d1)"
    using d1 inv assms(4) data_requested(2) [of "hd_STS d"]
    by (simp_all add: write_ready_def hd_inv_def disk_idle_def)
  obtain c1 where c1: "start_command b0 b1 l n 0x20 c = Inr c1" "at_disk m c1 d1 es"
    using start_command_run [OF assms(1,3) d1(1)] by auto
  have n: "0 + Suc (unat n - 1) = unat n" using assms(5) by (simp add: unat_gt_0)
  have w: "words_from k j d1 = words_from k j d" for k j by (simp add: words_from_def d1(7))
  have hang: "hd_current_sector_number d + 1 \<le> unat n \<and> unat n < hd_current_sector_number d + 1 + (unat n - 1) \<longleftrightarrow>
      0 < hd_current_sector_number d \<and> hd_current_sector_number d < unat n"
    using n by auto
  have pre: "256 * (0 + Suc (unat n - 1)) \<le> length v"
    "unat (hd_lba d1) + hd_current_sector_number d1 + (unat n - 1) \<le> nb"
    unfolding n d1 using assms(6,7) n by simp_all
  from read_loop [OF assms(1,2) c1(2) rdy pre] show ?thesis
    unfolding c1(1) bind_run_simps d1(2-5,7) w n hang mult_0_right add.assoc [symmetric] .
qed


lemma at_disk_self: "4 \<le> length (c_area c) \<Longrightarrow> at_disk (c_machine c) c (m_hdd (c_machine c)) (c_irqs c)"
  by (simp add: at_disk_def)

text \<open>The first wait of \<open>scrivisett\<close>, on port 7.\<close>

lemma first_wait:
  assumes "ide_at b0 b1 m" "at_disk m c d es" "keeps_length fill" "clears_bit7 fill"
  shows "\<exists>s c'. poll (inputb fill iSTS) busy_bit c = Some (Inr (s, c')) \<and> at_disk m c' d es"
proof -
  have "c_area c \<noteq> []" using assms(2) by (auto simp: at_disk_def)
  then have "\<not> busy_bit (fill (c_area c) ! 0)" using assms(4) by (simp add: clears_bit7_def busy_bit_def)
  then show ?thesis
    using guest_input_nobody [OF assms(1-3)] poll_ready [of "inputb fill 7" c] by fastforce
qed

lemma scrivisett_run:
  assumes "ide_at b0 b1 m" "keeps_length fill" "clears_bit7 fill" "at_disk m c d es" "disk_idle nb d"
    "256 * unat n \<le> length v" "unat l + hd_current_sector_number d + unat n \<le> nb"
  shows "if 0 < hd_current_sector_number d \<and> hd_current_sector_number d < unat n
    then scrivisett fill b0 b1 l n v c = None
    else \<exists>c' d'. scrivisett fill b0 b1 l n v c = Some (Inr c') \<and>
      at_disk m c' d' es \<and> write_ready nb d' \<and>
      hd_file d' = disk.wr_run (map (\<lambda>i. sector_bytes (sector_of v i)) [0..<unat n])
        (unat l + hd_current_sector_number d) (hd_file d) \<and>
      hd_lba d' = l \<and> hd_current_sector_number d' = hd_current_sector_number d + unat n"
proof -
  obtain s c1 where c1: "poll (inputb fill iSTS) busy_bit c = Some (Inr (s, c1))" "at_disk m c1 d es"
    using first_wait [OF assms(1,4,2,3)] by blast
  have "scrivisett fill b0 b1 l n v c = bind_run (Some (start_command b0 b1 l n 0x30 c1))
      (for_each (scrivi_settori fill b0 v) [0..<unat n])"
    using c1(1) by (simp add: scrivisett_def del: upt.simps)
  then show ?thesis using scrivisett_body [OF assms(1,2) c1(2) assms(5-7)] by (simp only:)
qed

lemma leggisett_run:
  assumes "ide_at b0 b1 m" "keeps_length fill" "at_disk m c d es" "disk_idle nb d"
    "\<not> hd_interrupt_raised d" "n \<noteq> 0" "256 * unat n \<le> length v"
    "unat l + hd_current_sector_number d + unat n \<le> nb"
    "unat (hd_lba d) + hd_current_sector_number d < nb"
  shows "if 0 < hd_current_sector_number d \<and> hd_current_sector_number d < unat n
    then leggisett fill b0 b1 l n v c = None
    else \<exists>c' d'. leggisett fill b0 b1 l n v c =
        Some (Inr (put_bytes 0
          (sector_words (file_block (unat (hd_lba d) + hd_current_sector_number d) (hd_file d)) @
           words_from (unat l + hd_current_sector_number d + 1) (unat n - 1) d) v, c')) \<and>
      at_disk m c' d' es \<and> write_ready nb d' \<and> hd_file d' = hd_file d \<and> hd_lba d' = l"
proof -
  have "\<not> busy_bit (hd_STS d)" using assms(4) by (simp add: disk_idle_def busy_bit_def)
  then obtain c1 where c1: "poll (inputb fill (iSTS + b0)) busy_bit c = Some (Inr (hd_STS d, c1))"
    "at_disk m c1 d es"
    using wait_status(1) [OF assms(1,3,2,5), of busy_bit] by auto
  have "leggisett fill b0 b1 l n v c = bind_run (Some (start_command b0 b1 l n 0x20 c1))
      (\<lambda>c. for_each (leggi_settori fill b0) [0..<unat n] (v, c))"
    using c1(1) by (simp add: leggisett_def del: upt.simps)
  then show ?thesis using leggisett_body [OF assms(1,2) c1(2) assms(4,6-9)] by (simp only:)
qed

text \<open>The blocks of an image after a run of sectors was written to it.\<close>

lemma written_blocks:
  assumes "disk_ok nb f" "256 * n \<le> length v" "b + n \<le> nb"
  shows "disk_ok nb (disk.wr_run (map (\<lambda>i. sector_bytes (sector_of v i)) [0..<n]) b f)"
    and "k < nb \<Longrightarrow> file_block k (disk.wr_run (map (\<lambda>i. sector_bytes (sector_of v i)) [0..<n]) b f) =
      (if b \<le> k \<and> k < b + n then sector_bytes (sector_of v (k - b)) else file_block k f)"
proof -
  have blk: "list_all (\<lambda>b. length b = 512) (map (\<lambda>i. sector_bytes (sector_of v i)) [0..<n])"
    using assms(2) by (auto simp: list_all_iff length_sector_of)
  show "disk_ok nb (disk.wr_run (map (\<lambda>i. sector_bytes (sector_of v i)) [0..<n]) b f)"
    using disk.wr_run_ok [OF assms(1) _ blk, of b] assms(3) by simp
  show "file_block k (disk.wr_run (map (\<lambda>i. sector_bytes (sector_of v i)) [0..<n]) b f) =
      (if b \<le> k \<and> k < b + n then sector_bytes (sector_of v (k - b)) else file_block k f)" if "k < nb"
    using disk.wr_run_rd [OF assms(1) _ blk that, of b] assms(3) by auto
qed

end
