(* ===== verification/DiskPrograms.thy ===== *)
theory DiskPrograms
  imports DiskDriver
begin

text \<open>
  The guest programs that use the disk, \<open>target-sources/pci-hdd-1.cpp\<close> and
  \<open>target-sources/pci-hdd-2.cpp\<close>: the search for the IDE controller in configuration space and the
  two \<open>main\<close> functions, from power-on to the text they print. The configuration accesses
  \<open>pci_read_confw\<close> and \<open>pci_read_confl\<close> belong to the library \<open>libce\<close>, so they are arguments;
  \<open>reads_config_words\<close> and \<open>reads_config_longs\<close> state what they are documented to do.
\<close>

section \<open>The programs\<close>

subsection \<open>Finding the controller\<close>

text \<open>A configuration read: bus, device, function, offset.\<close>

type_synonym 'w conf_read = "u8 \<Rightarrow> u8 \<Rightarrow> u8 \<Rightarrow> u8 \<Rightarrow> cpu \<Rightarrow> ('w \<times> cpu) res"

text \<open>The two nested loops of \<open>cerca_bm\<close>; without a hit the counters are left at 32 and 8.\<close>

primrec cerca_funs :: "u16 conf_read \<Rightarrow> u8 \<Rightarrow> nat list \<Rightarrow> cpu \<Rightarrow> (u8 option \<times> cpu) res" where
  "cerca_funs confw dev [] c = Inr (None, c)"
| "cerca_funs confw dev (f # fs) c =
     bind_res (confw 0 dev (of_nat f) 10 c) (\<lambda>(w, c').
       if w = 0x0101 then Inr (Some (of_nat f), c') else cerca_funs confw dev fs c')"

primrec cerca_devs :: "u16 conf_read \<Rightarrow> nat list \<Rightarrow> cpu \<Rightarrow> ((u8 \<times> u8) \<times> cpu) res" where
  "cerca_devs confw [] c = Inr ((32, 8), c)"
| "cerca_devs confw (d # ds) c =
     bind_res (cerca_funs confw (of_nat d) [0..<8] c) (\<lambda>(r, c').
       case r of Some f \<Rightarrow> Inr ((of_nat d, f), c') | None \<Rightarrow> cerca_devs confw ds c')"

definition cerca_bm :: "u16 conf_read \<Rightarrow> cpu \<Rightarrow> ((u8 \<times> u8) \<times> cpu) res" where
  "cerca_bm confw c = cerca_devs confw [0..<32] c"

subsection \<open>The main functions\<close>

text \<open>
  The result of a \<open>main\<close> is the text it writes on the screen before it waits for a key. The static
  \<open>buff\<close> holds 8 sectors; the casts to \<open>natw*\<close> read two bytes of it as a little-endian word.
\<close>

definition find_disk ::
  "u16 conf_read \<Rightarrow> u32 conf_read \<Rightarrow> cpu \<Rightarrow> ((io_addr \<times> io_addr) \<times> cpu) res" where
  "find_disk confw confl c =
     bind_res (cerca_bm confw c) (\<lambda>((dev, fun'), c).
     bind_res (confl 0 dev fun' 16 c) (\<lambda>(b0, c).
     bind_res (confl 0 dev fun' 20 c) (\<lambda>(b1, c).
     Inr ((ucast b0, ucast b1), c))))"

definition main_hdd_1 ::
  "fill \<Rightarrow> u16 conf_read \<Rightarrow> u32 conf_read \<Rightarrow> cpu \<Rightarrow> (string \<times> cpu) res option" where
  "main_hdd_1 fill confw confl c =
     bind_run (Some (find_disk confw confl c)) (\<lambda>((bar0, bar1), c).
       let lba = 1; quanti = 2;
           buff = replicate (2 * 512) (of_char CHR ''c'') @ replicate (6 * 512) 0
       in bind_run (scrivisett fill bar0 bar1 lba quanti (sector_words buff) c) (\<lambda>c.
          Some (Inr (''OK'' @ [CHR 0x0A], c))))"

definition main_hdd_2 ::
  "fill \<Rightarrow> u16 conf_read \<Rightarrow> u32 conf_read \<Rightarrow> cpu \<Rightarrow> (u8 list \<times> cpu) res option" where
  "main_hdd_2 fill confw confl c =
     bind_run (Some (find_disk confw confl c)) (\<lambda>((bar0, bar1), c).
       let lba = 1; quanti = 2
       in bind_run (leggisett fill bar0 bar1 lba quanti (sector_words (replicate (8 * 512) 0)) c)
         (\<lambda>(vetti, c). Some (Inr (take (unat quanti * 512) (sector_bytes vetti) @ [0x0A], c))))"

section \<open>Finding the controller\<close>

text \<open>
  The layout of a configuration address, and what a configuration read of the library does: it
  writes the address of the double word to port 0xCF8 and reads from the data port that
  corresponds to the low bits of the offset.
\<close>

definition conf_address :: "u8 \<Rightarrow> u8 \<Rightarrow> u8 \<Rightarrow> u8 \<Rightarrow> u32" where
  "conf_address bus dev f off =
     of_nat (2 ^ 31 + unat bus * 2 ^ 16 + unat dev * 2 ^ 11 + unat f * 2 ^ 8 + unat off div 4 * 4)"

definition reads_config_words :: "fill \<Rightarrow> u16 conf_read \<Rightarrow> bool" where
  "reads_config_words fill confw \<longleftrightarrow>
     (\<forall>bus dev f off c. confw bus dev f off c =
        bind_res (outputl (conf_address bus dev f off) CAP_addr c)
          (inputw fill (CDP_addr + of_nat (unat off mod 4))))"

definition reads_config_longs :: "fill \<Rightarrow> u32 conf_read \<Rightarrow> bool" where
  "reads_config_longs fill confl \<longleftrightarrow>
     (\<forall>bus dev f off c. confl bus dev f off c =
        bind_res (outputl (conf_address bus dev f off) CAP_addr c)
          (inputl fill (CDP_addr + of_nat (unat off mod 4))))"

lemma unat_and_mask_eq: "unat (w AND mask n :: u32) = unat w mod 2 ^ n"
  unfolding take_bit_eq_mask [symmetric] unsigned_take_bit_eq by (simp add: take_bit_eq_mod)

lemma div_split: "r < k \<Longrightarrow> (q * k + r) div k = (q :: nat) \<and> (q * k + r) mod k = r"
  by simp

lemma conf_address_fields:
  assumes "unat dev < 32" "unat f < 8"
  shows "unat (drop_bit 16 (conf_address 0 dev f off) AND 0xFF) = 0"
    and "unat (drop_bit 11 (conf_address 0 dev f off) AND 0x1F) = unat dev"
    and "unat (drop_bit 8 (conf_address 0 dev f off) AND 0x7) = unat f"
    and "unat (conf_address 0 dev f off AND 0xFF) = unat off div 4 * 4"
proof -
  let ?o = "unat off div 4 * 4"
  have o: "?o < 256" using unat_u8_less [of off] by simp
  let ?a = "2 ^ 31 + unat dev * 2 ^ 11 + unat f * 2 ^ 8 + ?o"
  have a: "unat (conf_address 0 dev f off) = ?a"
    unfolding conf_address_def using assms o by (subst unat_of_nat_word) simp_all
  have m: "(0xFF :: u32) = mask 8" "(0x1F :: u32) = mask 5" "(0x7 :: u32) = mask 3"
    by (simp_all add: mask_eq_exp_minus_1)
  have "?a = 2 ^ 15 * 2 ^ 16 + (unat dev * 2 ^ 11 + unat f * 2 ^ 8 + ?o)" by simp
  then have "?a div 2 ^ 16 = 2 ^ 15"
    using div_split [of "unat dev * 2 ^ 11 + unat f * 2 ^ 8 + ?o" "2 ^ 16" "2 ^ 15"] assms o by simp
  moreover have "?a = (2 ^ 20 + unat dev) * 2 ^ 11 + (unat f * 2 ^ 8 + ?o)" by simp
  then have "?a div 2 ^ 11 = 2 ^ 20 + unat dev"
    using div_split [of "unat f * 2 ^ 8 + ?o" "2 ^ 11" "2 ^ 20 + unat dev"] assms o by simp
  moreover have "?a = (2 ^ 23 + unat dev * 8 + unat f) * 2 ^ 8 + ?o" by simp
  then have "?a div 2 ^ 8 = 2 ^ 23 + unat dev * 8 + unat f" "?a mod 2 ^ 8 = ?o"
    using div_split [of ?o "2 ^ 8" "2 ^ 23 + unat dev * 8 + unat f"] o by (simp_all add: mult.commute)
  ultimately show "unat (drop_bit 16 (conf_address 0 dev f off) AND 0xFF) = 0"
    "unat (drop_bit 11 (conf_address 0 dev f off) AND 0x1F) = unat dev"
    "unat (drop_bit 8 (conf_address 0 dev f off) AND 0x7) = unat f"
    "unat (conf_address 0 dev f off AND 0xFF) = ?o"
    using div_split [of "unat dev" 32 "2 ^ 15"] div_split [of "unat f" 8 "2 ^ 20 + unat dev"] assms
    unfolding m unat_and_mask_eq unat_drop_bit_word a by (simp_all add: algebra_simps)
qed

text \<open>The processor in front of the machine \<open>m\<close>, up to the address register of the bridge.\<close>

definition at_bus :: "machine \<Rightarrow> cpu \<Rightarrow> irq_event list \<Rightarrow> bool" where
  "at_bus m c es \<longleftrightarrow> (\<exists>h. c_machine c = m\<lparr>m_pci := h\<rparr> \<and> ph_devices h = ph_devices (m_pci m)) \<and>
     c_irqs c = es \<and> 4 \<le> length (c_area c)"

lemma prepare_data_bus_wf:
  assumes "devices_wf h ds"
  shows "bus_wf (prepare_data (h\<lparr>ph_CAP := a\<rparr>), ds)"
  using assms prepare_data_ranges [of "h\<lparr>ph_CAP := a\<rparr>"]
  by (simp add: bus_wf_def devices_wf_def prepare_data_def)

lemma route_config:
  assumes "io_port x \<in> {0xcf8, 0xcfc, 0xcfe}" "io_size x \<noteq> 1"
  shows "route x m = PciBridge"
  using assms by (auto simp: route_def kb_port_def com_port_def pci_port_def Let_def)

lemma outputl_CAP:
  assumes "4 \<le> length (c_area c)"
  shows "\<exists>a. outputl v CAP_addr c = Inr \<lparr>c_machine = (c_machine c)\<lparr>m_pci :=
      prepare_data ((m_pci (c_machine c))\<lparr>ph_CAP := v\<rparr>)\<rparr>, c_area = a, c_irqs = c_irqs c\<rparr> \<and> length a = length (c_area c)"
proof -
  let ?x = "\<lparr>io_direction = KVM_EXIT_IO_OUT, io_size = 4, io_port = CAP_addr, io_count = 1,
    io_data = put_bytes 0 (le_bytes 4 (unat v)) (c_area c)\<rparr>"
  have "le_val (get_bytes 0 4 (put_bytes 0 (le_bytes 4 (unat v)) (c_area c))) = unat v"
    using assms word_bounds [of v] by (intro le_val_front) simp_all
  then have "io_param_long ?x = v" by (simp only: io_param_long_def io_exit.simps of_nat_unat ucast_id)
  then show ?thesis
    using assms long_out_pci [of ?x "c_machine c"]
    by (simp add: outputl_def pio_out_def cap_write length_front del: le_bytes.simps)
qed

lemma config_input:
  assumes "4 \<le> length (c_area c)" "keeps_length fill"
  shows "pci_host_read_reg_word p (m_pci (c_machine c), m_devices (c_machine c)) = Inr w \<Longrightarrow>
      p = 0xcfe \<Longrightarrow> \<exists>a. inputw fill p c = Inr (w, \<lparr>c_machine = c_machine c, c_area = a, c_irqs = c_irqs c\<rparr>) \<and> length a = length (c_area c)"
    and "pci_host_read_reg_long q (m_pci (c_machine c), m_devices (c_machine c)) = Inr l \<Longrightarrow>
      q = 0xcfc \<Longrightarrow> \<exists>a. inputl fill q c = Inr (l, \<lparr>c_machine = c_machine c, c_area = a, c_irqs = c_irqs c\<rparr>) \<and> length a = length (c_area c) \<and>
        a ! 0 = ucast l"
proof -
  have len: "4 \<le> length (fill (c_area c))" "length (fill (c_area c)) = length (c_area c)"
    using assms by (simp_all add: keeps_length_def)
  show "\<exists>a. inputw fill p c = Inr (w, \<lparr>c_machine = c_machine c, c_area = a, c_irqs = c_irqs c\<rparr>) \<and> length a = length (c_area c)"
    if rd: "pci_host_read_reg_word p (m_pci (c_machine c), m_devices (c_machine c)) = Inr w" "p = 0xcfe"
  proof -
    have "route \<lparr>io_direction = KVM_EXIT_IO_IN, io_size = 2, io_port = 0xcfe, io_count = 1,
        io_data = fill (c_area c)\<rparr> (c_machine c) = PciBridge" by (intro route_config) simp_all
    moreover have "le_val (get_bytes 0 2 (put_bytes 0 (le_bytes 2 (unat w)) (fill (c_area c)))) = unat w"
      using len word_bounds [of w] by (intro le_val_front) simp_all
    ultimately show ?thesis
      using rd len
      by (simp add: inputw_def pio_in_def handle_io_route pci_io_def io_return_def length_front
          del: le_bytes.simps)
  qed
  show "\<exists>a. inputl fill q c = Inr (l, \<lparr>c_machine = c_machine c, c_area = a, c_irqs = c_irqs c\<rparr>) \<and> length a = length (c_area c) \<and> a ! 0 = ucast l"
    if rd: "pci_host_read_reg_long q (m_pci (c_machine c), m_devices (c_machine c)) = Inr l" "q = 0xcfc"
  proof -
    have "route \<lparr>io_direction = KVM_EXIT_IO_IN, io_size = 4, io_port = 0xcfc, io_count = 1,
        io_data = fill (c_area c)\<rparr> (c_machine c) = PciBridge" by (intro route_config) simp_all
    moreover have "le_val (get_bytes 0 4 (put_bytes 0 (le_bytes 4 (unat l)) (fill (c_area c)))) = unat l"
      using len word_bounds [of l] by (intro le_val_front) simp_all
    moreover have "put_bytes 0 (le_bytes 4 (unat l)) (fill (c_area c)) ! 0 = ucast l"
      using le_bytes.simps(2) [of 3 "unat l"] by (simp add: put_bytes_def)
    ultimately show ?thesis
      using rd len
      by (simp add: inputl_def pio_in_def handle_io_route pci_io_def io_return_def length_front
          del: le_bytes.simps)
  qed
qed


text \<open>The word a search sees at offset 10, the class and subclass of the device.\<close>

definition class_word :: "machine \<Rightarrow> u8 \<Rightarrow> u8 \<Rightarrow> u16" where
  "class_word m dev f =
     (if f \<noteq> 0 then 0xFFFF
      else case ph_devices (m_pci m) ! unat dev of None \<Rightarrow> 0xFFFF
           | Some i \<Rightarrow> of_nat (field_get 10 2 (m_devices m ! i)))"

text \<open>After the address has been written, the bridge selects the device it names.\<close>

lemma selected_device:
  assumes "devices_wf h ds" "unat dev < 32" "unat f < 8" "h1 = prepare_data (h\<lparr>ph_CAP := conf_address 0 dev f off\<rparr>)"
  shows "pci_selected h1 = Inr (ph_devices h ! unat dev)" "ph_bus_number h1 = 0"
    "ph_function_number h1 = 0 \<longleftrightarrow> f = 0" "ph_offset_number h1 = of_nat (unat off div 4 * 4)"
    "ph_devices h1 = ph_devices h"
proof -
  note fld = conf_address_fields [OF assms(2,3), of off]
  have h1: "ph_bus_number h1 = drop_bit 16 (conf_address 0 dev f off) AND 0xFF"
    "ph_device_number h1 = drop_bit 11 (conf_address 0 dev f off) AND 0x1F"
    "ph_function_number h1 = drop_bit 8 (conf_address 0 dev f off) AND 0x7"
    "ph_offset_number h1 = conf_address 0 dev f off AND 0xFF" "ph_devices h1 = ph_devices h"
    by (simp_all add: assms(4) prepare_data_def)
  show "pci_selected h1 = Inr (ph_devices h ! unat dev)"
    using assms(1,2) fld(2) by (simp add: pci_selected_def devices_wf_def h1)
  show "ph_bus_number h1 = 0" using fld(1) unfolding h1 unat_eq_0 .
  show "ph_function_number h1 = 0 \<longleftrightarrow> f = 0"
    unfolding h1 unat_eq_0 [symmetric] fld(3) by (simp only: unat_eq_0)
  show "ph_offset_number h1 = of_nat (unat off div 4 * 4)"
    unfolding h1 using fld(4) by (metis of_nat_unat ucast_id)
  show "ph_devices h1 = ph_devices h" by (rule h1)
qed

lemma confw_class:
  assumes "reads_config_words fill confw" "keeps_length fill" "devices_wf (m_pci m) (m_devices m)"
    "at_bus m c es" "unat dev < 32" "unat f < 8"
  shows "\<exists>c'. confw 0 dev f 10 c = Inr (class_word m dev f, c') \<and> at_bus m c' es"
proof -
  obtain h where c: "c_machine c = m\<lparr>m_pci := h\<rparr>" "ph_devices h = ph_devices (m_pci m)" "c_irqs c = es"
    "4 \<le> length (c_area c)" using assms(4) by (auto simp: at_bus_def)
  have wf: "devices_wf h (m_devices m)" using assms(3) c(2) by (simp add: devices_wf_def)
  define h1 where "h1 = prepare_data (h\<lparr>ph_CAP := conf_address 0 dev f 10\<rparr>)"
  note sel = selected_device [OF wf assms(5,6) h1_def]
  obtain a where a: "outputl (conf_address 0 dev f 10) CAP_addr c =
      Inr \<lparr>c_machine = m\<lparr>m_pci := h1\<rparr>, c_area = a, c_irqs = es\<rparr>" "length a = length (c_area c)"
    using outputl_CAP [OF c(4), of "conf_address 0 dev f 10"] by (auto simp: c(1,3) h1_def)
  let ?c1 = "\<lparr>c_machine = m\<lparr>m_pci := h1\<rparr>, c_area = a, c_irqs = es\<rparr>"
  have "ph_offset_number h1 = 8" using sel(4) by simp
  then have "pci_host_read_reg_word 0xcfe (h1, m_devices m) = Inr (class_word m dev f)"
    using sel c(2)
    by (auto simp: pci_host_read_reg_word_def class_word_def read_reg_word_PCI_def split: option.split)
  then obtain b where "inputw fill 0xcfe ?c1 = Inr (class_word m dev f, ?c1\<lparr>c_area := b\<rparr>)"
    "length b = length a"
    using config_input(1) [of ?c1 fill "0xcfe" "class_word m dev f"] assms(2) a(2) c(4) by auto
  then show ?thesis
    using assms(1) a c(2,4) sel(5)
    by (auto simp: reads_config_words_def at_bus_def)
qed

lemma confl_bar:
  assumes "reads_config_longs fill confl" "keeps_length fill" "devices_wf (m_pci m) (m_devices m)"
    "at_bus m c es" "unat dev < 32" "ph_devices (m_pci m) ! unat dev = Some i"
    "off = 16 \<and> k = 0 \<or> off = 20 \<and> k = 1"
  shows "\<exists>c'. confl 0 dev 0 off c = Inr (getBar k (m_devices m ! i), c') \<and> at_bus m c' es \<and>
    c_area c' ! 0 = ucast (getBar k (m_devices m ! i))"
proof -
  obtain h where c: "c_machine c = m\<lparr>m_pci := h\<rparr>" "ph_devices h = ph_devices (m_pci m)" "c_irqs c = es"
    "4 \<le> length (c_area c)" using assms(4) by (auto simp: at_bus_def)
  have wf: "devices_wf h (m_devices m)" using assms(3) c(2) by (simp add: devices_wf_def)
  define h1 where "h1 = prepare_data (h\<lparr>ph_CAP := conf_address 0 dev 0 off\<rparr>)"
  note sel = selected_device [OF wf assms(5) _ h1_def]
  let ?v = "getBar k (m_devices m ! i)"
  obtain a where a: "outputl (conf_address 0 dev 0 off) CAP_addr c =
      Inr \<lparr>c_machine = m\<lparr>m_pci := h1\<rparr>, c_area = a, c_irqs = es\<rparr>" "length a = length (c_area c)"
    using outputl_CAP [OF c(4), of "conf_address 0 dev 0 off"] by (auto simp: c(1,3) h1_def)
  let ?c1 = "\<lparr>c_machine = m\<lparr>m_pci := h1\<rparr>, c_area = a, c_irqs = es\<rparr>"
  have "pci_host_read_reg_long 0xcfc (h1, m_devices m) = Inr ?v"
    using sel c(2) assms(6,7)
    by (auto simp: pci_host_read_reg_long_def read_reg_long_PCI_def getBar_def)
  then obtain b where "inputl fill 0xcfc ?c1 = Inr (?v, ?c1\<lparr>c_area := b\<rparr>)"
    "length b = length a" "b ! 0 = ucast ?v"
    using config_input(2) [of ?c1 fill "0xcfc" ?v] assms(2) a(2) c(4) by auto
  then show ?thesis
    using assms(1,7) a c(2,4) sel(5)
    by (auto simp: reads_config_longs_def at_bus_def)
qed

lemma cerca_funs_find:
  assumes "reads_config_words fill confw" "keeps_length fill" "devices_wf (m_pci m) (m_devices m)"
    "at_bus m c es" "unat dev < 32" "\<forall>f\<in>set fs. f < 8"
  shows "\<exists>c'. cerca_funs confw dev fs c =
      Inr (map_option of_nat (find (\<lambda>f. class_word m dev (of_nat f) = 0x0101) fs), c') \<and> at_bus m c' es"
  using assms(4,6)
proof (induction fs arbitrary: c)
  case (Cons f fs)
  have "unat (of_nat f :: u8) < 8" using Cons.prems(2) by (simp add: unat_of_nat_word)
  then obtain c1 where c1: "confw 0 dev (of_nat f) 10 c = Inr (class_word m dev (of_nat f), c1)"
    "at_bus m c1 es"
    using confw_class [OF assms(1-3) Cons.prems(1) assms(5)] by blast
  show ?case using c1 Cons.IH [OF c1(2)] Cons.prems(2) by auto
qed simp

lemma find_function:
  "find (\<lambda>f. class_word m dev (of_nat f) = 0x0101) [0..<8] = (if class_word m dev 0 = 0x0101 then Some 0 else None)"
proof -
  have "class_word m dev (of_nat f) \<noteq> 0x0101" if "f \<in> set [1..<8]" for f
  proof -
    have "(of_nat f :: u8) \<noteq> 0" using that by (auto simp: unat_eq_0 [symmetric] unat_of_nat_word)
    then show ?thesis by (simp add: class_word_def)
  qed
  then have "find (\<lambda>f. class_word m dev (of_nat f) = 0x0101) [1..<8] = None" by (simp add: find_None_iff)
  moreover have "[0..<8] = 0 # [1..<8 :: nat]" by (simp add: upt_conv_Cons)
  ultimately show ?thesis by simp
qed

lemma cerca_devs_find:
  assumes "reads_config_words fill confw" "keeps_length fill" "devices_wf (m_pci m) (m_devices m)"
    "at_bus m c es" "\<forall>d\<in>set ds. d < 32"
  shows "\<exists>c'. cerca_devs confw ds c =
      Inr (case find (\<lambda>d. class_word m (of_nat d) 0 = 0x0101) ds of
             Some d \<Rightarrow> (of_nat d, 0) | None \<Rightarrow> (32, 8), c') \<and> at_bus m c' es"
  using assms(4,5)
proof (induction ds arbitrary: c)
  case (Cons d ds)
  have "unat (of_nat d :: u8) < 32" using Cons.prems(2) by (simp add: unat_of_nat_word)
  then obtain c1 where c1: "cerca_funs confw (of_nat d) [0..<8] c =
      Inr (if class_word m (of_nat d) 0 = 0x0101 then Some 0 else None, c1)" "at_bus m c1 es"
    using cerca_funs_find [OF assms(1-3) Cons.prems(1), of "of_nat d" "[0..<8]"]
    unfolding find_function by (auto split: if_splits)
  show ?case using c1 Cons.IH [OF c1(2)] Cons.prems(2) by (auto simp del: upt.simps)
qed simp


subsection \<open>The controller of this machine\<close>

lemma ata_class: "field_get 10 2 ata_configured = 0x0101"
proof -
  have wf: "pci_wf (PCI_ATA_new blank_device)" by (rule static_wf)
  have "field_get 10 1 (PCI_ATA_new blank_device) = 1" "field_get 11 1 (PCI_ATA_new blank_device) = 1"
    by (simp_all add: PCI_ATA_new_def PCIDevice_new_class_def clear_bars_fields field_get_put_same
        field_get_put_other blank_device_wf)
  then have "field_get 10 1 ata_configured = 1" "field_get 11 1 ata_configured = 1"
    by (simp_all add: ata_configured_def setBar_fields wf)
  then show ?thesis
    using field_get_split [of 10 1 ata_configured 1] static_wf(3) by (simp add: pci_wf_def numeral_2_eq_2)
qed

lemma ide_at_power_on:
  assumes "m_devices m ! 0 = ata_configured"
  shows "ide_at 0x01F0 0x03F6 m"
proof -
  have "free_port (0x01F0 + of_nat i)" if "i \<le> 7" for i
  proof -
    have "i \<in> {0, 1, 2, 3, 4, 5, 6, 7}" using that by auto
    then show ?thesis
      by (elim insertE emptyE) (simp_all add: free_port_def pci_port_def com_bases_def)
  qed
  moreover have "free_port 0x03F6" by (simp add: free_port_def pci_port_def com_bases_def)
  ultimately show ?thesis by (simp add: ide_at_def assms ata_configured_bars)
qed

lemma find_disk_power_on:
  assumes "reads_config_words fill confw" "reads_config_longs fill confl" "keeps_length fill"
    "initIO junk d = Inr (c_machine c)" "hd_inv d" "4 \<le> length (c_area c)"
  shows "\<exists>c'. find_disk confw confl c = Inr ((0x01F0, 0x03F6), c') \<and>
    at_bus (c_machine c) c' (c_irqs c) \<and> c_area c' ! 0 = 0xF6"
proof -
  let ?m = "c_machine c"
  note m = initIO_fields [OF assms(4,5)]
  have wf: "devices_wf (m_pci ?m) (m_devices ?m)" using m(1) by (simp add: machine_inv_def)
  have at: "at_bus ?m c (c_irqs c)"
    using assms(6) by (auto simp: at_bus_def intro: exI [of _ "m_pci (c_machine c)"])
  have slot: "ph_devices (m_pci ?m) ! unat (0 :: u8) = Some 0" by (simp add: m(9) connected_slots_def)
  then have "class_word ?m 0 0 = 0x0101" by (simp add: class_word_def m(7) ata_class)
  then have "find (\<lambda>d. class_word ?m (of_nat d) 0 = 0x0101) [0..<32] = Some 0" by (simp add: upt_conv_Cons)
  then obtain c1 where c1: "cerca_bm confw c = Inr ((0, 0), c1)" "at_bus ?m c1 (c_irqs c)"
    using cerca_devs_find [OF assms(1,3) wf at, of "[0..<32]"] by (auto simp: cerca_bm_def)
  obtain c2 where c2: "confl 0 0 0 16 c1 = Inr (0x01F0, c2)" "at_bus ?m c2 (c_irqs c)"
    using confl_bar [OF assms(2,3) wf c1(2) _ slot, of 16 0] by (auto simp: m(7) ata_configured_bars)
  obtain c3 where "confl 0 0 0 20 c2 = Inr (0x03F6, c3)" "at_bus ?m c3 (c_irqs c)" "c_area c3 ! 0 = 0xF6"
    using confl_bar [OF assms(2,3) wf c2(2) _ slot, of 20 1] by (auto simp: m(7) ata_configured_bars)
  then show ?thesis using c1 c2 by (simp add: find_disk_def)
qed

lemma sector_bytes_surj: "even (length bs) \<Longrightarrow> \<exists>ws. sector_bytes ws = bs"
proof (induction "length bs div 2" arbitrary: bs)
  case 0
  then have "bs = []" by (cases bs) auto
  then show ?case by (intro exI [of _ "[]"]) simp
next
  case (Suc n)
  then obtain a b rest where bs: "bs = a # b # rest"
    by (cases bs; cases "tl bs") auto
  obtain ws where "sector_bytes ws = rest" using Suc.hyps(1) [of rest] Suc.hyps(2) Suc.prems bs by auto
  moreover have "word_bytes (of_nat (le_val [a, b])) = [a, b]"
  proof -
    let ?w = "of_nat (le_val [a, b]) :: u16"
    have "le_val [a, b] < 2 ^ 16" using le_val_less [of "[a, b]"] by simp
    then have "unat ?w = le_val [a, b]" by (intro unat_of_nat_word) simp
    then have "le_val (word_bytes ?w) = le_val [a, b]" by (simp only: le_val_word_bytes)
    moreover have "length (word_bytes ?w) = length [a, b]" by (simp add: word_bytes_def)
    ultimately show ?thesis by (metis le_bytes_le_val)
  qed
  ultimately show ?case
    by (intro exI [of _ "of_nat (le_val [a, b]) # ws"]) (simp add: bs)
qed

lemma sector_bytes_words: "even (length bs) \<Longrightarrow> sector_bytes (sector_words bs) = bs"
  using sector_bytes_surj sector_words_bytes by metis

lemma take_drop_sector_bytes:
  "take (2 * n) (sector_bytes ws) = sector_bytes (take n ws) \<and>
   drop (2 * n) (sector_bytes ws) = sector_bytes (drop n ws)"
proof (induction ws arbitrary: n)
  case (Cons w ws)
  then show ?case by (cases n) (simp_all add: word_bytes_def)
qed simp

lemma sector_of_words:
  assumes "even (length bs)"
  shows "sector_bytes (sector_of (sector_words bs) i) = get_bytes (512 * i) 512 bs"
  using take_drop_sector_bytes [of "256 * i" "sector_words bs"]
    take_drop_sector_bytes [of 256 "drop (256 * i) (sector_words bs)"]
  by (simp add: sector_of_def get_bytes_def sector_bytes_words assms)


text \<open>The machine at power-on, in a process that finds the image \<open>f\<close>.\<close>

definition power_on ::
  "u8 list \<Rightarrow> u32 \<times> u32 \<times> u32 \<times> u32 \<Rightarrow> nat \<Rightarrow> host_file \<Rightarrow> u8 list \<Rightarrow> cpu res" where
  "power_on junk junk' nb f area =
     bind_res (HardDisk_new junk (of_nat nb) f) (\<lambda>d.
     bind_res (initIO junk' d) (\<lambda>m. Inr \<lparr>c_machine = m, c_area = area, c_irqs = []\<rparr>))"

lemma power_on_disk:
  assumes "disk_ok nb f"
  shows "\<exists>d m. power_on junk junk' nb f area = Inr \<lparr>c_machine = m, c_area = area, c_irqs = []\<rparr> \<and>
    initIO junk' d = Inr m \<and> m_hdd m = d \<and> hd_inv d \<and> m_devices m ! 0 = ata_configured \<and>
    disk_idle nb d \<and> hd_current_sector_number d = 0 \<and> hd_lba d = 0 \<and>
    hd_file d = f \<and> \<not> hd_interrupt_raised d"
proof -
  have nb: "nb < 2 ^ 23" using assms by (simp add: disk_ok_def)
  then have "DiskManager_new junk (of_nat nb) f = Inr (disk_of nb, f)"
    using check_consistency_ok [OF assms]
    by (simp add: DiskManager_new_def DiskManager_new_disk_of Let_def)
  then obtain d where d: "HardDisk_new junk (of_nat nb) f = Inr d" "disk_idle nb d"
    "hd_current_sector_number d = 0" "hd_lba d = 0" "hd_file d = f" "\<not> hd_interrupt_raised d"
    using assms by (simp add: HardDisk_new_def disk_idle_def hd_inv_def sts_wf_def)
  have inv: "hd_inv d" using d(2) by (simp add: disk_idle_def)
  obtain m where m: "initIO junk' d = Inr m" using initIO_defined [OF inv] by blast
  show ?thesis
    using d m inv initIO_fields(7,8) [OF m inv] by (simp add: power_on_def)
qed

lemma at_bus_at_disk:
  assumes "at_bus m c es" "m_devices m ! 0 = ata_configured"
  shows "ide_at 0x01F0 0x03F6 (c_machine c)" "m_hdd (c_machine c) = m_hdd m" "c_irqs c = es"
    "4 \<le> length (c_area c)"
  using assms ide_at_power_on [of "c_machine c"] by (auto simp: at_bus_def)

abbreviation buff_c :: "u8 list" where
  "buff_c \<equiv> replicate (2 * 512) (of_char CHR ''c'') @ replicate (6 * 512) 0"

lemma buff_c_sector:
  assumes "i < 2"
  shows "sector_bytes (sector_of (sector_words buff_c) i) = replicate 512 (of_char CHR ''c'')"
proof -
  have "get_bytes (512 * i) 512 buff_c = replicate 512 (of_char CHR ''c'')"
    using assms by (intro nth_equalityI) (auto simp: get_bytes_def nth_append)
  then show ?thesis by (simp add: sector_of_words del: replicate.simps)
qed

lemma main_hdd_1_writes:
  assumes "reads_config_words fill confw" "reads_config_longs fill confl" "keeps_length fill"
    "clears_bit7 fill" "4 \<le> length area" "disk_ok nb f" "3 \<le> nb"
    "power_on junk junk' nb f area = Inr c0"
  shows "\<exists>c'. main_hdd_1 fill confw confl c0 = Some (Inr (''OK'' @ [CHR 0x0A], c')) \<and> c_irqs c' = [] \<and>
    disk_ok nb (hd_file (m_hdd (c_machine c'))) \<and>
    (\<forall>k<nb. file_block k (hd_file (m_hdd (c_machine c'))) =
       (if k \<in> {1, 2} then replicate 512 (of_char CHR ''c'') else file_block k f))"
proof -
  obtain d m where p: "c0 = \<lparr>c_machine = m, c_area = area, c_irqs = []\<rparr>" "initIO junk' d = Inr m"
    "m_hdd m = d" "hd_inv d" "m_devices m ! 0 = ata_configured" "disk_idle nb d"
    "hd_current_sector_number d = 0" "hd_file d = f"
    using power_on_disk [OF assms(6), of junk junk' area] assms(8) by auto
  obtain c1 where c1: "find_disk confw confl c0 = Inr ((0x01F0, 0x03F6), c1)" "at_bus m c1 []"
    using find_disk_power_on [OF assms(1-3), of junk' d c0] p assms(5) by auto
  note ide = at_bus_at_disk [OF c1(2) p(5)]
  have idle: "disk_idle nb (m_hdd (c_machine c1))" using ide(2) p(3,6) by simp
  have at: "at_disk (c_machine c1) c1 d []" using ide(2-4) p(3) by (simp add: at_disk_def)
  have len: "256 * unat (2 :: u8) \<le> length (sector_words buff_c)"
    by (simp add: length_sector_words del: replicate.simps)
  obtain c2 d2 where c2: "scrivisett fill 0x01F0 0x03F6 1 2 (sector_words buff_c) c1 = Some (Inr c2)"
    "at_disk (c_machine c1) c2 d2 []"
    "hd_file d2 = disk.wr_run (map (\<lambda>i. sector_bytes (sector_of (sector_words buff_c) i)) [0..<unat (2 :: u8)])
      (unat (1 :: u32) + 0) f"
    using scrivisett_run [OF ide(1) assms(3,4) at p(6) len, of 1] p(7,8) assms(7) by auto
  have len2: "256 * 2 \<le> length (sector_words buff_c)"
    by (simp add: length_sector_words del: replicate.simps)
  have fl: "hd_file d2 = disk.wr_run (map (\<lambda>i. sector_bytes (sector_of (sector_words buff_c) i)) [0..<2]) 1 f"
    using c2(3) by simp
  have "file_block k (hd_file d2) = (if k \<in> {1, 2} then replicate 512 (of_char CHR ''c'') else file_block k f)"
    if "k < nb" for k
    using written_blocks(2) [OF assms(6) len2 _ that, of 1] buff_c_sector [of "k - 1"] assms(7)
    by (auto simp: fl simp del: replicate.simps)
  moreover have "disk_ok nb (hd_file d2)"
    using written_blocks(1) [OF assms(6) len2, of 1] assms(7) by (simp add: fl)
  moreover have "m_hdd (c_machine c2) = d2" "c_irqs c2 = []" using c2(2) by (simp_all add: at_disk_def)
  ultimately show ?thesis
    using c1(1) c2(1) by (simp add: main_hdd_1_def Let_def del: replicate.simps)
qed

lemma main_hdd_2_reads:
  assumes "reads_config_words fill confw" "reads_config_longs fill confl" "keeps_length fill"
    "4 \<le> length area" "disk_ok nb f" "3 \<le> nb" "power_on junk junk' nb f area = Inr c0"
  shows "\<exists>c'. main_hdd_2 fill confw confl c0 =
      Some (Inr (file_block 0 f @ file_block 2 f @ [0x0A], c')) \<and> c_irqs c' = []"
proof -
  obtain d m where p: "c0 = \<lparr>c_machine = m, c_area = area, c_irqs = []\<rparr>" "initIO junk' d = Inr m"
    "m_hdd m = d" "hd_inv d" "m_devices m ! 0 = ata_configured" "disk_idle nb d"
    "hd_current_sector_number d = 0" "hd_lba d = 0" "hd_file d = f" "\<not> hd_interrupt_raised d"
    using power_on_disk [OF assms(5), of junk junk' area] assms(7) by auto
  obtain c1 where c1: "find_disk confw confl c0 = Inr ((0x01F0, 0x03F6), c1)" "at_bus m c1 []"
    using find_disk_power_on [OF assms(1-3), of junk' d c0] p assms(4) by auto
  note ide = at_bus_at_disk [OF c1(2) p(5)]
  have at: "at_disk (c_machine c1) c1 d []" using ide(2-4) p(3) by (simp add: at_disk_def)
  let ?v = "sector_words (replicate (8 * 512) 0)"
  have len: "256 * unat (2 :: u8) \<le> length ?v" by (simp add: length_sector_words del: replicate.simps)
  let ?ws = "sector_words (file_block 0 f) @ sector_words (file_block 2 f)"
  have "words_from (Suc (Suc 0)) (Suc 0) d = sector_words (file_block 2 f)"
    by (simp add: words_from_def p(9) numeral_2_eq_2)
  then obtain c2 d2 where c2: "leggisett fill 0x01F0 0x03F6 1 2 ?v c1 = Some (Inr (put_bytes 0 ?ws ?v, c2))"
    "at_disk (c_machine c1) c2 d2 []"
    using leggisett_run [OF ide(1) assms(3) at p(6,10) _ len, of 1] p(7-9) assms(6)
    by (auto simp del: replicate.simps)
  have blk: "length (file_block k f) = 512" if "k < nb" for k
    using assms(5) that by (auto simp: disk_ok_def file_block_def get_bytes_def)
  have ws: "sector_bytes ?ws = file_block 0 f @ file_block 2 f"
    using blk [of 0] blk [of 2] assms(6) by (simp add: sector_bytes_words)
  have "take 1024 (sector_bytes (put_bytes 0 ?ws ?v)) = sector_bytes ?ws"
    using blk [of 0] blk [of 2] assms(6)
    by (simp add: put_bytes_def length_sector_words sector_bytes_words del: replicate.simps)
  then show ?thesis
    using c1(1) c2 ws by (simp add: main_hdd_2_def at_disk_def Let_def del: replicate.simps)
qed

subsection \<open>An example\<close>

definition zero_fill :: fill where "zero_fill a = replicate (length a) 0"

definition mech1_word :: "fill \<Rightarrow> u16 conf_read" where
  "mech1_word fill bus dev f off c =
     bind_res (outputl (conf_address bus dev f off) CAP_addr c)
       (inputw fill (CDP_addr + of_nat (unat off mod 4)))"

definition mech1_long :: "fill \<Rightarrow> u32 conf_read" where
  "mech1_long fill bus dev f off c =
     bind_res (outputl (conf_address bus dev f off) CAP_addr c)
       (inputl fill (CDP_addr + of_nat (unat off mod 4)))"

definition three_blocks :: host_file where
  "three_blocks = \<lparr>hf_contents = Some (replicate 1536 7), hf_readable = True, hf_writable = True\<rparr>"

lemma example_environment:
  "keeps_length zero_fill" "clears_bit7 zero_fill" "reads_config_words fill (mech1_word fill)"
  "reads_config_longs fill (mech1_long fill)" "disk_ok 3 three_blocks"
  by (auto simp: keeps_length_def clears_bit7_def zero_fill_def reads_config_words_def
      reads_config_longs_def mech1_word_def mech1_long_def disk_ok_def three_blocks_def
      simp del: replicate.simps)

lemma example_cpu:
  "\<exists>m. ide_at 0x01F0 0x03F6 m \<and> machine_inv m \<and> disk_idle 3 (m_hdd m) \<and> hd_current_sector_number (m_hdd m) = 0 \<and>
     hd_lba (m_hdd m) = 0 \<and> hd_file (m_hdd m) = three_blocks \<and> \<not> hd_interrupt_raised (m_hdd m) \<and>
     class_word m 0 0 = 0x0101"
proof -
  obtain d m where m: "initIO (0, 0, 0, 0) d = Inr m" "m_hdd m = d" "hd_inv d" "m_devices m ! 0 = ata_configured"
    "disk_idle 3 d" "hd_current_sector_number d = 0" "hd_lba d = 0" "hd_file d = three_blocks"
    "\<not> hd_interrupt_raised d"
    using power_on_disk [OF example_environment(5)] by blast
  have "class_word m 0 0 = 0x0101"
    using initIO_fields(7,9) [OF m(1,3)] by (simp add: class_word_def connected_slots_def ata_class)
  then show ?thesis
    using m ide_at_power_on [OF m(4)] initIO_fields(1) [OF m(1,3)] by blast
qed

section \<open>Properties\<close>

text \<open>
  The search for the controller: on any machine \<open>cerca_bm\<close> returns the first device of bus 0 whose
  class word is 0x0101, always with function 0, and 32 and 8 if there is none. It changes nothing
  but the address register of the bridge and raises no interrupt.
\<close>

theorem cerca_bm_finds:
  assumes "reads_config_words fill confw" "keeps_length fill" "machine_inv (c_machine c)"
    "4 \<le> length (c_area c)"
  shows "\<exists>c'. cerca_bm confw c =
      Inr (case find (\<lambda>d. class_word (c_machine c) (of_nat d) 0 = 0x0101) [0..<32] of
             Some d \<Rightarrow> (of_nat d, 0) | None \<Rightarrow> (32, 8), c') \<and>
    (\<exists>h. c_machine c' = (c_machine c)\<lparr>m_pci := h\<rparr> \<and> ph_devices h = ph_devices (m_pci (c_machine c))) \<and>
    c_irqs c' = c_irqs c"
proof -
  have "at_bus (c_machine c) c (c_irqs c)"
    using assms(4) by (auto simp: at_bus_def intro: exI [of _ "m_pci (c_machine c)"])
  then show ?thesis
    using cerca_devs_find [OF assms(1,2), of "c_machine c" c _ "[0..<32]"] assms(3)
    by (auto simp: cerca_bm_def at_bus_def machine_inv_def)
qed

theorem cerca_bm_finds_witness:
  "\<exists>c c'. cerca_bm (mech1_word zero_fill) c = Inr ((0, 0), c') \<and> c_irqs c' = c_irqs c"
proof -
  obtain m where m: "machine_inv m" "class_word m 0 0 = 0x0101" using example_cpu by blast
  let ?c = "\<lparr>c_machine = m, c_area = [0, 0, 0, 0], c_irqs = []\<rparr>"
  have "find (\<lambda>d. class_word m (of_nat d) 0 = 0x0101) [0..<32] = Some 0"
    using m(2) by (simp add: upt_conv_Cons)
  then obtain c' where "cerca_bm (mech1_word zero_fill) ?c = Inr ((0, 0), c')" "c_irqs c' = c_irqs ?c"
    using cerca_bm_finds [OF example_environment(3,1), of ?c] m(1) by auto
  then show ?thesis by blast
qed



text \<open>
  Reading sectors from the guest: under the same conditions \<open>leggisett\<close> fills the vector with the
  block the previous command addressed, followed by the blocks after the one it asked for, and
  never returns if \<open>0 < s < n\<close>.
\<close>

theorem leggisett_returns:
  fixes c :: cpu
  defines "m \<equiv> c_machine c" and "d \<equiv> m_hdd (c_machine c)"
  assumes "ide_at b0 b1 m" "keeps_length fill" "4 \<le> length (c_area c)"
    "disk_idle nb d" "\<not> hd_interrupt_raised d" "n \<noteq> 0" "256 * unat n \<le> length v"
    "unat l + hd_current_sector_number d + unat n \<le> nb"
    "unat (hd_lba d) + hd_current_sector_number d < nb"
  shows "if 0 < hd_current_sector_number d \<and> hd_current_sector_number d < unat n
    then leggisett fill b0 b1 l n v c = None
    else \<exists>c' d'. leggisett fill b0 b1 l n v c =
        Some (Inr (put_bytes 0
          (sector_words (file_block (unat (hd_lba d) + hd_current_sector_number d) (hd_file d)) @
           words_from (unat l + hd_current_sector_number d + 1) (unat n - 1) d) v, c')) \<and>
      c_machine c' = m\<lparr>m_hdd := d'\<rparr> \<and> c_irqs c' = c_irqs c \<and> hd_file d' = hd_file d \<and> hd_lba d' = l"
proof -
  have at: "at_disk m c d (c_irqs c)" using at_disk_self [OF assms(5)] by (simp add: m_def d_def)
  note run = leggisett_run [OF assms(3,4) at assms(6-11)]
  show ?thesis
  proof (cases "0 < hd_current_sector_number d \<and> hd_current_sector_number d < unat n")
    case True
    show ?thesis using run unfolding if_P [OF True] .
  next
    case False
    then show ?thesis using run unfolding if_not_P [OF False] at_disk_def by blast
  qed
qed

theorem leggisett_returns_witness:
  "\<exists>c c'. leggisett zero_fill 0x01F0 0x03F6 1 1 (replicate 256 0) c =
     Some (Inr (sector_words (file_block 0 three_blocks), c'))"
proof -
  obtain m where m: "ide_at 0x01F0 0x03F6 m" "disk_idle 3 (m_hdd m)" "hd_current_sector_number (m_hdd m) = 0"
    "hd_lba (m_hdd m) = 0" "hd_file (m_hdd m) = three_blocks" "\<not> hd_interrupt_raised (m_hdd m)"
    using example_cpu by blast
  let ?c = "\<lparr>c_machine = m, c_area = [0, 0, 0, 0], c_irqs = []\<rparr>"
  have "length (sector_words (file_block 0 three_blocks)) = 256"
    by (simp add: length_sector_words file_block_def three_blocks_def get_bytes_def del: replicate.simps)
  then obtain c' where "leggisett zero_fill 0x01F0 0x03F6 1 1 (replicate 256 0) ?c =
      Some (Inr (sector_words (file_block 0 three_blocks), c'))"
    using leggisett_returns [of "0x01F0" "0x03F6" ?c zero_fill 3 1 "replicate 256 0" 1] m example_environment(1)
    by (auto simp: words_from_def put_bytes_def simp del: replicate_Suc)
  then show ?thesis by blast
qed



text \<open>
  (C32) The missing base address: if the kernel hands the data area over as the last transfer left it,
  \<open>pci-hdd-1\<close> never gets past its first wait. Port 7 belongs to no device, so the program reads
  back the low byte of the base address it has just fetched, 0xF6, whose bit 7 is set.
\<close>

theorem hdd_1_waits_forever:
  assumes "reads_config_words id confw" "reads_config_longs id confl" "4 \<le> length area" "disk_ok nb f"
  shows "\<exists>c0. power_on junk junk' nb f area = Inr c0 \<and> main_hdd_1 id confw confl c0 = None"
proof -
  obtain d m where p: "power_on junk junk' nb f area = Inr \<lparr>c_machine = m, c_area = area, c_irqs = []\<rparr>"
    "initIO junk' d = Inr m" "hd_inv d" "m_devices m ! 0 = ata_configured"
    using power_on_disk [OF assms(4)] by blast
  let ?c = "\<lparr>c_machine = m, c_area = area, c_irqs = []\<rparr>"
  have keep: "keeps_length id" by (simp add: keeps_length_def)
  obtain c1 where c1: "find_disk confw confl ?c = Inr ((0x01F0, 0x03F6), c1)" "at_bus m c1 []"
    "c_area c1 ! 0 = 0xF6"
    using find_disk_power_on [OF assms(1,2) keep, of junk' d ?c] p assms(3) by auto
  note ide = at_bus_at_disk [OF c1(2) p(4)]
  let ?Q = "\<lambda>c. at_disk (c_machine c1) c (m_hdd (c_machine c1)) [] \<and> c_area c ! 0 = 0xF6"
  have "poll (inputb id iSTS) busy_bit c1 = None"
  proof (rule poll_forever [where Q = ?Q])
    show "?Q c1" using ide c1(3) by (simp add: at_disk_def)
    show "\<exists>s c'. inputb id iSTS c = Inr (s, c') \<and> busy_bit s \<and> ?Q c'" if "?Q c" for c
      using guest_input_nobody [OF ide(1) conjunct1 [OF that] keep] that by (auto simp: busy_bit_def)
  qed
  then have "main_hdd_1 id confw confl ?c = None"
    using c1(1) by (simp add: main_hdd_1_def scrivisett_def Let_def del: replicate.simps)
  then show ?thesis using p(1) by blast
qed

theorem hdd_1_waits_forever_witness:
  "\<exists>c0. power_on [] (0, 0, 0, 0) 3 three_blocks [0, 0, 0, 0] = Inr c0 \<and>
     main_hdd_1 id (mech1_word id) (mech1_long id) c0 = None"
  using hdd_1_waits_forever [OF example_environment(3,4) _ example_environment(5), of "[0, 0, 0, 0]"] by simp


end
