(* ===== verification/KeyboardDriver.thy ===== *)
theory KeyboardDriver
  imports GuestIo
begin

text \<open>
  The guest's keyboard driver, \<open>target-sources/int-tastiera/mod_tas.cpp\<close> and \<open>tas_int.cpp\<close>: a
  system call that reads a line and the interrupt handler that collects it one scan code at a
  time. The handler runs on the emulated machine whenever the keyboard's interrupt line is high,
  interleaved with the keys the console thread inserts. The conversion \<open>conv\<close> of a scan code and
  the semaphore belong to the library \<open>libce\<close>: \<open>conv\<close> is an argument, and the semaphore counts the
  signals.
\<close>

section \<open>State\<close>

abbreviation iRBR :: io_addr where "iRBR \<equiv> 0x0060"
abbreviation iTBR :: io_addr where "iTBR \<equiv> 0x0060"
abbreviation iCMR :: io_addr where "iCMR \<equiv> 0x0064"

text \<open>
  The variables of the module. \<open>punt\<close> points into the caller's array \<open>vv\<close>: \<open>ts_punt\<close> is its offset
  there. \<open>ts_echo\<close> is what \<open>char_write\<close> has put on the screen.
\<close>

record tastiera =
  ts_cont :: u32
  ts_punt :: nat
  ts_vv :: "u8 list"
  ts_shift :: bool
  ts_sem :: nat
  ts_echo :: "u8 list"

text \<open>\<open>conv\<close> looks at the global \<open>shift\<close>.\<close>

type_synonym conv = "bool \<Rightarrow> u8 \<Rightarrow> u8"

section \<open>Operations\<close>

text \<open>The two outputs that program the keyboard's interrupt requests, off (0x60) or on (0x61).\<close>

definition richieste :: "u8 \<Rightarrow> cpu \<Rightarrow> cpu res" where
  "richieste v c = bind_res (outputb 0x60 iCMR c) (outputb v iTBR)"

text \<open>
  \<open>c_leggi_linea\<close> up to the wait on the semaphore, and after it: the number of characters read is
  an \<open>int\<close> minus a \<open>natl\<close>, computed modulo 2^32.
\<close>

definition c_leggi_linea :: "int \<Rightarrow> u8 list \<Rightarrow> tastiera \<Rightarrow> cpu \<Rightarrow> (tastiera \<times> cpu) res" where
  "c_leggi_linea nn vv t c =
     bind_res (richieste 0x61 c) (\<lambda>c.
       Inr (t\<lparr>ts_cont := word_of_int nn, ts_punt := 0, ts_vv := vv\<rparr>, c))"

definition leggi_linea_esito :: "int \<Rightarrow> tastiera \<Rightarrow> int" where
  "leggi_linea_esito old_nn t = sint (word_of_int old_nn - ts_cont t :: u32)"

definition get_code_int :: "fill \<Rightarrow> cpu \<Rightarrow> (u8 \<times> cpu) res" where
  "get_code_int fill c = inputb fill iRBR c"

definition shift_key :: "u8 \<Rightarrow> tastiera \<Rightarrow> tastiera" where
  "shift_key a t =
     (if a = 0x2A then t\<lparr>ts_shift := True\<rparr> else if a = 0xAA then t\<lparr>ts_shift := False\<rparr> else t)"

definition c_driv_tasint :: "fill \<Rightarrow> conv \<Rightarrow> tastiera \<Rightarrow> cpu \<Rightarrow> (tastiera \<times> cpu) res" where
  "c_driv_tasint fill conv t c =
     bind_res (richieste 0x60 c) (\<lambda>c.
     bind_res (get_code_int fill c) (\<lambda>(code, c).
       let t = shift_key code t; a = conv (ts_shift t) code
       in if a = 0 then bind_res (richieste 0x61 c) (\<lambda>c. Inr (t, c))
          else if length (ts_vv t) \<le> ts_punt t then Inl OutOfBounds
          else
            (let t = t\<lparr>ts_cont := ts_cont t - 1, ts_vv := (ts_vv t)[ts_punt t := a],
                       ts_echo := ts_echo t @ [a]\<rparr>
             in if a = 10 \<or> ts_cont t = 0 then Inr (t\<lparr>ts_sem := ts_sem t + 1\<rparr>, c)
                else bind_res (richieste 0x61 c) (\<lambda>c. Inr (t\<lparr>ts_punt := ts_punt t + 1\<rparr>, c)))))"

text \<open>
  \<open>main\<close> of \<open>tas_int.cpp\<close> once the line is read: it writes the characters of its buffer, as many as
  the call reported.
\<close>

definition main_tas_stampa :: "int \<Rightarrow> u8 list \<Rightarrow> u8 list" where
  "main_tas_stampa quanti buff = take (nat quanti) buff"

section \<open>The driver and the keyboard, interleaved\<close>

text \<open>
  While the caller waits on the semaphore two things happen: the console thread inserts a scan
  code, and the processor takes the interrupt and runs the handler, which it can do whenever the
  line is high. The third argument of a run collects the codes that found room in the buffer of
  the keyboard.
\<close>

definition type_key :: "u8 \<Rightarrow> cpu \<Rightarrow> cpu" where
  "type_key k c =
     (let (kb, es) = keyboard_insert_keycode_event k (m_keyb (c_machine c))
      in c\<lparr>c_machine := (c_machine c)\<lparr>m_keyb := kb\<rparr>, c_irqs := c_irqs c @ es\<rparr>)"

definition irq_high :: "cpu \<Rightarrow> bool" where
  "irq_high c \<longleftrightarrow> line_level INT_KEYBOARD (c_irqs c) 0 = 1"

inductive tas_run ::
  "fill \<Rightarrow> conv \<Rightarrow> tastiera \<times> cpu \<Rightarrow> u8 list \<Rightarrow> tastiera \<times> cpu \<Rightarrow> bool" for fill conv s where
  tas_start: "tas_run fill conv s [] s"
| tas_key: "tas_run fill conv s acc (t, c) \<Longrightarrow>
    tas_run fill conv s
      (if kb_buffer_element_count (m_keyb (c_machine c)) < INTERNAL_BUFFER_SIZE then acc @ [k] else acc)
      (t, type_key k c)"
| tas_irq: "tas_run fill conv s acc (t, c) \<Longrightarrow> irq_high c \<Longrightarrow>
    c_driv_tasint fill conv t c = Inr (t', c') \<Longrightarrow> tas_run fill conv s acc (t', c')"

section \<open>Specification: a line from a list of scan codes\<close>

record line =
  ln_shift :: bool
  ln_text :: "u8 list"
  ln_done :: bool

definition line_code :: "conv \<Rightarrow> nat \<Rightarrow> u8 \<Rightarrow> line \<Rightarrow> line" where
  "line_code conv nn code l =
     (if ln_done l then l
      else
        (let sh = (if code = 0x2A then True else if code = 0xAA then False else ln_shift l);
             a = conv sh code
         in if a = 0 then l\<lparr>ln_shift := sh\<rparr>
            else \<lparr>ln_shift = sh, ln_text = ln_text l @ [a],
                  ln_done = (a = 10 \<or> length (ln_text l) + 1 = nn)\<rparr>))"

definition line_of :: "conv \<Rightarrow> nat \<Rightarrow> bool \<Rightarrow> u8 list \<Rightarrow> line" where
  "line_of conv nn sh codes =
     fold (line_code conv nn) codes \<lparr>ln_shift = sh, ln_text = [], ln_done = False\<rparr>"

section \<open>The keyboard behind its ports\<close>

definition at_kb :: "machine \<Rightarrow> cpu \<Rightarrow> keyboard \<Rightarrow> irq_event list \<Rightarrow> bool" where
  "at_kb m c k es \<longleftrightarrow> c_machine c = m\<lparr>m_keyb := k\<rparr> \<and> c_irqs c = es \<and> 4 \<le> length (c_area c)"

lemma at_kb_dev: "at_kb = kbp.at_dev"
  by (intro ext) (simp add: at_kb_def kbp.at_dev_def)

lemmas guest_kb_out = kbp.guest_out [folded at_kb_dev]
lemmas guest_kb_in = kbp.guest_in [folded at_kb_dev]

text \<open>
  The state of the keyboard between two steps of the driver: enabled, with the interrupt line as
  last driven, and interrupts on or off.
\<close>

definition kb_ready :: "bool \<Rightarrow> u8 list \<Rightarrow> machine \<Rightarrow> cpu \<Rightarrow> bool" where
  "kb_ready on q m c \<longleftrightarrow> (\<exists>k es. at_kb m c k es \<and> kb_inv k \<and> kb_enabled k \<and> kb_elems k = q \<and>
     kb_interrupt_enabled k = on \<and> (on \<or> \<not> kb_interrupt_raised k) \<and>
     line_level INT_KEYBOARD es 0 = kb_line k)"

text \<open>Programming the requests: the line follows the buffer when they are on.\<close>

lemma richieste_run:
  assumes "at_kb m c k es" "kb_inv k" "line_level INT_KEYBOARD es 0 = kb_line k" "v \<in> {0x60, 0x61}"
  shows "\<exists>c' k' es'. richieste v c = Inr c' \<and> at_kb m c' k' es' \<and> kb_inv k' \<and> kb_enabled k' \<and>
    kb_elems k' = kb_elems k \<and> kb_interrupt_enabled k' = (v = 0x61) \<and>
    (v = 0x60 \<longrightarrow> kb_interrupt_raised k' = kb_interrupt_raised k) \<and>
    line_level INT_KEYBOARD es' 0 = kb_line k'"
proof -
  define k1 where "k1 = fst (keyboard_write_reg_byte 0x64 0x60 k)"
  define k2 where "k2 = fst (keyboard_write_reg_byte 0x60 v k1)"
  let ?e1 = "snd (keyboard_write_reg_byte 0x64 0x60 k)" and ?e2 = "snd (keyboard_write_reg_byte 0x60 v k1)"
  obtain c1 where c1: "outputb 0x60 0x64 c = Inr c1" "at_kb m c1 k1 (es @ ?e1)"
    using guest_kb_out [OF assms(1), of "0x64" "0x60" k1 ?e1] by (auto simp: k1_def)
  obtain c2 where c2: "outputb v 0x60 c1 = Inr c2" "at_kb m c2 k2 ((es @ ?e1) @ ?e2)"
    using guest_kb_out [OF c1(2), of "0x60" v k2 ?e2] by (auto simp: k2_def)
  have "line_level INT_KEYBOARD ((es @ ?e1) @ ?e2) 0 = kb_line k2"
    using assms(3) write_line [of "0x64" "0x60" k] write_line [of "0x60" v k1]
    by (simp add: k1_def k2_def)
  moreover have "kb_inv k2" unfolding k2_def k1_def by (intro keyboard_write_inv assms(2))
  moreover have "kb_enabled k2 \<and> kb_interrupt_enabled k2 = (v = 0x61) \<and>
      (v = 0x60 \<longrightarrow> kb_interrupt_raised k2 = kb_interrupt_raised k) \<and> kb_elems k2 = kb_elems k"
    using assms(4)
    by (auto simp: k2_def k1_def keyboard_write_reg_byte_def keyboard_process_cmd_def kb_elems_def Let_def)
  moreover have "richieste v c = Inr c2" using c1(1) c2(1) by (simp add: richieste_def)
  ultimately show ?thesis using c2(2) by blast
qed

lemma get_code_run:
  assumes "at_kb m c k es" "keeps_length fill" "kb_inv k" "kb_enabled k" "kb_elems k = a # q"
    "\<not> kb_interrupt_enabled k" "line_level INT_KEYBOARD es 0 = kb_line k"
  shows "\<exists>c'. get_code_int fill c = Inr (a, c') \<and> kb_ready False q m c'"
proof -
  define k1 where "k1 = keyboard_next_RBR k"
  define k2 where "k2 = fst (keyboard_update_FI False k1)"
  let ?e = "snd (keyboard_update_FI False k1)"
  have "kb_buffer_element_count k \<noteq> 0" using kb_elems_empty_iff [of k] assms(5) by simp
  then have el: "kb_RBR k1 = a" "kb_elems k1 = q"
    using kb_elems_next_RBR [of k] assms(3,5) by (auto simp: k1_def kb_inv_def)
  have rd: "keyboard_read_reg_byte 0x60 k = (a, k2, ?e)"
    using el(1) by (simp add: keyboard_read_reg_byte_def k2_def k1_def Let_def)
  obtain c' where c': "inputb fill 0x60 c = Inr (a, c')" "at_kb m c' k2 (es @ ?e)"
    using guest_kb_in [OF assms(1) _ rd assms(2)] by blast
  have "kb_inv k2" using keyboard_read_inv [OF assms(3), of "0x60"] by (simp add: rd)
  moreover have "line_level INT_KEYBOARD (es @ ?e) 0 = kb_line k2"
    using read_line [of "0x60" k] assms(7) by (simp add: rd)
  moreover have "kb_enabled k2" "\<not> kb_interrupt_enabled k2" "kb_elems k2 = q"
    using assms(4,6) el(2) by (simp_all add: k2_def k1_def)
  moreover have "\<not> kb_interrupt_raised k2"
    using assms(6) by (simp add: k2_def k1_def keyboard_update_FI_def Let_def)
  ultimately have "kb_ready False q m c'" using c'(2) unfolding kb_ready_def by blast
  then show ?thesis using c'(1) by (simp add: get_code_int_def)
qed

lemma richieste_ready:
  assumes "kb_ready on q m c"
  shows "\<exists>c'. richieste 0x61 c = Inr c' \<and> kb_ready True q m c'"
proof -
  obtain k es where k: "at_kb m c k es" "kb_inv k" "kb_elems k = q" "line_level INT_KEYBOARD es 0 = kb_line k"
    using assms by (auto simp: kb_ready_def)
  show ?thesis using richieste_run [OF k(1,2,4), of "0x61"] k(3) by (auto simp: kb_ready_def)
qed

text \<open>A pending code keeps the line high as long as requests are on.\<close>

lemma irq_high_iff: "kb_ready on q m c \<Longrightarrow> irq_high c \<longleftrightarrow> on \<and> q \<noteq> []"
  by (auto simp: kb_ready_def irq_high_def kb_line_def at_kb_def kb_inv_defs)

lemma type_key_ready:
  assumes "kb_ready on q m c"
  shows "kb_ready on (if kb_buffer_element_count (m_keyb (c_machine c)) < INTERNAL_BUFFER_SIZE
    then q @ [k] else q) m (type_key k c)"
proof -
  obtain kb es where kb: "at_kb m c kb es" "kb_inv kb" "kb_enabled kb" "kb_elems kb = q"
    "kb_interrupt_enabled kb = on" "on \<or> \<not> kb_interrupt_raised kb" "line_level INT_KEYBOARD es 0 = kb_line kb"
    using assms by (auto simp: kb_ready_def)
  define kb' where "kb' = fst (keyboard_insert_keycode_event k kb)"
  let ?e = "snd (keyboard_insert_keycode_event k kb)"
  have m: "m_keyb (c_machine c) = kb" using kb(1) by (simp add: at_kb_def)
  have "at_kb m (type_key k c) kb' (es @ ?e)"
    using kb(1) by (simp add: type_key_def at_kb_def kb'_def case_prod_beta Let_def)
  moreover have "kb_inv kb'" unfolding kb'_def by (rule keyboard_insert_inv [OF kb(2)])
  moreover have "kb_enabled kb'" using kb(3) by (simp add: kb'_def)
  moreover have "kb_elems kb' = (if kb_buffer_element_count kb < INTERNAL_BUFFER_SIZE then q @ [k] else q)"
    using kb_elems_insert [OF kb(2), of k] kb(3) length_kb_elems [of kb] by (simp add: kb'_def kb(4))
  moreover have "kb_interrupt_enabled kb' = on \<and> (on \<or> \<not> kb_interrupt_raised kb')"
    using kb(5,6)
    by (auto simp: kb'_def keyboard_insert_keycode_event_def keyboard_enqueue_def keyboard_update_FI_def Let_def)
  moreover have "line_level INT_KEYBOARD (es @ ?e) 0 = kb_line kb'"
    using insert_line [of k kb] kb(7) by (simp add: kb'_def)
  ultimately show ?thesis unfolding m kb_ready_def by blast
qed


section \<open>The invariant of a read\<close>

lemma line_of_snoc: "line_of conv nn sh (codes @ [k]) = line_code conv nn k (line_of conv nn sh codes)"
  by (simp add: line_of_def)

lemma line_of_done: "ln_done (line_of conv nn sh codes) \<Longrightarrow> line_of conv nn sh (codes @ later) = line_of conv nn sh codes"
proof (induction later rule: rev_induct)
  case (snoc k later)
  then have "line_of conv nn sh ((codes @ later) @ [k]) = line_of conv nn sh codes"
    unfolding line_of_snoc by (simp add: line_code_def)
  then show ?case by simp
qed simp

text \<open>After \<open>codes\<close> have been handled, the variables of the module hold the line they make.\<close>

definition tas_line :: "nat \<Rightarrow> u8 list \<Rightarrow> tastiera \<Rightarrow> line \<Rightarrow> tastiera \<Rightarrow> bool" where
  "tas_line nn vv t0 l t \<longleftrightarrow>
     length (ln_text l) \<le> nn \<and> (\<not> ln_done l \<longrightarrow> length (ln_text l) < nn \<and> ts_punt t = length (ln_text l)) \<and>
     ts_shift t = ln_shift l \<and> ts_echo t = ts_echo t0 @ ln_text l \<and>
     ts_sem t = ts_sem t0 + (if ln_done l then 1 else 0) \<and>
     ts_cont t = of_nat (nn - length (ln_text l)) \<and>
     ts_vv t = ln_text l @ drop (length (ln_text l)) vv"

definition tas_inv ::
  "conv \<Rightarrow> nat \<Rightarrow> u8 list \<Rightarrow> tastiera \<Rightarrow> machine \<Rightarrow> u8 list \<Rightarrow> u8 list \<Rightarrow> tastiera \<times> cpu \<Rightarrow> bool" where
  "tas_inv conv nn vv t0 m codes rest s \<longleftrightarrow>
     (let l = line_of conv nn (ts_shift t0) codes
      in kb_ready (\<not> ln_done l) rest m (snd s) \<and> tas_line nn vv t0 l (fst s))"

lemma list_put_front:
  "length xs < length vv \<Longrightarrow> (xs @ drop (length xs) vv)[length xs := a] = (xs @ [a]) @ drop (Suc (length xs)) vv"
  by (simp add: list_update_append Cons_nth_drop_Suc [symmetric])

text \<open>The effect of one code on the variables.\<close>

lemma handler_line:
  assumes "tas_line nn vv t0 l t" "\<not> ln_done l" "nn \<le> length vv" "nn < 2 ^ 31"
  shows "let t1 = shift_key code t; a = conv (ts_shift t1) code; l' = line_code conv nn code l;
      t2 = t1\<lparr>ts_cont := ts_cont t1 - 1, ts_vv := (ts_vv t1)[ts_punt t1 := a], ts_echo := ts_echo t1 @ [a]\<rparr>
    in (a = 0 \<longrightarrow> tas_line nn vv t0 l' t1 \<and> \<not> ln_done l') \<and>
       (a \<noteq> 0 \<longrightarrow> ts_punt t1 < length (ts_vv t1) \<and> (ln_done l' \<longleftrightarrow> a = 10 \<or> ts_cont t2 = 0) \<and>
          (ln_done l' \<longrightarrow> tas_line nn vv t0 l' (t2\<lparr>ts_sem := ts_sem t2 + 1\<rparr>)) \<and>
          (\<not> ln_done l' \<longrightarrow> tas_line nn vv t0 l' (t2\<lparr>ts_punt := ts_punt t2 + 1\<rparr>)))"
proof -
  let ?n = "length (ln_text l)"
  let ?sh = "if code = 0x2A then True else if code = 0xAA then False else ln_shift l"
  note l = assms(1) [unfolded tas_line_def]
  have t1: "shift_key code t = t\<lparr>ts_shift := ?sh\<rparr>"
    using l by (intro tastiera.equality) (simp_all add: shift_key_def)
  have lt: "?n < nn" using l assms(2) by simp
  have cont: "of_nat (nn - ?n) - 1 = (of_nat (nn - Suc ?n) :: u32)" using lt by (simp add: of_nat_diff)
  have "unat (of_nat (nn - Suc ?n) :: u32) = nn - Suc ?n" using assms(4) by (intro unat_of_nat_word) simp
  then have zero: "(of_nat (nn - Suc ?n) :: u32) = 0 \<longleftrightarrow> Suc ?n = nn"
    using lt by (simp only: unat_eq_0 [symmetric]) auto
  have "of_nat nn - of_nat ?n = (of_nat (nn - ?n) :: u32)" using lt by (simp add: of_nat_diff)
  moreover have "x = 1 \<longleftrightarrow> x - 1 = 0" for x :: u32 by simp
  ultimately have one: "of_nat nn - of_nat ?n = (1 :: u32) \<longleftrightarrow> Suc ?n = nn"
    by (simp only: cont zero)
  have put: "(ln_text l @ drop ?n vv)[?n := a] = (ln_text l @ [a]) @ drop (Suc ?n) vv" for a
    using lt assms(3) by (intro list_put_front) simp
  show ?thesis
    using l assms(2,3) lt put
    by (simp add: Let_def t1 line_code_def tas_line_def cont zero one)
qed

lemma handler_step:
  assumes "tas_inv conv nn vv t0 m codes rest (t, c)" "keeps_length fill" "nn \<le> length vv" "nn < 2 ^ 31" "irq_high c"
  shows "\<exists>k q t' c'. rest = k # q \<and> c_driv_tasint fill conv t c = Inr (t', c') \<and>
    tas_inv conv nn vv t0 m (codes @ [k]) q (t', c')"
proof -
  define l where "l = line_of conv nn (ts_shift t0) codes"
  have inv: "kb_ready (\<not> ln_done l) rest m c" "tas_line nn vv t0 l t"
    using assms(1) by (simp_all add: tas_inv_def l_def Let_def)
  have nd: "\<not> ln_done l" "rest \<noteq> []" using irq_high_iff [OF inv(1)] assms(5) by simp_all
  then obtain k q where r: "rest = k # q" by (cases rest) auto
  obtain kb es where kb: "at_kb m c kb es" "kb_inv kb" "kb_elems kb = k # q"
    "line_level INT_KEYBOARD es 0 = kb_line kb" using inv(1) r by (auto simp: kb_ready_def)
  obtain c1 kb1 es1 where c1: "richieste 0x60 c = Inr c1" "at_kb m c1 kb1 es1" "kb_inv kb1" "kb_enabled kb1"
    "kb_elems kb1 = k # q" "\<not> kb_interrupt_enabled kb1" "line_level INT_KEYBOARD es1 0 = kb_line kb1"
    using richieste_run [OF kb(1,2,4), of "0x60"] kb(3) by auto
  obtain c2 where c2: "get_code_int fill c1 = Inr (k, c2)" "kb_ready False q m c2"
    using get_code_run [OF c1(2) assms(2) c1(3-7)] by blast
  obtain c3 where c3: "richieste 0x61 c2 = Inr c3" "kb_ready True q m c3"
    using richieste_ready [OF c2(2)] by blast
  note line = handler_line [OF inv(2) nd(1) assms(3,4), of k conv, unfolded Let_def]
  have snoc: "line_of conv nn (ts_shift t0) (codes @ [k]) = line_code conv nn k l"
    by (simp add: line_of_snoc l_def)
  show ?thesis
    using line c2 c3 unfolding r tas_inv_def Let_def
    by (cases "conv (ts_shift (shift_key k t)) k = 0"; cases "ln_done (line_code conv nn k l)")
       (auto simp: c_driv_tasint_def c1(1) Let_def snoc)
qed

lemma tas_start_inv:
  assumes "c_leggi_linea (int nn) vv t0 c0 = Inr s" "kb_inv (m_keyb (c_machine c0))"
    "line_level INT_KEYBOARD (c_irqs c0) 0 = kb_line (m_keyb (c_machine c0))" "4 \<le> length (c_area c0)"
    "1 \<le> nn"
  shows "tas_inv conv nn vv t0 (c_machine c0) [] (kb_elems (m_keyb (c_machine c0))) s"
proof -
  have at: "at_kb (c_machine c0) c0 (m_keyb (c_machine c0)) (c_irqs c0)" using assms(4) by (simp add: at_kb_def)
  obtain c1 kb es where c1: "richieste 0x61 c0 = Inr c1" "at_kb (c_machine c0) c1 kb es" "kb_inv kb"
    "kb_enabled kb" "kb_elems kb = kb_elems (m_keyb (c_machine c0))" "kb_interrupt_enabled kb"
    "line_level INT_KEYBOARD es 0 = kb_line kb"
    using richieste_run [OF at assms(2,3), of "0x61"] by auto
  then have "kb_ready True (kb_elems (m_keyb (c_machine c0))) (c_machine c0) c1" by (auto simp: kb_ready_def)
  then show ?thesis
    using assms(1,5) c1(1) by (auto simp: c_leggi_linea_def tas_inv_def tas_line_def line_of_def)
qed

lemma tas_run_inv:
  assumes "tas_run fill conv s acc s'" "tas_inv conv nn vv t0 m [] q0 s" "keeps_length fill"
    "nn \<le> length vv" "nn < 2 ^ 31"
  shows "\<exists>codes rest. codes @ rest = q0 @ acc \<and> tas_inv conv nn vv t0 m codes rest s'"
  using assms(1)
proof (induction rule: tas_run.induct)
  case tas_start
  then show ?case using assms(2) by (intro exI [of _ "[]"] exI [of _ q0]) simp
next
  case (tas_key acc t c k)
  then obtain codes rest where cr: "codes @ rest = q0 @ acc" "tas_inv conv nn vv t0 m codes rest (t, c)" by blast
  let ?add = "\<lambda>q. if kb_buffer_element_count (m_keyb (c_machine c)) < INTERNAL_BUFFER_SIZE then q @ [k] else q"
  have "tas_inv conv nn vv t0 m codes (?add rest) (t, type_key k c)"
    using cr(2) type_key_ready [of _ rest m c k] by (simp add: tas_inv_def Let_def)
  moreover have "codes @ ?add rest = q0 @ ?add acc" using cr(1) by simp
  ultimately show ?case by blast
next
  case (tas_irq acc t c t' c')
  then obtain codes rest where cr: "codes @ rest = q0 @ acc" "tas_inv conv nn vv t0 m codes rest (t, c)" by blast
  obtain k q where "rest = k # q" "tas_inv conv nn vv t0 m (codes @ [k]) q (t', c')"
    using handler_step [OF cr(2) assms(3-5) tas_irq.hyps(2)] tas_irq.hyps(3) by auto
  then show ?case using cr(1) by (intro exI [of _ "codes @ [k]"] exI [of _ q]) simp
qed

text \<open>Without further keys the handler keeps running until the line is complete or the buffer empty.\<close>

lemma tas_drain:
  assumes "tas_inv conv nn vv t0 m codes rest s'" "tas_run fill conv s acc s'" "keeps_length fill"
    "nn \<le> length vv" "nn < 2 ^ 31" "ln_done (line_of conv nn (ts_shift t0) (codes @ rest))"
  shows "\<exists>codes' rest' s''. tas_run fill conv s acc s'' \<and> codes @ rest = codes' @ rest' \<and>
    tas_inv conv nn vv t0 m codes' rest' s'' \<and> ln_done (line_of conv nn (ts_shift t0) codes')"
  using assms(1,2,6)
proof (induction rest arbitrary: codes s')
  case Nil
  then show ?case by (intro exI [of _ codes] exI [of _ "[]"] exI [of _ s']) simp
next
  case (Cons k rest)
  obtain t c where s': "s' = (t, c)" by (cases s')
  show ?case
  proof (cases "ln_done (line_of conv nn (ts_shift t0) codes)")
    case True
    then show ?thesis using Cons.prems(1,2) by blast
  next
    case False
    then have "irq_high c"
      using irq_high_iff [of True "k # rest" m c] Cons.prems(1) by (simp add: tas_inv_def s')
    then obtain t1 c1 where h: "c_driv_tasint fill conv t c = Inr (t1, c1)"
      "tas_inv conv nn vv t0 m (codes @ [k]) rest (t1, c1)"
      using handler_step [OF Cons.prems(1) [unfolded s'] assms(3-5)] by auto
    have "tas_run fill conv s acc (t1, c1)"
      using tas_irq [of fill conv s acc t c] Cons.prems(2) \<open>irq_high c\<close> h(1) by (simp add: s')
    then show ?thesis using Cons.IH [OF h(2)] Cons.prems(3) by simp
  qed
qed


section \<open>Properties\<close>

lemma esito_length:
  assumes "tas_line nn vv t0 l t" "nn < 2 ^ 31"
  shows "leggi_linea_esito (int nn) t = int (length (ln_text l))"
proof -
  let ?n = "length (ln_text l)"
  have n: "?n \<le> nn" "ts_cont t = of_nat (nn - ?n)" using assms(1) by (simp_all add: tas_line_def)
  have "word_of_int (int nn) - ts_cont t = (of_nat ?n :: u32)"
    using n by (simp add: of_nat_diff)
  moreover have "sint (of_nat ?n :: u32) = int ?n"
    using n(1) assms(2) by (simp add: signed_of_nat signed_take_bit_int_eq_self)
  ultimately show ?thesis by (simp add: leggi_linea_esito_def)
qed

lemma stampa_line:
  assumes "tas_line nn vv t0 l t" "nn < 2 ^ 31"
  shows "main_tas_stampa (leggi_linea_esito (int nn) t) (ts_vv t) = ln_text l"
  unfolding esito_length [OF assms] using assms(1) by (simp add: main_tas_stampa_def tas_line_def)

text \<open>While there is room every key typed is accepted.\<close>

lemma tas_type_all:
  assumes "tas_run fill conv s acc (t, c)" "kb_ready on q m c" "length q + length ks \<le> INTERNAL_BUFFER_SIZE"
  shows "\<exists>c'. tas_run fill conv s (acc @ ks) (t, c') \<and> kb_ready on (q @ ks) m c'"
  using assms
proof (induction ks arbitrary: acc c q)
  case (Cons k ks)
  have "kb_elems (m_keyb (c_machine c)) = q" using Cons.prems(2) by (auto simp: kb_ready_def at_kb_def)
  then have "kb_buffer_element_count (m_keyb (c_machine c)) < INTERNAL_BUFFER_SIZE"
    using Cons.prems(3) length_kb_elems [of "m_keyb (c_machine c)"] by simp
  then have "tas_run fill conv s (acc @ [k]) (t, type_key k c)" "kb_ready on (q @ [k]) m (type_key k c)"
    using tas_key [OF Cons.prems(1), of k] type_key_ready [OF Cons.prems(2), of k] by simp_all
  from Cons.IH [OF this] Cons.prems(3) show ?case by simp
qed auto

text \<open>An example: keys typed while a call waits for characters.\<close>

definition tas_example :: tastiera where
  "tas_example = \<lparr>ts_cont = 0, ts_punt = 0, ts_vv = [], ts_shift = False, ts_sem = 0, ts_echo = []\<rparr>"

lemma example_read:
  assumes "length codes \<le> INTERNAL_BUFFER_SIZE"
  shows "\<exists>c0 t c1 c. c_leggi_linea (int 1) [0, 0] tas_example c0 = Inr (t, c1) \<and>
     tas_run id conv (t, c1) codes (t, c) \<and> machine_inv (c_machine c0) \<and> 4 \<le> length (c_area c0) \<and>
     line_level INT_KEYBOARD (c_irqs c0) 0 = kb_line (m_keyb (c_machine c0)) \<and>
     kb_elems (m_keyb (c_machine c0)) = [] \<and> kb_elems (m_keyb (c_machine c)) = codes"
proof -
  obtain m where m: "initIO (0, 0, 0, 0) small_disk = Inr m" using example_machine by blast
  note f = initIO_fields [OF m small_disk_fields(1)]
  let ?c0 = "\<lparr>c_machine = m, c_area = [0, 0, 0, 0], c_irqs = []\<rparr>"
  let ?t = "tas_example\<lparr>ts_cont := 1, ts_punt := 0, ts_vv := [0, 0]\<rparr>"
  have k: "kb_inv (m_keyb m)" "kb_elems (m_keyb m) = []" "kb_line (m_keyb m) = 0"
    by (simp_all add: f(2) keyboard_new_def kb_line_def kb_inv_defs)
  have at: "at_kb m ?c0 (m_keyb m) []" by (simp add: at_kb_def)
  obtain c1 where c1: "richieste 0x61 ?c0 = Inr c1" "kb_ready True [] m c1"
    using richieste_run [OF at k(1), of "0x61"] k(2,3) by (auto simp: kb_ready_def)
  obtain c where c: "tas_run id conv (?t, c1) codes (?t, c)" "kb_ready True codes m c"
    using tas_type_all [OF tas_start c1(2), of codes id conv ?t] assms by auto
  then have "kb_elems (m_keyb (c_machine c)) = codes" by (auto simp: kb_ready_def at_kb_def)
  moreover have "c_leggi_linea (int 1) [0, 0] tas_example ?c0 = Inr (?t, c1)"
    using c1(1) by (simp add: c_leggi_linea_def)
  ultimately show ?thesis using f(1) k(2,3) c(1)
    by (intro exI [of _ ?c0] exI [of _ ?t] exI [of _ c1] exI [of _ c]) simp
qed

text \<open>
  (C16) Reading a line: start \<open>leggi_linea\<close> for \<open>nn\<close> characters on a machine whose keyboard already
  holds some codes, and let keys arrive and the handler run in any order. At every moment the
  codes that were accepted are split into those handled and those still in the keyboard, in
  order, and the variables hold exactly the line that the handled codes make: its characters at
  the start of the caller's array and on the screen, in the right shift state. The line ends at
  a newline or after \<open>nn\<close> characters; from then on the semaphore has been signalled once, the call
  reports the length of the line, \<open>main\<close> prints it, and the keyboard raises no interrupt. Until then the
  interrupt line is high exactly when a code is waiting, and the handler can run without an access
  outside the array.
\<close>

theorem leggi_linea_collects:
  assumes "c_leggi_linea (int nn) vv t0 c0 = Inr s" "tas_run fill conv s acc (t, c)"
    "machine_inv (c_machine c0)" "4 \<le> length (c_area c0)" "keeps_length fill"
    "line_level INT_KEYBOARD (c_irqs c0) 0 = kb_line (m_keyb (c_machine c0))"
    "1 \<le> nn" "nn \<le> length vv" "nn < 2 ^ 31"
  shows "\<exists>codes. codes @ kb_elems (m_keyb (c_machine c)) = kb_elems (m_keyb (c_machine c0)) @ acc \<and>
    (let l = line_of conv nn (ts_shift t0) codes in
       ts_shift t = ln_shift l \<and> ts_echo t = ts_echo t0 @ ln_text l \<and>
       take (length (ln_text l)) (ts_vv t) = ln_text l \<and> length (ln_text l) \<le> nn \<and>
       (if ln_done l
        then ts_sem t = ts_sem t0 + 1 \<and> leggi_linea_esito (int nn) t = int (length (ln_text l)) \<and>
          main_tas_stampa (leggi_linea_esito (int nn) t) (ts_vv t) = ln_text l \<and> \<not> irq_high c
        else ts_sem t = ts_sem t0 \<and> (irq_high c \<longleftrightarrow> kb_elems (m_keyb (c_machine c)) \<noteq> []) \<and>
          (irq_high c \<longrightarrow> (\<exists>s'. c_driv_tasint fill conv t c = Inr s'))))"
proof -
  have kb: "kb_inv (m_keyb (c_machine c0))" using assms(3) by (simp add: machine_inv_def)
  obtain codes rest where cr: "codes @ rest = kb_elems (m_keyb (c_machine c0)) @ acc"
    and inv: "tas_inv conv nn vv t0 (c_machine c0) codes rest (t, c)"
    using tas_run_inv [OF assms(2) tas_start_inv [OF assms(1) kb assms(6,4,7)] assms(5,8,9)] by blast
  define l where "l = line_of conv nn (ts_shift t0) codes"
  have l: "kb_ready (\<not> ln_done l) rest (c_machine c0) c" "tas_line nn vv t0 l t"
    using inv by (simp_all add: tas_inv_def l_def Let_def)
  have rest: "kb_elems (m_keyb (c_machine c)) = rest" using l(1) by (auto simp: kb_ready_def at_kb_def)
  have line: "ts_shift t = ln_shift l" "ts_echo t = ts_echo t0 @ ln_text l" "length (ln_text l) \<le> nn"
    "take (length (ln_text l)) (ts_vv t) = ln_text l" "ts_sem t = ts_sem t0 + (if ln_done l then 1 else 0)"
    using l(2) by (simp_all add: tas_line_def)
  have irq: "irq_high c \<longleftrightarrow> \<not> ln_done l \<and> rest \<noteq> []" by (rule irq_high_iff [OF l(1)])
  have handler: "irq_high c \<longrightarrow> (\<exists>s'. c_driv_tasint fill conv t c = Inr s')"
    using handler_step [OF inv assms(5,8,9)] by blast
  have "ts_shift t = ln_shift l \<and> ts_echo t = ts_echo t0 @ ln_text l \<and>
       take (length (ln_text l)) (ts_vv t) = ln_text l \<and> length (ln_text l) \<le> nn \<and>
       (if ln_done l
        then ts_sem t = ts_sem t0 + 1 \<and> leggi_linea_esito (int nn) t = int (length (ln_text l)) \<and>
          main_tas_stampa (leggi_linea_esito (int nn) t) (ts_vv t) = ln_text l \<and> \<not> irq_high c
        else ts_sem t = ts_sem t0 \<and> (irq_high c \<longleftrightarrow> kb_elems (m_keyb (c_machine c)) \<noteq> []) \<and>
          (irq_high c \<longrightarrow> (\<exists>s'. c_driv_tasint fill conv t c = Inr s')))"
    using line irq handler esito_length [OF l(2) assms(9)] stampa_line [OF l(2) assms(9)]
    unfolding rest by (cases "ln_done l") simp_all
  then show ?thesis using cr unfolding l_def rest Let_def by blast
qed

theorem leggi_linea_collects_witness:
  "\<exists>c0 s t c. c_leggi_linea (int 1) [0, 0] tas_example c0 = Inr s \<and> tas_run id code_char s [0x1E] (t, c) \<and>
     ts_sem t = 0 \<and> irq_high c"
proof -
  obtain c0 t c1 c where r: "c_leggi_linea (int 1) [0, 0] tas_example c0 = Inr (t, c1)"
    "tas_run id code_char (t, c1) [0x1E] (t, c)" "machine_inv (c_machine c0)" "4 \<le> length (c_area c0)"
    "line_level INT_KEYBOARD (c_irqs c0) 0 = kb_line (m_keyb (c_machine c0))"
    "kb_elems (m_keyb (c_machine c0)) = []" "kb_elems (m_keyb (c_machine c)) = [0x1E]"
    using example_read [of "[0x1E]" code_char] by auto
  have "keeps_length id" by (simp add: keeps_length_def)
  from leggi_linea_collects [OF r(1-4) this r(5)] have "ts_sem t = 0 \<and> irq_high c"
    by (auto simp: r(6,7) line_of_def tas_example_def Let_def)
  then show ?thesis using r(1,2) by blast
qed

text \<open>
  No key is waited for in vain: as soon as the accepted codes make a complete line, the handler
  needs no further key to finish it. There is a continuation of the run, of handler runs only,
  after which the semaphore has been signalled and the array holds the line.
\<close>

lemma leggi_linea_completes:
  assumes "c_leggi_linea (int nn) vv t0 c0 = Inr s" "tas_run fill conv s acc s'"
    "machine_inv (c_machine c0)" "4 \<le> length (c_area c0)" "keeps_length fill"
    "line_level INT_KEYBOARD (c_irqs c0) 0 = kb_line (m_keyb (c_machine c0))"
    "1 \<le> nn" "nn \<le> length vv" "nn < 2 ^ 31"
    "l = line_of conv nn (ts_shift t0) (kb_elems (m_keyb (c_machine c0)) @ acc)" "ln_done l"
  shows "\<exists>t c. tas_run fill conv s acc (t, c) \<and> ts_sem t = ts_sem t0 + 1 \<and>
    ts_echo t = ts_echo t0 @ ln_text l \<and>
    main_tas_stampa (leggi_linea_esito (int nn) t) (ts_vv t) = ln_text l"
proof -
  have kb: "kb_inv (m_keyb (c_machine c0))" using assms(3) by (simp add: machine_inv_def)
  obtain codes rest where cr: "codes @ rest = kb_elems (m_keyb (c_machine c0)) @ acc"
    and inv: "tas_inv conv nn vv t0 (c_machine c0) codes rest s'"
    using tas_run_inv [OF assms(2) tas_start_inv [OF assms(1) kb assms(6,4,7)] assms(5,8,9)] by blast
  obtain codes' rest' t c where d: "tas_run fill conv s acc (t, c)" "codes @ rest = codes' @ rest'"
    "tas_inv conv nn vv t0 (c_machine c0) codes' rest' (t, c)" "ln_done (line_of conv nn (ts_shift t0) codes')"
    using tas_drain [OF inv assms(2,5,8,9)] assms(10,11) cr by (metis surj_pair)
  have l: "line_of conv nn (ts_shift t0) codes' = l"
    using line_of_done [OF d(4), of rest'] cr d(2) assms(10) by simp
  then have "tas_line nn vv t0 l t" using d(3) by (simp add: tas_inv_def Let_def)
  then show ?thesis using d(1) assms(11) stampa_line [OF _ assms(9)] by (auto simp: tas_line_def)
qed

text \<open>
  With the layout of the console's tables, which \<open>code_char\<close> reads backwards, the line that the
  codes make is the text they decode to.
\<close>

lemma code_char_ignores:
  assumes "k \<notin> set enc_tab"
  shows "code_char sh k = 0"
  using table_search_absent [of enc_tab k] assms by (simp add: code_char_def)

text \<open>What is asked of the library's \<open>conv\<close>: it knows the keys of the console's tables and no others.\<close>

definition same_layout :: "conv \<Rightarrow> bool" where
  "same_layout conv \<longleftrightarrow>
     (\<forall>sh. (\<forall>i<MAX_CODE. conv sh (enc_tab ! i) = (if sh then enc_tabmai ! i else enc_tabmin ! i)) \<and>
           (\<forall>k. k \<notin> set enc_tab \<longrightarrow> conv sh k = 0))"

lemma code_char_layout: "same_layout code_char"
  by (simp add: same_layout_def code_char_tab code_char_ignores)

lemma same_layout_unique:
  assumes "same_layout conv"
  shows "conv = code_char"
proof (intro ext)
  fix sh k
  show "conv sh k = code_char sh k"
  proof (cases "k \<in> set enc_tab")
    case True
    then obtain i where "i < MAX_CODE" "k = enc_tab ! i" by (auto simp: in_set_conv_nth)
    then show ?thesis using assms by (simp add: same_layout_def code_char_tab)
  qed (use assms in \<open>simp add: same_layout_def code_char_ignores\<close>)
qed

lemma not_in_enc_tab: "k = 0x2A \<or> k AND 0x80 \<noteq> 0 \<Longrightarrow> k \<notin> set enc_tab"
  using enc_tab_codes by (auto simp: list_all_iff)

lemma line_of_decoded:
  assumes "decode_codes (ln_shift l) codes = body @ [10]" "10 \<notin> set body" "0 \<notin> set body"
    "length (ln_text l) + length body < nn" "\<not> ln_done l"
  shows "ln_done (fold (line_code code_char nn) codes l) \<and>
    ln_text (fold (line_code code_char nn) codes l) = ln_text l @ body @ [10]"
  using assms
proof (induction codes arbitrary: l body)
  case (Cons k codes)
  let ?l = "line_code code_char nn k l"
  have stays: "fold (line_code code_char nn) ks l' = l'" if "ln_done l'" for ks l'
    using that by (induction ks) (simp_all add: line_code_def)
  consider (quiet) "k = 0x2A \<or> k AND 0x80 \<noteq> 0" | (char) "k \<noteq> 0x2A" "k AND 0x80 = 0" by blast
  then show ?case
  proof cases
    case quiet
    then have z: "code_char sh k = 0" for sh by (intro code_char_ignores not_in_enc_tab)
    have "?l = l\<lparr>ln_shift := (if k = 0x2A then True else if k = 0xAA then False else ln_shift l)\<rparr>"
      using Cons.prems(5) by (simp add: line_code_def z Let_def)
    moreover have "decode_codes (if k = 0x2A then True else if k = 0xAA then False else ln_shift l) codes = body @ [10]"
      using Cons.prems(1) quiet by (auto split: if_splits)
    ultimately show ?thesis using Cons.IH [of ?l body] Cons.prems(2-5) by simp
  next
    case char
    have k: "k \<noteq> 0xAA" using char(2) by auto
    then have dec: "code_char (ln_shift l) k # decode_codes (ln_shift l) codes = body @ [10]"
      using Cons.prems(1) char by simp
    show ?thesis
    proof (cases body)
      case Nil
      then have "?l = l\<lparr>ln_text := ln_text l @ [10], ln_done := True\<rparr>"
        using dec Cons.prems(5) char(1) k by (simp add: line_code_def Let_def)
      then show ?thesis using stays [of ?l codes] Nil by simp
    next
      case (Cons b body')
      then have b: "code_char (ln_shift l) k = b" "decode_codes (ln_shift l) codes = body' @ [10]"
        "b \<noteq> 10" "b \<noteq> 0" using dec Cons.prems(2,3) by auto
      have "?l = l\<lparr>ln_text := ln_text l @ [b]\<rparr>"
        using b Cons.prems(4,5) char(1) k Cons by (simp add: line_code_def Let_def)
      then show ?thesis using Cons.IH [of ?l body'] b(2) Cons.prems(2-5) Cons by simp
    qed
  qed
qed simp

lemma supported_nonzero: "supported c \<Longrightarrow> c \<noteq> 0"
  by (auto simp: supported_def enc_tabmin_def enc_tabmai_def)

lemma typed_line:
  assumes "\<forall>a\<in>set body. supported a" "10 \<notin> set body" "length body < nn"
  shows "let l = line_of code_char nn False
      (fst (console_main_thread (map Got (body @ [10])) (console_input_new junk)))
    in ln_done l \<and> ln_text l = body @ [10]"
proof -
  have "supported 10" by (simp add: supported_def enc_tabmai_def)
  then have "\<forall>a\<in>set (body @ [10]). supported a" using assms(1) by simp
  from console_roundtrip_gen [OF this, of "console_input_new junk"] show ?thesis
    using line_of_decoded [of "\<lparr>ln_shift = False, ln_text = [], ln_done = False\<rparr>" _ body nn]
      assms supported_nonzero by (auto simp: line_of_def console_input_new_def Let_def)
qed



end
