(* ===== verification/KeyboardProgram.thy ===== *)
theory KeyboardProgram
  imports KeyboardDriver
begin

text \<open>
  The assembly program \<open>target/keyboard_program.s\<close>: it turns the interrupts of the keyboard off, polls
  its status register, and sends every scan code it reads, followed by a newline, to the second
  serial port.
\<close>

section \<open>The program\<close>

definition key_program_start :: "cpu \<Rightarrow> cpu res" where
  "key_program_start c = bind_res (outputb 0x60 0x64 c) (outputb 0x60 0x60)"

text \<open>Once around the loop at \<open>wait_char\<close>: back at once if bit 0 of the status is clear.\<close>

definition key_program_turn :: "fill \<Rightarrow> cpu \<Rightarrow> cpu res" where
  "key_program_turn fill c =
     bind_res (inputb fill 0x64 c) (\<lambda>(al, c).
       if al AND 0x01 = 0 then Inr c
       else bind_res (inputb fill 0x60 c) (\<lambda>(al, c).
            bind_res (outputb al 0x2F8 c) (\<lambda>c. outputb 10 0x2F8 c)))"

text \<open>Keys arrive between two turns; the last argument but one collects those the keyboard accepts.\<close>

inductive echo_run :: "fill \<Rightarrow> cpu \<Rightarrow> u8 list \<Rightarrow> cpu \<Rightarrow> bool" for fill c0 where
  echo_start: "echo_run fill c0 [] c0"
| echo_key: "echo_run fill c0 acc c \<Longrightarrow>
    echo_run fill c0
      (if kb_buffer_element_count (m_keyb (c_machine c)) < INTERNAL_BUFFER_SIZE then acc @ [k] else acc)
      (type_key k c)"
| echo_turn: "echo_run fill c0 acc c \<Longrightarrow> key_program_turn fill c = Inr c' \<Longrightarrow> echo_run fill c0 acc c'"

definition echoed :: "u8 list \<Rightarrow> u8 list" where
  "echoed codes = concat (map (\<lambda>a. [a, 10]) codes)"

section \<open>One turn\<close>

lemma com2_out:
  assumes "at_kb (m\<lparr>m_com2 := s\<rparr>) c k es" "sp_base_addr s = 0x2F8"
  shows "\<exists>c' s'. outputb v 0x2F8 c = Inr c' \<and> at_kb (m\<lparr>m_com2 := s'\<rparr>) c' k es \<and> sp_base_addr s' = 0x2F8 \<and>
    sp_log s' = sp_log s @ [v]"
proof -
  let ?s = "serial_port_write_reg_byte 0x2F8 v s"
  have "com2p.at_dev (m\<lparr>m_keyb := k\<rparr>) c s es" using assms(1) by (simp add: com2p.at_dev_def at_kb_def)
  then obtain c' where "outputb v 0x2F8 c = Inr c'" "com2p.at_dev (m\<lparr>m_keyb := k\<rparr>) c' ?s es"
    using com2p.guest_out [of "m\<lparr>m_keyb := k\<rparr>" c s es "0x2F8" v ?s "[]"] by auto
  moreover have "sp_base_addr ?s = 0x2F8" "sp_log ?s = sp_log s @ [v]"
    using assms(2) by (simp_all add: serial_port_write_reg_byte_def)
  moreover have "m\<lparr>m_keyb := k, m_com2 := ?s\<rparr> = m\<lparr>m_com2 := ?s, m_keyb := k\<rparr>" by simp
  ultimately show ?thesis by (intro exI [of _ c'] exI [of _ ?s]) (simp add: com2p.at_dev_def at_kb_def)
qed

text \<open>The keyboard is quiet with the codes \<open>rest\<close>, and the port has logged \<open>out\<close>.\<close>

definition echo_at :: "machine \<Rightarrow> u8 list \<Rightarrow> u8 list \<Rightarrow> cpu \<Rightarrow> bool" where
  "echo_at m rest out c \<longleftrightarrow>
     (\<exists>s. kb_ready False rest (m\<lparr>m_com2 := s\<rparr>) c \<and> sp_base_addr s = 0x2F8 \<and> sp_log s = out)"

lemma key_program_turn_run:
  assumes "echo_at m rest out c" "keeps_length fill"
  shows "\<exists>c'. key_program_turn fill c = Inr c' \<and>
    (case rest of [] \<Rightarrow> echo_at m [] out c' | a # q \<Rightarrow> echo_at m q (out @ [a, 10]) c')"
proof -
  obtain s k es where s: "at_kb (m\<lparr>m_com2 := s\<rparr>) c k es" "sp_base_addr s = 0x2F8" "sp_log s = out"
    and k: "kb_inv k" "kb_enabled k" "kb_elems k = rest" "\<not> kb_interrupt_enabled k" "\<not> kb_interrupt_raised k"
      "line_level INT_KEYBOARD es 0 = kb_line k"
    using assms(1) by (auto simp: echo_at_def kb_ready_def)
  have "keyboard_read_reg_byte 0x64 k = (kb_STR k, k, [])" by (simp add: keyboard_read_reg_byte_def)
  then obtain c1 where c1: "inputb fill 0x64 c = Inr (kb_STR k, c1)" "at_kb (m\<lparr>m_com2 := s\<rparr>) c1 k es"
    using guest_kb_in [OF s(1) _ _ assms(2), of "0x64" "kb_STR k" k "[]"] by auto
  have str: "kb_STR k AND 1 = 0 \<longleftrightarrow> rest = []"
    using k(1) k(3) [symmetric] by (simp add: kb_inv_defs kb_elems_empty_iff)
  show ?thesis
  proof (cases rest)
    case Nil
    have "kb_ready False [] (m\<lparr>m_com2 := s\<rparr>) c1" using c1(2) k Nil by (auto simp: kb_ready_def)
    then show ?thesis using c1(1) str Nil s(2,3) by (auto simp: key_program_turn_def echo_at_def)
  next
    case (Cons a q)
    obtain c2 where c2: "get_code_int fill c1 = Inr (a, c2)" "kb_ready False q (m\<lparr>m_com2 := s\<rparr>) c2"
      using get_code_run [OF c1(2) assms(2) k(1,2) _ k(4,6)] k(3) Cons by blast
    obtain k2 es2 where k2: "at_kb (m\<lparr>m_com2 := s\<rparr>) c2 k2 es2" "kb_inv k2" "kb_enabled k2" "kb_elems k2 = q"
      "\<not> kb_interrupt_enabled k2" "\<not> kb_interrupt_raised k2" "line_level INT_KEYBOARD es2 0 = kb_line k2"
      using c2(2) by (auto simp: kb_ready_def)
    obtain c3 s3 where c3: "outputb a 0x2F8 c2 = Inr c3" "at_kb (m\<lparr>m_com2 := s3\<rparr>) c3 k2 es2"
      "sp_base_addr s3 = 0x2F8" "sp_log s3 = out @ [a]" using com2_out [OF k2(1) s(2), of a] s(3) by auto
    obtain c4 s4 where c4: "outputb 10 0x2F8 c3 = Inr c4" "at_kb (m\<lparr>m_com2 := s4\<rparr>) c4 k2 es2"
      "sp_base_addr s4 = 0x2F8" "sp_log s4 = out @ [a, 10]" using com2_out [OF c3(2,3), of 10] c3(4) by auto
    have "kb_ready False q (m\<lparr>m_com2 := s4\<rparr>) c4" using c4(2) k2(2-7) by (auto simp: kb_ready_def)
    then have "echo_at m q (out @ [a, 10]) c4" using c4(3,4) by (auto simp: echo_at_def)
    moreover have "key_program_turn fill c = Inr c4"
      using c1(1) c2(1) c3(1) c4(1) str Cons by (simp add: key_program_turn_def get_code_int_def)
    ultimately show ?thesis using Cons by simp
  qed
qed

section \<open>Properties\<close>

lemma key_program_start_run:
  assumes "key_program_start c0 = Inr c1" "machine_inv (c_machine c0)" "4 \<le> length (c_area c0)"
    "line_level INT_KEYBOARD (c_irqs c0) 0 = kb_line (m_keyb (c_machine c0))"
    "\<not> kb_interrupt_raised (m_keyb (c_machine c0))"
  shows "echo_at (c_machine c0) (kb_elems (m_keyb (c_machine c0))) (sp_log (m_com2 (c_machine c0))) c1"
proof -
  let ?m = "c_machine c0"
  have at: "at_kb ?m c0 (m_keyb ?m) (c_irqs c0)" using assms(3) by (simp add: at_kb_def)
  have kb: "kb_inv (m_keyb ?m)" using assms(2) by (simp add: machine_inv_def)
  have start: "richieste 0x60 c0 = Inr c1" using assms(1) by (simp add: key_program_start_def richieste_def)
  then obtain k es where "at_kb ?m c1 k es" "kb_inv k" "kb_enabled k" "kb_elems k = kb_elems (m_keyb ?m)"
    "\<not> kb_interrupt_enabled k" "\<not> kb_interrupt_raised k" "line_level INT_KEYBOARD es 0 = kb_line k"
    using richieste_run [OF at kb assms(4), of "0x60"] assms(5) by auto
  then have "kb_ready False (kb_elems (m_keyb ?m)) ?m c1" by (auto simp: kb_ready_def)
  moreover have "?m\<lparr>m_com2 := m_com2 ?m\<rparr> = ?m" by simp
  moreover have "sp_base_addr (m_com2 ?m) = 0x2F8" using assms(2) by (simp add: machine_inv_def sp_inv_def)
  ultimately show ?thesis unfolding echo_at_def by metis
qed

lemma echo_run_inv:
  assumes "echo_run fill c1 acc c" "echo_at m q0 log0 c1" "keeps_length fill"
  shows "\<exists>codes rest. codes @ rest = q0 @ acc \<and> echo_at m rest (log0 @ echoed codes) c"
  using assms(1)
proof (induction rule: echo_run.induct)
  case echo_start
  show ?case using assms(2) by (intro exI [of _ "[]"] exI [of _ q0]) (simp add: echoed_def)
next
  case (echo_key acc c k)
  then obtain codes rest where cr: "codes @ rest = q0 @ acc" "echo_at m rest (log0 @ echoed codes) c" by blast
  let ?add = "\<lambda>q. if kb_buffer_element_count (m_keyb (c_machine c)) < INTERNAL_BUFFER_SIZE then q @ [k] else q"
  have "echo_at m (?add rest) (log0 @ echoed codes) (type_key k c)"
    using cr(2) type_key_ready unfolding echo_at_def by blast
  moreover have "codes @ ?add rest = q0 @ ?add acc" using cr(1) by simp
  ultimately show ?case by blast
next
  case (echo_turn acc c c')
  then obtain codes rest where cr: "codes @ rest = q0 @ acc" "echo_at m rest (log0 @ echoed codes) c" by blast
  note t = key_program_turn_run [OF cr(2) assms(3)]
  show ?case
  proof (cases rest)
    case Nil
    then show ?thesis using t echo_turn.hyps(2) cr(1) by (intro exI [of _ codes] exI [of _ "[]"]) auto
  next
    case (Cons a q)
    then have "echo_at m q (log0 @ echoed (codes @ [a])) c'"
      using t echo_turn.hyps(2) by (auto simp: echoed_def)
    then show ?thesis using cr(1) Cons by (intro exI [of _ "codes @ [a]"] exI [of _ q]) simp
  qed
qed

text \<open>
  (C18) The echo program: start it on a machine whose keyboard has no interrupt pending, and let keys
  arrive between its turns in any way. At every moment the second serial port has logged exactly
  the codes read so far, in order and each followed by a newline, and the other accepted codes are
  still in the keyboard. The program never faults, and every turn with a code waiting sends one.
\<close>

theorem keyboard_program_echoes:
  assumes "key_program_start c0 = Inr c1" "echo_run fill c1 acc c" "machine_inv (c_machine c0)"
    "4 \<le> length (c_area c0)" "keeps_length fill"
    "line_level INT_KEYBOARD (c_irqs c0) 0 = kb_line (m_keyb (c_machine c0))"
    "\<not> kb_interrupt_raised (m_keyb (c_machine c0))"
  shows "\<exists>codes c'. codes @ kb_elems (m_keyb (c_machine c)) = kb_elems (m_keyb (c_machine c0)) @ acc \<and>
    sp_log (m_com2 (c_machine c)) = sp_log (m_com2 (c_machine c0)) @ echoed codes \<and>
    key_program_turn fill c = Inr c' \<and>
    sp_log (m_com2 (c_machine c')) = sp_log (m_com2 (c_machine c)) @ echoed (take 1 (kb_elems (m_keyb (c_machine c))))"
proof -
  have out: "kb_elems (m_keyb (c_machine c)) = rest" "sp_log (m_com2 (c_machine c)) = out"
    if "echo_at m rest out c" for m rest out c
    using that by (auto simp: echo_at_def kb_ready_def at_kb_def)
  obtain codes rest where cr: "codes @ rest = kb_elems (m_keyb (c_machine c0)) @ acc"
    and at: "echo_at (c_machine c0) rest (sp_log (m_com2 (c_machine c0)) @ echoed codes) c"
    using echo_run_inv [OF assms(2) key_program_start_run [OF assms(1,3,4,6,7)] assms(5)] by blast
  obtain c' where t: "key_program_turn fill c = Inr c'"
    "case rest of [] \<Rightarrow> echo_at (c_machine c0) [] (sp_log (m_com2 (c_machine c0)) @ echoed codes) c'
     | a # q \<Rightarrow> echo_at (c_machine c0) q ((sp_log (m_com2 (c_machine c0)) @ echoed codes) @ [a, 10]) c'"
    using key_program_turn_run [OF at assms(5)] by blast
  have "sp_log (m_com2 (c_machine c')) = sp_log (m_com2 (c_machine c0)) @ echoed codes @ echoed (take 1 rest)"
    using t(2) by (cases rest) (auto dest: out(2) simp: echoed_def)
  then show ?thesis using cr t(1) out [OF at] by (intro exI [of _ codes] exI [of _ c']) simp
qed

theorem keyboard_program_echoes_witness:
  "\<exists>c0 c1 c c'. key_program_start c0 = Inr c1 \<and> echo_run id c1 [0x1E] c \<and> key_program_turn id c = Inr c' \<and>
     sp_log (m_com2 (c_machine c')) = [0x1E, 10]"
proof -
  obtain m where m: "initIO (0, 0, 0, 0) small_disk = Inr m" using example_machine by blast
  note f = initIO_fields [OF m small_disk_fields(1)]
  let ?c0 = "\<lparr>c_machine = m, c_area = [0, 0, 0, 0], c_irqs = []\<rparr>"
  have k: "kb_inv (m_keyb m)" "kb_elems (m_keyb m) = []" "kb_line (m_keyb m) = 0" "\<not> kb_interrupt_raised (m_keyb m)"
    by (simp_all add: f(2) keyboard_new_def kb_line_def kb_inv_defs)
  have at: "at_kb m ?c0 (m_keyb m) []" by (simp add: at_kb_def)
  obtain c1 where c1: "key_program_start ?c0 = Inr c1" "kb_elems (m_keyb (c_machine c1)) = []"
    using richieste_run [OF at k(1), of "0x60"] k(2,3)
    by (auto simp: key_program_start_def richieste_def at_kb_def)
  then have "kb_buffer_element_count (m_keyb (c_machine c1)) < INTERNAL_BUFFER_SIZE" by simp
  then have run: "echo_run id c1 [0x1E] (type_key 0x1E c1)"
    using echo_key [OF echo_start [of id c1], of "0x1E"] by simp
  have "sp_log (m_com2 m) = []" using f by (simp add: serial_port_new_def)
  have "4 \<le> length (c_area ?c0)" "keeps_length id" by (simp_all add: keeps_length_def)
  from keyboard_program_echoes [OF c1(1) run _ this] f(1) k
  obtain codes c' where r: "codes @ kb_elems (m_keyb (c_machine (type_key 0x1E c1))) = [0x1E]"
    "key_program_turn id (type_key 0x1E c1) = Inr c'"
    "sp_log (m_com2 (c_machine c')) = echoed codes @ echoed (take 1 (kb_elems (m_keyb (c_machine (type_key 0x1E c1)))))"
    using \<open>sp_log (m_com2 m) = []\<close> by auto
  then have "sp_log (m_com2 (c_machine c')) = [0x1E, 10]"
    by (cases codes) (auto simp: echoed_def)
  then show ?thesis using c1(1) run r(2) by blast
qed

end
