(* ===== verification/KeyboardGates.thy ===== *)
theory KeyboardGates
  imports KeyboardDriver
begin

text \<open>
  How the keyboard driver is entered: the set-up \<open>ini\<close> of \<open>target-sources/int-tastiera/mod_tas.cpp\<close>,
  the assembly entry points of \<open>mod_tas.s\<close> and the system call in \<open>tas_int.s\<close>. The interrupt gates
  and the interrupt controller are programmed through functions of \<open>libce\<close>; they are the parameter
  \<open>libce\<close>, on a state of any type, with what the driver relies on as \<open>libce_ok\<close>.
\<close>

section \<open>The library\<close>

datatype routine = A_leggi_linea | A_driv_tasint

text \<open>
  The three functions that \<open>ini\<close> calls, the write of a long word at a physical address, the
  acceptance of an interrupt by the processor, and what can be observed: the routine behind a gate,
  the vector and the mask of a pin, and whether an interrupt is in service.
\<close>

record 'i libce =
  gate_init :: "u8 \<Rightarrow> routine \<Rightarrow> 'i \<Rightarrow> 'i"
  apic_set_VECT :: "u8 \<Rightarrow> u8 \<Rightarrow> 'i \<Rightarrow> 'i"
  apic_set_MIRQ :: "u8 \<Rightarrow> bool \<Rightarrow> 'i \<Rightarrow> 'i"
  mmio_write :: "u64 \<Rightarrow> u32 \<Rightarrow> 'i \<Rightarrow> 'i"
  accept :: "'i \<Rightarrow> 'i"
  gate :: "'i \<Rightarrow> u8 \<Rightarrow> routine option"
  vect :: "'i \<Rightarrow> u8 \<Rightarrow> u8"
  masked :: "'i \<Rightarrow> u8 \<Rightarrow> bool"
  in_service :: "'i \<Rightarrow> bool"

abbreviation APIC_EOI :: u64 where "APIC_EOI \<equiv> 0xFEE000B0"

definition libce_ok :: "'i libce \<Rightarrow> bool" where
  "libce_ok L \<longleftrightarrow>
     (\<forall>n r i. gate L (gate_init L n r i) = (gate L i)(n := Some r) \<and> vect L (gate_init L n r i) = vect L i \<and>
        masked L (gate_init L n r i) = masked L i \<and> in_service L (gate_init L n r i) = in_service L i) \<and>
     (\<forall>p v i. gate L (apic_set_VECT L p v i) = gate L i \<and> vect L (apic_set_VECT L p v i) = (vect L i)(p := v) \<and>
        masked L (apic_set_VECT L p v i) = masked L i \<and> in_service L (apic_set_VECT L p v i) = in_service L i) \<and>
     (\<forall>p b i. gate L (apic_set_MIRQ L p b i) = gate L i \<and> vect L (apic_set_MIRQ L p b i) = vect L i \<and>
        masked L (apic_set_MIRQ L p b i) = (masked L i)(p := b) \<and> in_service L (apic_set_MIRQ L p b i) = in_service L i) \<and>
     (\<forall>i. gate L (accept L i) = gate L i \<and> vect L (accept L i) = vect L i \<and> masked L (accept L i) = masked L i \<and>
        in_service L (accept L i)) \<and>
     (\<forall>v i. gate L (mmio_write L APIC_EOI v i) = gate L i \<and> vect L (mmio_write L APIC_EOI v i) = vect L i \<and>
        masked L (mmio_write L APIC_EOI v i) = masked L i \<and> \<not> in_service L (mmio_write L APIC_EOI v i))"

section \<open>Operations\<close>

definition ini :: "'i libce \<Rightarrow> 'i \<Rightarrow> 'i" where
  "ini L i = apic_set_MIRQ L 1 False (apic_set_VECT L 1 41
     (gate_init L 41 A_driv_tasint (gate_init L 241 A_leggi_linea i)))"

text \<open>The routine that answers the system call, and the one of the interrupt: it saves the registers,
  calls the handler, signals the end of the interrupt and restores the registers.\<close>

definition a_leggi_linea :: "int \<Rightarrow> u8 list \<Rightarrow> tastiera \<times> cpu \<Rightarrow> (tastiera \<times> cpu) res" where
  "a_leggi_linea nn vv s = c_leggi_linea nn vv (fst s) (snd s)"

definition a_driv_tasint :: "'i libce \<Rightarrow> fill \<Rightarrow> conv \<Rightarrow> (tastiera \<times> cpu) \<times> 'i \<Rightarrow> ((tastiera \<times> cpu) \<times> 'i) res" where
  "a_driv_tasint L fill conv s =
     bind_res (c_driv_tasint fill conv (fst (fst s)) (snd (fst s))) (\<lambda>s'.
       Inr (s', mmio_write L APIC_EOI 0 (snd s)))"

text \<open>The system call: \<open>int $241\<close> and the routine behind that gate.\<close>

definition leggi_linea :: "'i libce \<Rightarrow> int \<Rightarrow> u8 list \<Rightarrow> (tastiera \<times> cpu) \<times> 'i \<Rightarrow> ((tastiera \<times> cpu) \<times> 'i) res option" where
  "leggi_linea L nn vv s =
     (if gate L (snd s) 241 = Some A_leggi_linea
      then Some (bind_res (a_leggi_linea nn vv (fst s)) (\<lambda>s'. Inr (s', snd s)))
      else None)"

text \<open>The routine the keyboard's interrupt would run now; the keyboard is on pin 1.\<close>

definition entry :: "'i libce \<Rightarrow> 'i \<Rightarrow> routine option" where
  "entry L i = (if masked L i 1 \<or> in_service L i then None else gate L i (vect L i 1))"

inductive gate_run ::
  "'i libce \<Rightarrow> fill \<Rightarrow> conv \<Rightarrow> (tastiera \<times> cpu) \<times> 'i \<Rightarrow> u8 list \<Rightarrow> (tastiera \<times> cpu) \<times> 'i \<Rightarrow> bool"
  for L fill conv s where
  gate_start: "gate_run L fill conv s [] s"
| gate_key: "gate_run L fill conv s acc ((t, c), i) \<Longrightarrow>
    gate_run L fill conv s
      (if kb_buffer_element_count (m_keyb (c_machine c)) < INTERNAL_BUFFER_SIZE then acc @ [k] else acc)
      ((t, type_key k c), i)"
| gate_irq: "gate_run L fill conv s acc ((t, c), i) \<Longrightarrow> irq_high c \<Longrightarrow> entry L i = Some A_driv_tasint \<Longrightarrow>
    a_driv_tasint L fill conv ((t, c), accept L i) = Inr s' \<Longrightarrow> gate_run L fill conv s acc s'"

section \<open>The entry points lead to the driver\<close>

lemma entry_ini: "libce_ok L \<Longrightarrow> \<not> in_service L i \<Longrightarrow> entry L (ini L i) = Some A_driv_tasint"
  by (simp add: libce_ok_def entry_def ini_def)

lemma entry_after:
  "libce_ok L \<Longrightarrow> entry L i = Some r \<Longrightarrow> entry L (mmio_write L APIC_EOI v (accept L i)) = Some r"
  by (auto simp: libce_ok_def entry_def split: if_splits)

lemma gate_run_driver:
  assumes "gate_run L fill conv s acc s'" "libce_ok L" "entry L (snd s) = Some A_driv_tasint"
  shows "tas_run fill conv (fst s) acc (fst s') \<and> entry L (snd s') = Some A_driv_tasint"
  using assms(1)
proof (induction rule: gate_run.induct)
  case gate_start
  then show ?case using assms(3) by (simp add: tas_start)
next
  case (gate_key acc t c i k)
  then show ?case using tas_key [of fill conv "fst s" acc t c k] by simp
next
  case (gate_irq acc t c i s')
  then obtain t' c' where d: "c_driv_tasint fill conv t c = Inr (t', c')" "s' = ((t', c'), mmio_write L APIC_EOI 0 (accept L i))"
    by (auto simp: a_driv_tasint_def bind_res_eq_Inr)
  then show ?case
    using gate_irq tas_irq [of fill conv "fst s" acc t c t' c'] entry_after [OF assms(2), of i] by simp
qed

lemma driver_gate_run:
  assumes "tas_run fill conv s acc s'" "libce_ok L" "entry L i = Some A_driv_tasint"
  shows "\<exists>i'. gate_run L fill conv (s, i) acc (s', i')"
  using assms(1)
proof (induction rule: tas_run.induct)
  case tas_start
  show ?case using gate_start by blast
next
  case (tas_key acc t c k)
  then show ?case using gate_key [of L fill conv "(s, i)"] by blast
next
  case (tas_irq acc t c t' c')
  then obtain i' where r: "gate_run L fill conv (s, i) acc ((t, c), i')" by blast
  have e: "entry L i' = Some A_driv_tasint" using gate_run_driver [OF r assms(2)] assms(3) by simp
  have "a_driv_tasint L fill conv ((t, c), accept L i') = Inr ((t', c'), mmio_write L APIC_EOI 0 (accept L i'))"
    using tas_irq by (simp add: a_driv_tasint_def)
  then show ?case using gate_irq [OF r tas_irq.hyps(2) e] by blast
qed

section \<open>Properties\<close>

text \<open>
  (C17) The gates lead to the driver: once \<open>ini\<close> has run, the system call enters \<open>c_leggi_linea\<close> with its
  arguments, and the runs of the machine through the interrupt gate, with the end of interrupt
  signalled each time, are exactly the runs of the handler on the keyboard.
\<close>

theorem gates_refine_driver:
  assumes "libce_ok L" "\<not> in_service L i"
  shows "leggi_linea L nn vv ((t, c), ini L i) =
      Some (bind_res (c_leggi_linea nn vv t c) (\<lambda>s. Inr (s, ini L i))) \<and>
    ((\<exists>i'. gate_run L fill conv (s, ini L i) acc (s', i')) \<longleftrightarrow> tas_run fill conv s acc s')"
proof
  show "leggi_linea L nn vv ((t, c), ini L i) = Some (bind_res (c_leggi_linea nn vv t c) (\<lambda>s. Inr (s, ini L i)))"
    using assms(1) by (simp add: leggi_linea_def a_leggi_linea_def libce_ok_def ini_def)
  show "(\<exists>i'. gate_run L fill conv (s, ini L i) acc (s', i')) \<longleftrightarrow> tas_run fill conv s acc s'"
  proof
    assume "\<exists>i'. gate_run L fill conv (s, ini L i) acc (s', i')"
    then obtain i' where "gate_run L fill conv (s, ini L i) acc (s', i')" ..
    then show "tas_run fill conv s acc s'" using gate_run_driver [OF _ assms(1)] entry_ini [OF assms] by fastforce
  next
    assume "tas_run fill conv s acc s'"
    then show "\<exists>i'. gate_run L fill conv (s, ini L i) acc (s', i')"
      by (rule driver_gate_run [OF _ assms(1) entry_ini [OF assms]])
  qed
qed

text \<open>A table of gates, the vectors and masks of the pins, and whether an interrupt is in service.\<close>

definition example_libce :: "((u8 \<Rightarrow> routine option) \<times> (u8 \<Rightarrow> u8) \<times> (u8 \<Rightarrow> bool) \<times> bool) libce" where
  "example_libce = \<lparr>gate_init = (\<lambda>n r (g, v, m, b). (g(n := Some r), v, m, b)),
     apic_set_VECT = (\<lambda>p x (g, v, m, b). (g, v(p := x), m, b)),
     apic_set_MIRQ = (\<lambda>p x (g, v, m, b). (g, v, m(p := x), b)),
     mmio_write = (\<lambda>a x (g, v, m, b). (g, v, m, b \<and> a \<noteq> APIC_EOI)),
     accept = (\<lambda>(g, v, m, b). (g, v, m, True)),
     gate = (\<lambda>(g, v, m, b). g), vect = (\<lambda>(g, v, m, b). v), masked = (\<lambda>(g, v, m, b). m),
     in_service = (\<lambda>(g, v, m, b). b)\<rparr>"

theorem gates_refine_driver_witness:
  "\<forall>t c. leggi_linea example_libce 80 [0] ((t, c), ini example_libce (Map.empty, \<lambda>_. 0, \<lambda>_. True, False)) =
     Some (bind_res (c_leggi_linea 80 [0] t c) (\<lambda>s. Inr (s, ini example_libce (Map.empty, \<lambda>_. 0, \<lambda>_. True, False))))"
proof -
  have ok: "libce_ok example_libce" by (simp add: libce_ok_def example_libce_def case_prod_beta)
  have idle: "\<not> in_service example_libce (Map.empty, \<lambda>_. 0, \<lambda>_. True, False)" by (simp add: example_libce_def)
  show ?thesis by (intro allI conjunct1 [OF gates_refine_driver [OF ok idle]])
qed

end
