(* ===== verification/Logger.thy ===== *)
theory Logger
  imports Prelude
begin

text \<open>
  The logger \<open>backend/ConsoleLog.h, .cpp\<close>: one object shared by all threads, whose \<open><<\<close> operators
  lock a mutex around the output of a single item on a \<open>std::ostream\<close>. The stream is modelled with
  the formatting state the program uses (number base, fill character and field width), because
  that state stays from one statement, and one thread, to the next.
\<close>

section \<open>Output streams\<close>

datatype base = Base10 | Base16

record ostream =
  os_base :: base
  os_fill :: char
  os_width :: nat
  os_good :: bool
  os_text :: string

text \<open>
  What the program puts on a stream: texts, unsigned and signed integers, pointers, the
  manipulators \<open>std::dec\<close> and \<open>std::hex\<close>, \<open>setfill\<close> and \<open>setw\<close>, and \<open>endl\<close>.
\<close>

datatype log_item =
    Text string | Unsigned nat | Signed int | Pointer u64
  | Base base | Setfill char | Setw nat | Endl

definition digit_char :: "nat \<Rightarrow> char" where
  "digit_char d = ''0123456789abcdef'' ! d"

fun digits :: "nat \<Rightarrow> nat \<Rightarrow> string" where
  "digits b n =
     (if b \<le> 1 \<or> n < b then [digit_char n] else digits b (n div b) @ [digit_char (n mod b)])"

declare digits.simps [simp del]

definition base_value :: "base \<Rightarrow> nat" where
  "base_value b = (case b of Base10 \<Rightarrow> 10 | Base16 \<Rightarrow> 16)"

text \<open>The text of an item. In base 16 a negative \<open>int\<close> shows its 32 bits; a null pointer is 0.\<close>

definition item_text :: "base \<Rightarrow> log_item \<Rightarrow> string" where
  "item_text b x =
     (case x of
        Text t \<Rightarrow> t
      | Unsigned n \<Rightarrow> digits (base_value b) n
      | Signed i \<Rightarrow>
          (if b = Base16 then digits 16 (unat (word_of_int i :: u32))
           else if i < 0 then CHR ''-'' # digits 10 (nat (- i)) else digits 10 (nat i))
      | Pointer p \<Rightarrow> (if p = 0 then ''0'' else ''0x'' @ digits 16 (unat p))
      | _ \<Rightarrow> [])"

text \<open>
  Formatted output is padded on the left to the field width, which then falls back to 0; a
  stream whose file could not be opened drops it. The manipulators only change the state.
\<close>

definition os_put :: "log_item \<Rightarrow> ostream \<Rightarrow> ostream" where
  "os_put x s =
     (case x of
        Base b \<Rightarrow> s\<lparr>os_base := b\<rparr>
      | Setfill c \<Rightarrow> s\<lparr>os_fill := c\<rparr>
      | Setw n \<Rightarrow> s\<lparr>os_width := n\<rparr>
      | Endl \<Rightarrow> if os_good s then s\<lparr>os_text := os_text s @ [CHR 0x0A]\<rparr> else s
      | _ \<Rightarrow>
          if os_good s
          then (let t = item_text (os_base s) x
                in s\<lparr>os_text := os_text s @ replicate (os_width s - length t) (os_fill s) @ t,
                     os_width := 0\<rparr>)
          else s)"

section \<open>The logger\<close>

text \<open>
  \<open>cl_logstream\<close> is the pointer \<open>logstream\<close>, with the path it writes to; \<open>cl_files\<close> are the files the
  logger has written and closed.
\<close>

record console_log =
  cl_logstream :: "ostream option"
  cl_path :: string
  cl_files :: "string \<rightharpoonup> string"

definition ConsoleLog_new :: console_log where
  "ConsoleLog_new = \<lparr>cl_logstream = None, cl_path = [], cl_files = Map.empty\<rparr>"

definition open_stream :: "bool \<Rightarrow> ostream" where
  "open_stream ok = \<lparr>os_base = Base10, os_fill = CHR '' '', os_width = 0, os_good = ok, os_text = []\<rparr>"

text \<open>What the file system holds: the open file is truncated when it is opened.\<close>

definition log_files :: "console_log \<Rightarrow> string \<rightharpoonup> string" where
  "log_files lg =
     (case cl_logstream lg of
        None \<Rightarrow> cl_files lg
      | Some s \<Rightarrow> if os_good s then (cl_files lg)(cl_path lg \<mapsto> os_text s) else cl_files lg)"

definition setFilePath :: "bool \<Rightarrow> string \<Rightarrow> console_log \<Rightarrow> console_log" where
  "setFilePath ok filepath lg =
     \<lparr>cl_logstream = Some (open_stream ok), cl_path = filepath, cl_files = log_files lg\<rparr>"

text \<open>One item, under the mutex, and a statement, which is a sequence of them.\<close>

definition log_put :: "log_item \<Rightarrow> console_log \<Rightarrow> console_log res" where
  "log_put x lg =
     (case cl_logstream lg of
        None \<Rightarrow> Inl NullDeref
      | Some s \<Rightarrow> Inr (lg\<lparr>cl_logstream := Some (os_put x s)\<rparr>))"

primrec log_all :: "log_item list \<Rightarrow> console_log \<Rightarrow> console_log res" where
  "log_all [] lg = Inr lg"
| "log_all (x # xs) lg = bind_res (log_put x lg) (log_all xs)"

section \<open>Lemmas\<close>

lemma log_all_append: "log_all (xs @ ys) lg = bind_res (log_all xs lg) (log_all ys)"
  by (induction xs arbitrary: lg) (auto simp: bind_res_def split: sum.splits)

lemma log_all_stream:
  "cl_logstream lg = Some s \<Longrightarrow>
   log_all xs lg = Inr (lg\<lparr>cl_logstream := Some (fold os_put xs s)\<rparr>)"
  by (induction xs arbitrary: lg s) (simp_all add: log_put_def)

lemma log_all_null:
  "cl_logstream lg = None \<Longrightarrow> log_all xs lg = (if xs = [] then Inr lg else Inl NullDeref)"
  by (cases xs) (simp_all add: log_put_def)

text \<open>
  The state between two statements: an open file, no field width pending. A \<open>width\<close> is only ever
  set just before the number it is meant for.
\<close>

definition os_ready :: "ostream \<Rightarrow> bool" where
  "os_ready s \<longleftrightarrow> os_good s \<and> os_width s = 0"

definition after_text :: "string \<Rightarrow> ostream \<Rightarrow> ostream" where
  "after_text t s = s\<lparr>os_text := os_text s @ t\<rparr>"

lemma after_text_simps [simp]:
  "os_base (after_text t s) = os_base s" "os_fill (after_text t s) = os_fill s"
  "os_width (after_text t s) = os_width s" "os_good (after_text t s) = os_good s"
  "os_text (after_text t s) = os_text s @ t" "os_ready (after_text t s) = os_ready s"
  "after_text u (after_text t s) = after_text (t @ u) s" "after_text [] s = s"
  by (simp_all add: after_text_def os_ready_def)

lemma os_put_ready [simp]:
  assumes "os_ready s"
  shows "os_put (Text t) s = after_text t s"
    "os_put (Unsigned n) s = after_text (digits (base_value (os_base s)) n) s"
    "os_put (Signed i) s = after_text (item_text (os_base s) (Signed i)) s"
    "os_put (Pointer p) s = after_text (item_text (os_base s) (Pointer p)) s"
    "os_put Endl s = after_text [CHR 0x0A] s"
  using assms by (simp_all add: os_put_def os_ready_def after_text_def item_text_def Let_def)

lemma os_put_manip [simp]:
  "os_put (Base b) s = s\<lparr>os_base := b\<rparr>" "os_put (Setfill c) s = s\<lparr>os_fill := c\<rparr>"
  "os_ready (s\<lparr>os_base := b\<rparr>) = os_ready s" "os_ready (s\<lparr>os_fill := c\<rparr>) = os_ready s"
  by (simp_all add: os_put_def os_ready_def)

section \<open>Numbers read back\<close>

definition char_digit :: "char \<Rightarrow> nat" where
  "char_digit c = (let n = of_char c in if n \<ge> 97 then n - 87 else n - 48)"

definition read_number :: "nat \<Rightarrow> string \<Rightarrow> nat" where
  "read_number b = foldl (\<lambda>v c. v * b + char_digit c) 0"

lemma char_digit_char: "d < 16 \<Longrightarrow> char_digit (digit_char d) = d"
  unfolding less_16 by (auto simp: char_digit_def digit_char_def)

lemma read_number_digits:
  assumes "1 < b" "b \<le> 16"
  shows "read_number b (digits b n) = n"
proof (induction n rule: less_induct)
  case (less n)
  show ?case
  proof (cases "n < b")
    case True
    then show ?thesis using assms by (simp add: digits.simps [of b n] read_number_def char_digit_char)
  next
    case False
    then have "n div b < n" using assms by simp
    then have "read_number b (digits b (n div b)) = n div b" by (rule less)
    moreover have "char_digit (digit_char (n mod b)) = n mod b"
      using assms by (intro char_digit_char) (meson mod_less_divisor order_less_le_trans less_trans zero_less_one)
    ultimately show ?thesis
      using False assms by (simp add: digits.simps [of b n] read_number_def)
  qed
qed

lemma length_digits: "n < b ^ Suc k \<Longrightarrow> 1 < b \<Longrightarrow> length (digits b n) \<le> Suc k"
proof (induction k arbitrary: n)
  case 0
  then show ?case by (simp add: digits.simps [of b n])
next
  case (Suc k)
  have "n div b < b ^ Suc k" using Suc.prems by (simp add: less_mult_imp_div_less mult.commute)
  then show ?case using Suc.IH [of "n div b"] Suc.prems by (simp add: digits.simps [of b n])
qed

lemma read_number_zeros: "read_number b (replicate k CHR ''0'' @ t) = read_number b t"
  by (induction k) (simp_all add: read_number_def char_digit_def)

section \<open>Several threads\<close>

text \<open>An item that prints and leaves the formatting state alone, and what it prints.\<close>

definition plain :: "log_item \<Rightarrow> bool" where
  "plain x \<longleftrightarrow> (case x of Base _ \<Rightarrow> False | Setfill _ \<Rightarrow> False | Setw _ \<Rightarrow> False | _ \<Rightarrow> True)"

definition piece :: "base \<Rightarrow> log_item \<Rightarrow> string" where
  "piece b x = (if x = Endl then [CHR 0x0A] else item_text b x)"

lemma os_put_plain: "os_ready s \<Longrightarrow> plain x \<Longrightarrow> os_put x s = after_text (piece (os_base s) x) s"
  by (cases x) (simp_all add: plain_def piece_def item_text_def)

lemma fold_os_put_plain:
  "os_ready s \<Longrightarrow> \<forall>x\<in>set xs. plain x \<Longrightarrow>
   fold os_put xs s = after_text (concat (map (piece (os_base s)) xs)) s"
  by (induction xs arbitrary: s) (simp_all add: os_put_plain)

lemma map_in_shuffles: "zs \<in> shuffles xs ys \<Longrightarrow> map f zs \<in> shuffles (map f xs) (map f ys)"
  by (induction xs ys arbitrary: zs rule: shuffles.induct)
     (auto intro: Cons_in_shuffles_leftI Cons_in_shuffles_rightI)

text \<open>
  Two threads that log at the same time: the mutex is taken for each item, so the order of the
  items is any merge of the two statements. While both only print, the log grows by a merge of
  the pieces each thread prints by itself: nothing is lost, doubled or torn, and every thread's
  pieces stay in order.
\<close>

theorem log_threads:
  assumes "items \<in> shuffles xs ys" "cl_logstream lg = Some s" "os_ready s"
    "\<forall>x\<in>set xs. plain x" "\<forall>y\<in>set ys. plain y"
  shows "\<exists>lg' zs. log_all items lg = Inr lg' \<and>
    zs \<in> shuffles (map (piece (os_base s)) xs) (map (piece (os_base s)) ys) \<and>
    log_files lg' = (log_files lg)(cl_path lg \<mapsto> os_text s @ concat zs)"
proof -
  have "\<forall>x\<in>set items. plain x" using assms(4,5) set_shuffles [OF assms(1)] by auto
  note run = log_all_stream [OF assms(2), of items, unfolded fold_os_put_plain [OF assms(3) this]]
  have "os_good s" using assms(3) by (simp add: os_ready_def)
  then show ?thesis
    using run map_in_shuffles [OF assms(1), of "piece (os_base s)"] assms(2)
    by (auto simp: log_files_def intro!: exI [of _ "map (piece (os_base s)) items"])
qed

theorem log_threads_witness:
  "\<exists>zs. zs \<in> shuffles [''a'', ''11''] [[CHR 0x0A]] \<and>
     log_files (setFilePath True ''l'' ConsoleLog_new) = [''l'' \<mapsto> []] \<and>
     (\<exists>lg'. log_all [Text ''a'', Endl, Unsigned 11] (setFilePath True ''l'' ConsoleLog_new) = Inr lg' \<and>
        log_files lg' = [''l'' \<mapsto> concat zs])"
proof -
  let ?lg = "setFilePath True ''l'' ConsoleLog_new"
  have sh: "[Text ''a'', Endl, Unsigned 11] \<in> shuffles [Text ''a'', Unsigned 11] [Endl]"
    by (simp add: Cons_in_shuffles_iff)
  have lg: "cl_logstream ?lg = Some (open_stream True)" "cl_path ?lg = ''l''" "os_ready (open_stream True)"
    "log_files ?lg = [''l'' \<mapsto> []]" "os_base (open_stream True) = Base10" "os_text (open_stream True) = []"
    by (simp_all add: setFilePath_def open_stream_def os_ready_def log_files_def ConsoleLog_new_def)
  have "piece Base10 (Unsigned 11) = ''11''" by code_simp
  moreover have "piece Base10 (Text ''a'') = ''a''" "piece Base10 Endl = [CHR 0x0A]"
    by (simp_all add: piece_def item_text_def)
  ultimately show ?thesis
    using log_threads [OF sh lg(1,3)] unfolding lg(2,4,5,6) by (auto simp: plain_def)
qed

text \<open>
  A manipulator is an item of its own: between \<open>std::dec\<close> and the number it is meant for, another
  thread can set the base to 16, and the number is then printed in that base.
\<close>

theorem log_base_leaks:
  "\<exists>items. items \<in> shuffles [Base Base10, Unsigned 16] [Base Base16] \<and>
     map_option os_text (case log_all items (setFilePath True p lg) of Inr lg' \<Rightarrow> cl_logstream lg' | _ \<Rightarrow> None) =
       Some ''10''"
proof -
  have "digits 16 16 = ''10''" by code_simp
  then show ?thesis
    by (intro exI [of _ "[Base Base10, Base Base16, Unsigned 16]"])
       (simp add: Cons_in_shuffles_iff setFilePath_def log_put_def open_stream_def os_put_def item_text_def
         base_value_def Let_def)
qed

end
