(* ===== verification/Tracing.thy ===== *)
theory Tracing
  imports Logger Machine Bootloader
begin

text \<open>
  What the monitor logs about the virtual machine: the tracing functions of \<open>kvm.cpp\<close>, the memory
  dump, the injection of interrupts, and the messages of the run loop at each exit, with the
  decisions that depend on them. A function that logs is the list of the items it puts on the
  log. The answers of the system calls are arguments.
\<close>

section \<open>What KVM answers\<close>

text \<open>The members of KVM's structures that the tracing functions print, besides those the boot loader sets.\<close>

record cpu_regs = kvm_regs +
  rg_rax :: u64

record cpu_sregs = kvm_sregs +
  sr_cr2 :: u64
  sr_idt_base :: u64
  sr_idt_limit :: u16

record vcpu_events =
  ev_has_error_code :: u8
  ev_error_code :: u32
  ev_int_injected :: u8
  ev_int_nr :: u8
  ev_int_soft :: u8
  ev_int_shadow :: u8
  ev_nmi_injected :: u8
  ev_nmi_pending :: u8
  ev_nmi_masked :: u8
  ev_nmi_pad :: u8

record redir_entry =
  re_vector :: u8
  re_delivery_mode :: u8
  re_dest_mode :: u8
  re_delivery_status :: u8
  re_polarity :: u8
  re_remote_irr :: u8
  re_trig_mode :: u8
  re_mask :: u8

record ioapic_state =
  ia_base_address :: u64
  ia_ioregsel :: u32
  ia_id :: u32
  ia_irr :: u32
  ia_pad :: u32
  ia_redirtbl :: "redir_entry list"

text \<open>The members of the structure of an interrupt controller, in the order they are printed.\<close>

type_synonym pic_state = "u8 list"

text \<open>The answers to the calls; \<open>None\<close> is a failure, whose message is \<open>an_error\<close>.\<close>

record vcpu_answers =
  an_regs :: "cpu_regs option"
  an_sregs :: "cpu_sregs option"
  an_events :: "vcpu_events option"
  an_error :: string

section \<open>Tracing\<close>

definition tab_text :: "string \<Rightarrow> string" where
  "tab_text t = CHR 0x09 # t"

definition field_line :: "string \<Rightarrow> nat \<Rightarrow> log_item list" where
  "field_line name n = [Text (tab_text name), Unsigned n, Endl]"

definition pointer_line :: "string \<Rightarrow> u64 \<Rightarrow> log_item list" where
  "pointer_line name p = [Text (tab_text name), Pointer p, Endl]"

definition message :: "string \<Rightarrow> log_item list" where
  "message t = [Text t, Endl]"

definition error_line :: "string \<Rightarrow> vcpu_answers \<Rightarrow> log_item list" where
  "error_line t a = [Text t, Text (an_error a), Endl]"

text \<open>The result is printed in base 10, whatever base was left.\<close>

definition fetch_application_result :: "vcpu_answers \<Rightarrow> log_item list" where
  "fetch_application_result a =
     (case an_regs a of
        None \<Rightarrow> error_line ''get regs: '' a
      | Some r \<Rightarrow> [Base Base10, Text ''Program result (keycode): '', Unsigned (unat (rg_rax r)), Endl])"

text \<open>The base of a segment has 64 bits and is cut to 32.\<close>

definition trace_kvm_segment :: "kvm_segment \<Rightarrow> log_item list" where
  "trace_kvm_segment seg =
     field_line ''SREGS base: '' (unat (ucast (seg_base seg) :: u32)) @
     field_line ''SREGS limit: '' (unat (seg_limit seg)) @
     field_line ''SREGS selector: '' (unat (seg_selector seg)) @
     field_line ''SREGS present: '' (unat (seg_present seg)) @
     field_line ''SREGS type: '' (unat (seg_type seg)) @
     field_line ''SREGS dpl: '' (unat (seg_dpl seg)) @
     field_line ''SREGS db: '' (unat (seg_db seg)) @
     field_line ''SREGS s: '' (unat (seg_s seg)) @
     field_line ''SREGS l: '' (unat (seg_l seg)) @
     field_line ''SREGS g: '' (unat (seg_g seg)) @
     field_line ''SREGS type: '' (unat (seg_type seg)) @
     field_line ''SREGS selector: '' (unat (seg_selector seg))"

definition trace_registers :: "cpu_regs \<Rightarrow> cpu_sregs \<Rightarrow> log_item list" where
  "trace_registers r sr =
     message ''Target program dump: '' @
     pointer_line ''RIP: '' (rg_rip r) @ pointer_line ''RSP: '' (rg_rsp r) @
     pointer_line ''CR4: '' (sr_cr4 sr) @ pointer_line ''CR3: '' (sr_cr3 sr) @
     pointer_line ''CR2: '' (sr_cr2 sr) @ pointer_line ''CR0: '' (sr_cr0 sr) @
     pointer_line ''EFER: '' (sr_efer sr) @
     pointer_line ''IDT base: '' (sr_idt_base sr) @ field_line ''IDT limit: '' (unat (sr_idt_limit sr)) @
     pointer_line ''GDT base: '' (sr_gdt_base sr) @ field_line ''GDT limit: '' (unat (sr_gdt_limit sr))"

definition trace_segments :: "cpu_sregs \<Rightarrow> log_item list" where
  "trace_segments sr =
     Text (''Segment CS:'' @ [CHR 0x0A]) # trace_kvm_segment (sr_cs sr) @
     Text (''Segment DS:'' @ [CHR 0x0A]) # trace_kvm_segment (sr_ds sr) @
     Text (''Segment ES:'' @ [CHR 0x0A]) # trace_kvm_segment (sr_es sr) @
     Text (''Segment FS:'' @ [CHR 0x0A]) # trace_kvm_segment (sr_fs sr) @
     Text (''Segment GS:'' @ [CHR 0x0A]) # trace_kvm_segment (sr_gs sr) @
     Text (''Segment SS:'' @ [CHR 0x0A]) # trace_kvm_segment (sr_ss sr)"

definition trace_events :: "vcpu_events \<Rightarrow> log_item list" where
  "trace_events ev =
     message ''Exception:'' @
     field_line ''has_error_code: '' (unat (ev_has_error_code ev)) @
     field_line ''error_code: '' (unat (ev_error_code ev)) @
     message ''Interrupt:'' @
     field_line ''injected: '' (unat (ev_int_injected ev)) @ field_line ''nr: '' (unat (ev_int_nr ev)) @
     field_line ''soft: '' (unat (ev_int_soft ev)) @ field_line ''shadow: '' (unat (ev_int_shadow ev)) @
     message ''NMI:'' @
     field_line ''injected: '' (unat (ev_nmi_injected ev)) @ field_line ''pending: '' (unat (ev_nmi_pending ev)) @
     field_line ''masked: '' (unat (ev_nmi_masked ev)) @ field_line ''pad: '' (unat (ev_nmi_pad ev))"

text \<open>
  The items and whether the function ends in \<open>exit(1)\<close>: a failure of the first call returns to
  the caller, a failure of the later ones ends the process.
\<close>

definition trace_user_program :: "vcpu_answers \<Rightarrow> log_item list \<times> bool" where
  "trace_user_program a =
     (case an_regs a of
        None \<Rightarrow> (error_line ''trace_user_program KVM_GET_REGS error: '' a, False)
      | Some r \<Rightarrow>
          (case an_sregs a of
             None \<Rightarrow> (error_line ''trace_user_program KVM_GET_SREGS error: '' a, True)
           | Some sr \<Rightarrow>
               (case an_events a of
                  None \<Rightarrow> (trace_registers r sr @ trace_segments sr @
                             error_line ''trace_user_program KVM_GET_VCPU_EVENTS error: '' a, True)
                | Some ev \<Rightarrow> (trace_registers r sr @ trace_segments sr @ trace_events ev, False))))"

text \<open>
  \<open>trace_ioapic\<close> asks for the I/O APIC (chip 2) and the two controllers (chips 0 and 1). The line is
  an index into the 24 entries of the redirection table.
\<close>

definition pic_names :: "string list" where
  "pic_names = [''last_irr: '', ''irr: '', ''imr: '', ''isr: '', ''priority_add: '', ''irq_base: '',
     ''read_reg_select: '', ''poll: '', ''special_mask: '', ''init_state: '', ''auto_eoi: '',
     ''rotate_on_auto_eoi: '', ''special_fully_nested_mode: '', ''init4: '', ''elcr: '', ''elcr_mask: '']"

definition trace_pic :: "nat \<Rightarrow> pic_state \<Rightarrow> log_item list" where
  "trace_pic i pic =
     [Text ''PIC'', Signed (int i), Endl] @
     concat (map (\<lambda>(name, v). field_line name (unat v)) (zip pic_names pic))"

primrec trace_pics :: "(nat \<Rightarrow> pic_state option) \<Rightarrow> string \<Rightarrow> nat list \<Rightarrow> log_item list" where
  "trace_pics pic err [] = []"
| "trace_pics pic err (i # is) =
     (case pic i of
        None \<Rightarrow> [Text ''KVM_GET_IRQCHIP error: '', Text err, Endl]
      | Some p \<Rightarrow> trace_pic i p @ trace_pics pic err is)"

definition trace_ioapic ::
  "ioapic_state option \<Rightarrow> (nat \<Rightarrow> pic_state option) \<Rightarrow> string \<Rightarrow> u16 \<Rightarrow> log_item list res" where
  "trace_ioapic ia pic err line_id =
     (case ia of
        None \<Rightarrow> Inr [Text ''KVM_GET_IRQCHIP error: '', Text err, Endl]
      | Some ap \<Rightarrow>
          if length (ia_redirtbl ap) \<le> unat line_id then Inl OutOfBounds
          else
            (let e = ia_redirtbl ap ! unat line_id
             in Inr (message ''APIC state dump: '' @
                  field_line ''base_address: '' (unat (ia_base_address ap)) @
                  field_line ''ioregsel: '' (unat (ia_ioregsel ap)) @ field_line ''id: '' (unat (ia_id ap)) @
                  field_line ''irr: '' (unat (ia_irr ap)) @ field_line ''pad: '' (unat (ia_pad ap)) @
                  field_line ''vector: '' (unat (re_vector e)) @
                  field_line ''delivery_mode: '' (unat (re_delivery_mode e)) @
                  field_line ''dest_mode: '' (unat (re_dest_mode e)) @
                  field_line ''delivery_status: '' (unat (re_delivery_status e)) @
                  field_line ''polarity: '' (unat (re_polarity e)) @
                  field_line ''remote_irr: '' (unat (re_remote_irr e)) @
                  field_line ''trig_mode: '' (unat (re_trig_mode e)) @
                  field_line ''mask: '' (unat (re_mask e)) @
                  trace_pics pic err [0, 1])))"

text \<open>The call \<open>KVM_IRQ_LINE\<close> is made in any case; \<open>ok\<close> tells whether it succeeded.\<close>

definition set_IRQline :: "bool \<Rightarrow> string \<Rightarrow> u16 \<Rightarrow> u16 \<Rightarrow> irq_event list \<times> log_item list" where
  "set_IRQline ok err irq_id level =
     ([(irq_id, level)],
      if ok then message ''interrupt has been injected''
      else [Text ''interrupt has not been injected. Error: '', Text err, Endl])"

definition dump_byte :: "u8 \<Rightarrow> log_item list" where
  "dump_byte v = [Setfill CHR ''0'', Setw 2, Base Base16, Unsigned (unat v)]"

definition dump_memory :: "guest_mem \<Rightarrow> u64 \<Rightarrow> int \<Rightarrow> log_item list res" where
  "dump_memory m offset n =
     (if length m < unat offset + nat n then Inl OutOfBounds
      else Inr ([Endl, Text ''================== Memory Dump (0x'', Base Base16, Unsigned (unat offset),
                 Text '' size '', Base Base10, Signed n, Text '' B) =================='', Endl] @
                concat (map dump_byte (get_bytes (unat offset) (nat n) m)) @
                [Endl, Text ''======================================================================='', Endl]))"

section \<open>The run loop\<close>

text \<open>The members of \<open>kvm_run\<close> that the run loop prints.\<close>

record exit_info =
  xi_phys_addr :: u64
  xi_len :: u32
  xi_data :: "u8 list"
  xi_is_write :: u8
  xi_failure_reason :: u64
  xi_suberror :: u32

text \<open>What is logged at an exit, and whether tracing ends the process.\<close>

definition log_exit :: "bool \<Rightarrow> vm_exit \<Rightarrow> exit_info \<Rightarrow> vcpu_answers \<Rightarrow> log_item list \<times> bool" where
  "log_exit debug_mode e xi a =
     (case e of
        EXIT_HLT \<Rightarrow> (fetch_application_result a, False)
      | EXIT_IO x \<Rightarrow> ([], False)
      | EXIT_MMIO \<Rightarrow>
          ([Text ''kvm: unhandled KVM_EXIT_MMIO'', Text '' address='', Base Base16, Unsigned (unat (xi_phys_addr xi)),
            Text '' len='', Unsigned (unat (xi_len xi)), Text '' data='', Unsigned (le_val (take 4 (xi_data xi))),
            Text '' is_write='', Signed (int (unat (xi_is_write xi))), Endl], False)
      | EXIT_SHUTDOWN \<Rightarrow> (message ''kvm: TRIPLE FAULT. Shutting down'', False)
      | EXIT_DEBUG \<Rightarrow>
          if \<not> debug_mode
          then map_prod (\<lambda>xs. message ''kvm: Unexpected KVM_EXIT_DEBUG: debug mode is not enabled'' @ xs) id
                 (trace_user_program a)
          else (message ''kvm: KVM_EXIT_DEBUG'', False)
      | EXIT_FAIL_ENTRY \<Rightarrow>
          map_prod (\<lambda>xs. [Text ''kvm: KVM_EXIT_FAIL_ENTRY reason='', Base Base10, Unsigned (unat (xi_failure_reason xi)), Endl] @ xs) id
            (trace_user_program a)
      | EXIT_INTERNAL_ERROR \<Rightarrow>
          map_prod (\<lambda>xs. [Text ''kvm: KVM_EXIT_INTERNAL_ERROR suberror='', Base Base10, Unsigned (unat (xi_suberror xi)), Endl] @ xs) id
            (trace_user_program a)
      | EXIT_UNHANDLED r \<Rightarrow>
          map_prod (\<lambda>xs. [Text ''kvm: Unhandled VM_EXIT reason='', Base Base10, Unsigned (unat r), Endl] @ xs) id
            (trace_user_program a))"

text \<open>
  An exit with its log: \<open>exit(1)\<close> inside the tracing has the same status as the \<open>return 1\<close> that
  would follow it, but skips the report to the debugger.
\<close>

definition logged_exit ::
  "bool \<Rightarrow> vm_exit \<Rightarrow> exit_info \<Rightarrow> vcpu_answers \<Rightarrow> machine \<Rightarrow> console_log \<Rightarrow> (loop_result \<times> console_log) res" where
  "logged_exit debug_mode e xi a m lg =
     (let (items, ends) = log_exit debug_mode e xi a
      in bind_res (log_all items lg) (\<lambda>lg'.
           if ends then Inr (Return 1 [], lg')
           else bind_res (handle_exit debug_mode e m) (\<lambda>r. Inr (r, lg'))))"

section \<open>Memory dumps\<close>

definition hex2 :: "u8 \<Rightarrow> string" where
  "hex2 v = (let t = digits 16 (unat v) in replicate (2 - length t) CHR ''0'' @ t)"

lemma length_hex2: "length (hex2 v) = 2"
  using length_digits [of "unat v" 16 1] unat_u8_less [of v] by (simp add: hex2_def Let_def)

lemma read_hex2: "read_number 16 (hex2 v) = unat v"
  by (simp add: hex2_def Let_def read_number_zeros read_number_digits)

lemma dump_byte_put:
  "os_ready s \<Longrightarrow>
   fold os_put (dump_byte v) s = after_text (hex2 v) (s\<lparr>os_fill := CHR ''0'', os_base := Base16\<rparr>)"
  by (simp add: dump_byte_def os_put_def os_ready_def after_text_def item_text_def base_value_def
      hex2_def Let_def)

lemma after_text_formats:
  "(after_text t s)\<lparr>os_fill := c, os_base := b\<rparr> = after_text t (s\<lparr>os_fill := c, os_base := b\<rparr>)"
  by (simp add: after_text_def)

lemma dump_bytes_put:
  "os_ready s \<Longrightarrow>
   \<exists>s'. fold os_put (concat (map dump_byte vs)) s = after_text (concat (map hex2 vs)) s' \<and>
     os_ready s' \<and> os_text s' = os_text s \<and>
     (vs \<noteq> [] \<longrightarrow> os_base s' = Base16 \<and> os_fill s' = CHR ''0'')"
proof (induction vs arbitrary: s)
  case Nil
  then show ?case by auto
next
  case (Cons v vs)
  let ?s = "s\<lparr>os_fill := CHR ''0'', os_base := Base16\<rparr>"
  have r: "os_ready ?s" using Cons.prems by simp
  have vs: "fold os_put (concat (map dump_byte vs)) (after_text t ?s) = after_text (t @ concat (map hex2 vs)) ?s" for t
  proof (induction vs arbitrary: t)
    case (Cons v vs)
    show ?case using dump_byte_put [of "after_text t ?s" v] Cons.IH r by (simp add: after_text_formats)
  qed simp
  show ?case
    using dump_byte_put [OF Cons.prems, of v] vs [of "hex2 v"] r
    by (intro exI [of _ ?s]) simp
qed

lemma drop_pairs:
  assumes "\<And>x. length (f x) = 2" "i < length vs"
  shows "take 2 (drop (2 * i) (concat (map f vs))) = f (vs ! i)"
  using assms(2)
proof (induction vs arbitrary: i)
  case (Cons v vs)
  then show ?case by (cases i) (simp_all add: assms(1))
qed simp

lemma length_pairs: "(\<And>x. length (f x) = 2) \<Longrightarrow> length (concat (map f vs)) = 2 * length vs"
  by (induction vs) simp_all

text \<open>The frame of a dump; the size is printed in base 10, the offset in base 16.\<close>

definition dump_top :: "u64 \<Rightarrow> int \<Rightarrow> string" where
  "dump_top offset n =
     [CHR 0x0A] @ ''================== Memory Dump (0x'' @ digits 16 (unat offset) @ '' size '' @
     item_text Base10 (Signed n) @ '' B) =================='' @ [CHR 0x0A]"

definition dump_bottom :: string where
  "dump_bottom = [CHR 0x0A] @ ''======================================================================='' @ [CHR 0x0A]"

section \<open>Properties\<close>

text \<open>
  A memory dump can be read back: whatever base and fill character earlier output left on the
  stream, \<open>dump_memory\<close> adds its two frame lines and between them two hexadecimal digits for every
  byte of the range, in order. It leaves base 16 and the fill character behind for the next
  message.
\<close>

theorem dump_memory_readable:
  assumes "unat offset + nat n \<le> length m" "cl_logstream lg = Some s" "os_ready s"
  shows "\<exists>items lg' s' body. dump_memory m offset n = Inr items \<and> log_all items lg = Inr lg' \<and>
    cl_logstream lg' = Some s' \<and> os_ready s' \<and> os_text s' = os_text s @ dump_top offset n @ body @ dump_bottom \<and>
    length body = 2 * nat n \<and>
    (\<forall>i<nat n. read_number 16 (take 2 (drop (2 * i) body)) = unat (m ! (unat offset + i))) \<and>
    (0 < n \<longrightarrow> os_base s' = Base16 \<and> os_fill s' = CHR ''0'')"
proof -
  define vs where "vs = get_bytes (unat offset) (nat n) m"
  have vs: "length vs = nat n" "\<And>i. i < nat n \<Longrightarrow> vs ! i = m ! (unat offset + i)"
    using assms(1) by (simp_all add: vs_def get_bytes_def)
  define s1 where "s1 = after_text (dump_top offset n) (s\<lparr>os_base := Base10\<rparr>)"
  let ?head = "[Endl, Text ''================== Memory Dump (0x'', Base Base16, Unsigned (unat offset),
                 Text '' size '', Base Base10, Signed n, Text '' B) =================='', Endl]"
  have base: "(after_text t u)\<lparr>os_base := b\<rparr> = after_text t (u\<lparr>os_base := b\<rparr>)" for t u b
    by (simp add: after_text_def)
  have head: "fold os_put ?head s = s1"
    using assms(3) by (simp add: s1_def base dump_top_def base_value_def)
  have "os_ready s1" using assms(3) by (simp add: s1_def)
  then obtain s2 where s2: "fold os_put (concat (map dump_byte vs)) s1 = after_text (concat (map hex2 vs)) s2"
    "os_ready s2" "os_text s2 = os_text s1" "vs \<noteq> [] \<longrightarrow> os_base s2 = Base16 \<and> os_fill s2 = CHR ''0''"
    using dump_bytes_put by blast
  let ?s' = "after_text (concat (map hex2 vs) @ dump_bottom) s2"
  let ?foot = "[Endl, Text ''======================================================================='', Endl]"
  let ?items = "?head @ concat (map dump_byte vs) @ ?foot"
  have "fold os_put ?items s = ?s'"
    unfolding fold_append comp_apply head s2(1) using s2(2) by (simp add: dump_bottom_def)
  then have "log_all ?items lg = Inr (lg\<lparr>cl_logstream := Some ?s'\<rparr>)"
    using log_all_stream [OF assms(2), of ?items] by simp
  moreover have "dump_memory m offset n = Inr ?items"
    using assms(1) by (simp add: dump_memory_def vs_def)
  moreover have "read_number 16 (take 2 (drop (2 * i) (concat (map hex2 vs)))) = unat (m ! (unat offset + i))"
    if "i < nat n" for i
    using drop_pairs [of hex2 i vs] that vs by (simp add: length_hex2 read_hex2)
  moreover have "0 < n \<longrightarrow> vs \<noteq> []" using vs(1) by auto
  ultimately show ?thesis
    using s2 length_pairs [of hex2 vs] vs(1) by (auto simp: length_hex2 s1_def)
qed

theorem dump_memory_readable_witness:
  "\<exists>items lg' s' body. dump_memory [0x0F, 0xA0, 0x07] 1 2 = Inr items \<and>
     log_all items (setFilePath True ''l'' ConsoleLog_new) = Inr lg' \<and> cl_logstream lg' = Some s' \<and>
     os_text s' = dump_top 1 2 @ body @ dump_bottom \<and> length body = 4 \<and>
     read_number 16 (take 2 body) = 0xA0 \<and> os_base s' = Base16"
proof -
  let ?lg = "setFilePath True ''l'' ConsoleLog_new"
  have lg: "cl_logstream ?lg = Some (open_stream True)" "os_ready (open_stream True)" "os_text (open_stream True) = []"
    by (simp_all add: setFilePath_def open_stream_def os_ready_def)
  have "unat (1 :: u64) + nat 2 \<le> length [0x0F, 0xA0, 0x07 :: u8]" by simp
  from dump_memory_readable [OF this lg(1,2)] obtain items lg' s' body where
    d: "dump_memory [0x0F, 0xA0, 0x07] 1 2 = Inr items" "log_all items ?lg = Inr lg'" "cl_logstream lg' = Some s'"
      "os_text s' = dump_top 1 2 @ body @ dump_bottom" "length body = 4" "os_base s' = Base16"
    and r: "\<forall>i<nat 2. read_number 16 (take 2 (drop (2 * i) body)) = unat ([0x0F, 0xA0, 0x07 :: u8] ! (unat (1 :: u64) + i))"
    by (auto simp: lg(3))
  have "read_number 16 (take 2 body) = 0xA0" using r [rule_format, of 0] by simp
  then show ?thesis using d by blast
qed

text \<open>
  The result of the guest program: when the processor halts, the log gets one line with the value
  of \<open>rax\<close> in base 10, whatever base was in force, and \<open>main\<close> returns 1.
\<close>

lemma program_result_logged:
  assumes "cl_logstream lg = Some s" "os_ready s" "an_regs a = Some r"
  shows "\<exists>sigs lg'. logged_exit dbg EXIT_HLT xi a m lg = Inr (Return 1 sigs, lg') \<and>
    log_files lg' = (log_files lg)(cl_path lg \<mapsto>
      os_text s @ ''Program result (keycode): '' @ digits 10 (unat (rg_rax r)) @ [CHR 0x0A])"
proof -
  let ?t = "digits 10 (unat (rg_rax r))"
  let ?s = "s\<lparr>os_base := Base10\<rparr>"
  have "os_good s" using assms(2) by (simp add: os_ready_def)
  moreover have "fold os_put (fetch_application_result a) s =
      after_text (''Program result (keycode): '' @ ?t @ [CHR 0x0A]) ?s"
    using assms(2,3) by (simp add: fetch_application_result_def base_value_def)
  ultimately show ?thesis
    using log_all_stream [OF assms(1), of "fetch_application_result a"] assms(1)
    by (auto simp: logged_exit_def log_exit_def handle_exit_def log_files_def)
qed

text \<open>
  Every terminal exit returns 1 and reports at most one signal, none if tracing ended the process;
  only input and output and unhandled memory accesses, and debug exits with the debugger, go on. If
  the log was never opened each of these exits crashes on the null stream instead.
\<close>

theorem terminal_exits_logged:
  assumes "\<not> (\<exists>x. e = EXIT_IO x)" "e \<noteq> EXIT_MMIO" "\<not> (e = EXIT_DEBUG \<and> dbg)"
  shows "if cl_logstream lg = None then logged_exit dbg e xi a m lg = Inl NullDeref
    else \<exists>sigs lg'. logged_exit dbg e xi a m lg = Inr (Return 1 sigs, lg') \<and> length sigs \<le> 1 \<and>
      (snd (log_exit dbg e xi a) \<or> \<not> dbg \<longrightarrow> sigs = []) \<and> cl_path lg' = cl_path lg"
proof (cases "cl_logstream lg")
  case None
  have "fst (log_exit dbg e xi a) \<noteq> []"
    using assms
    by (auto simp: log_exit_def fetch_application_result_def error_line_def message_def
        split: vm_exit.splits option.splits)
  then show ?thesis using None log_all_null [OF None]
    by (simp add: logged_exit_def case_prod_beta Let_def)
next
  case (Some s)
  obtain lg' where lg': "log_all (fst (log_exit dbg e xi a)) lg = Inr lg'" "cl_path lg' = cl_path lg"
    using log_all_stream [OF Some] by simp
  have "\<exists>sigs. handle_exit dbg e m = Inr (Return 1 sigs) \<and> length sigs \<le> 1 \<and> (\<not> dbg \<longrightarrow> sigs = [])"
    using assms by (auto simp: handle_exit_def split: vm_exit.splits)
  then show ?thesis using lg' Some
    by (auto simp: logged_exit_def case_prod_beta Let_def)
qed

theorem terminal_exits_logged_witness:
  "\<forall>xi a m. logged_exit False EXIT_SHUTDOWN xi a m ConsoleLog_new = Inl NullDeref"
  using terminal_exits_logged [of EXIT_SHUTDOWN False ConsoleLog_new] by (simp add: ConsoleLog_new_def)

text \<open>The upper half of a segment base is not shown.\<close>

lemma trace_base_truncated:
  "ucast b = (ucast b' :: u32) \<Longrightarrow>
   trace_kvm_segment (seg\<lparr>seg_base := b\<rparr>) = trace_kvm_segment (seg\<lparr>seg_base := b'\<rparr>)"
  by (simp add: trace_kvm_segment_def)

end
