(* ===== verification/TargetPrograms.thy ===== *)
theory TargetPrograms
  imports Tracing
begin

text \<open>
  The test programs of \<open>target\<close> that compute a result: \<open>ricorsivo.c\<close> and \<open>prog_prova.c\<close>, with \<open>exit\<close> of
  \<open>lib.s\<close>. They run in the guest; what the monitor makes of their end is in \<open>Tracing\<close>.
\<close>

section \<open>The programs\<close>

text \<open>
  How a program ends: \<open>exit\<close> puts its argument in \<open>rax\<close> and halts, and an access to an address that
  the page tables do not map is a triple fault, because the programs have no interrupt table.
\<close>

datatype guest_end = Halts u64 | TripleFault

definition lib_exit :: "u32 \<Rightarrow> guest_end" where
  "lib_exit result = Halts (ucast result)"

primrec guest_exit :: "guest_end \<Rightarrow> vm_exit" where
  "guest_exit (Halts v) = EXIT_HLT"
| "guest_exit TripleFault = EXIT_SHUTDOWN"

text \<open>The registers KVM answers with after the program has ended.\<close>

definition guest_answers :: "guest_end \<Rightarrow> vcpu_answers \<Rightarrow> bool" where
  "guest_answers e a \<longleftrightarrow>
     (case e of Halts v \<Rightarrow> map_option rg_rax (an_regs a) = Some v | TripleFault \<Rightarrow> True)"

text \<open>An \<open>int\<close> computation: leaving the range of 32 bits is undefined.\<close>

definition c_int :: "int \<Rightarrow> int res" where
  "c_int i = (if - (2 ^ 31) \<le> i \<and> i < 2 ^ 31 then Inr i else Inl SignedOverflow)"

text \<open>The argument starts in the range of \<open>int\<close> and decreases until it is 1 or leaves the range.\<close>

function ricorsiva :: "int \<Rightarrow> int res" where
  "ricorsiva a =
     (if a = 1 then Inr 0
      else if a \<le> - (2 ^ 31) then Inl SignedOverflow
      else bind_res (ricorsiva (a - 1)) (\<lambda>r. c_int (a + r)))"
  by pat_completeness auto
termination
  by (relation "measure (\<lambda>a. nat (a + 2 ^ 31))") auto

declare ricorsiva.simps [simp del]

definition main_ricorsivo :: "guest_end res" where
  "main_ricorsivo =
     bind_res (ricorsiva 10) (\<lambda>r. bind_res (c_int (9 * r)) (\<lambda>v. Inr (lib_exit (word_of_int v))))"

text \<open>\<open>prog_prova\<close> reads the byte at 100 MiB before it ends; \<open>translate\<close> are the page tables.\<close>

definition main_prog_prova :: "(nat \<Rightarrow> nat option) \<Rightarrow> guest_end" where
  "main_prog_prova translate =
     (let a = 2; b = 10; c = a + b; d = 100 * 1024 * 1024
      in case translate d of None \<Rightarrow> TripleFault | Some p \<Rightarrow> lib_exit c)"

section \<open>Properties\<close>

lemma ricorsiva_sum:
  assumes "a \<le> 65534"
  shows "ricorsiva (int a + 1) = Inr (((int a + 1) * (int a + 2)) div 2 - 1)"
  using assms
proof (induction a)
  case 0
  show ?case by (simp add: ricorsiva.simps [of 1])
next
  case (Suc a)
  let ?n = "int a + 1"
  have ih: "ricorsiva ?n = Inr ((?n * (?n + 1)) div 2 - 1)" using Suc by (simp add: add.commute)
  have sum: "?n + 1 + ((?n * (?n + 1)) div 2 - 1) = ((?n + 1) * (?n + 2)) div 2 - 1"
  proof -
    have "(?n + 1) * (?n + 2) = ?n * (?n + 1) + (?n + 1) * 2" by (simp add: algebra_simps)
    then show ?thesis by simp
  qed
  have "(?n + 1) * (?n + 2) \<le> 65535 * 65536" using Suc.prems by (intro mult_mono) auto
  then have "((?n + 1) * (?n + 2)) div 2 \<le> 65535 * 65536 div 2" by (intro zdiv_mono1) simp_all
  then have "((?n + 1) * (?n + 2)) div 2 - 1 < 2 ^ 31" by simp
  moreover have "0 \<le> ((?n + 1) * (?n + 2)) div 2" by (intro pos_imp_zdiv_nonneg_iff [THEN iffD2]) simp_all
  then have "0 - 1 \<le> ((?n + 1) * (?n + 2)) div 2 - 1" by (rule diff_right_mono)
  then have "- (2 ^ 31) \<le> ((?n + 1) * (?n + 2)) div 2 - 1" by (rule order_trans [rotated]) simp
  ultimately have c: "c_int (?n + 1 + ((?n * (?n + 1)) div 2 - 1)) = Inr (((?n + 1) * (?n + 2)) div 2 - 1)"
    unfolding sum c_int_def by (intro if_P conjI)
  have "ricorsiva (?n + 1) = bind_res (ricorsiva ?n) (\<lambda>r. c_int (?n + 1 + r))"
    by (subst ricorsiva.simps) (simp add: add.commute)
  then have "ricorsiva (?n + 1) = Inr (((?n + 1) * (?n + 2)) div 2 - 1)" unfolding ih bind_res_simps c .
  moreover have "int (Suc a) = ?n" by simp
  ultimately show ?case by metis
qed

lemma ricorsiva_below:
  "a \<le> 0 \<Longrightarrow> ricorsiva a = Inl SignedOverflow"
proof (induction a rule: ricorsiva.induct)
  case (1 a)
  then show ?case by (simp add: ricorsiva.simps [of a])
qed

lemma ricorsiva_above: "ricorsiva (65536 + int k) = Inl SignedOverflow"
proof (induction k)
  case 0
  have "ricorsiva 65535 = Inr (65535 * 65536 div 2 - 1)" using ricorsiva_sum [of 65534] by simp
  then show ?case by (simp add: ricorsiva.simps [of 65536] c_int_def)
next
  case (Suc k)
  have "65536 + int (Suc k) - 1 = 65536 + int k" by simp
  moreover have "65536 + int (Suc k) \<noteq> 1" "\<not> 65536 + int (Suc k) \<le> - (2 ^ 31)" by simp_all
  ultimately show ?case unfolding ricorsiva.simps [of "65536 + int (Suc k)"] by (simp only: Suc if_False bind_res_simps)
qed

text \<open>
  The recursive function: for arguments from 1 to 65535 it ends with the sum of the numbers from 2
  to its argument, and for every other \<open>int\<close> it runs into a signed overflow, downwards from 0 or in
  the sum.
\<close>

theorem ricorsiva_result:
  "ricorsiva a = (if 1 \<le> a \<and> a \<le> 65535 then Inr (\<Sum>i = 2..a. i) else Inl SignedOverflow)"
proof -
  have sum: "(\<Sum>i = 2..int n + 1. i) = ((int n + 1) * (int n + 2)) div 2 - 1" for n
  proof (induction n)
    case (Suc n)
    have "{2..int (Suc n) + 1} = insert (int n + 2) {2..int n + 1}" by auto
    then have "(\<Sum>i = 2..int (Suc n) + 1. i) = int n + 2 + ((int n + 1) * (int n + 2) div 2 - 1)"
      using Suc by simp
    moreover have "(int (Suc n) + 1) * (int (Suc n) + 2) = (int n + 1) * (int n + 2) + (int n + 2) * 2"
      by (simp add: algebra_simps)
    ultimately show ?case by simp
  qed simp
  show ?thesis
  proof (cases "1 \<le> a \<and> a \<le> 65535")
    case True
    then have n: "a = int (nat (a - 1)) + 1" "nat (a - 1) \<le> 65534" by auto
    show ?thesis using True ricorsiva_sum [OF n(2)] sum [of "nat (a - 1)"] by (simp flip: n(1))
  next
    case False
    then have "a \<le> 0 \<or> a = 65536 + int (nat (a - 65536))" by auto
    then have "ricorsiva a = Inl SignedOverflow" using ricorsiva_below ricorsiva_above by metis
    then show ?thesis unfolding if_not_P [OF False] .
  qed
qed

lemma main_ricorsivo_value: "main_ricorsivo = Inr (Halts 486)"
  using ricorsiva_sum [of 9] by (simp add: main_ricorsivo_def c_int_def lib_exit_def)

text \<open>
  (C25) What the log says of the two programs: \<open>ricorsivo\<close> ends with result 486. \<open>prog_prova\<close> ends with
  result 12 if the guest memory reaches beyond 100 MiB, and is reported as a triple fault
  otherwise: the page tables the boot loader builds map exactly the memory. In all cases the
  monitor returns 1.
\<close>

theorem program_results:
  assumes "cl_logstream lg = Some s" "os_ready s" "bl_guest_mem_size bl = sz" "2 ^ 21 dvd unat sz"
    "unat sz < 3 * 2 ^ 30" "0x80000 \<le> length mem" "setup_page_tables bl sregs mem = Inr (sregs', mem')"
  shows "(\<exists>e. main_ricorsivo = Inr e \<and> (\<forall>a. guest_answers e a \<longrightarrow>
      (\<exists>sigs lg'. logged_exit dbg (guest_exit e) xi a m lg = Inr (Return 1 sigs, lg') \<and>
        log_files lg' (cl_path lg) = Some (os_text s @ ''Program result (keycode): 486'' @ [CHR 0x0A])))) \<and>
    (let e = main_prog_prova (page_walk mem' (sr_cr3 sregs')) in \<forall>a. guest_answers e a \<longrightarrow>
      (\<exists>sigs lg'. logged_exit dbg (guest_exit e) xi a m lg = Inr (Return 1 sigs, lg') \<and>
        log_files lg' (cl_path lg) = Some (os_text s @
          (if 100 * 2 ^ 20 < unat sz then ''Program result (keycode): 12''
           else ''kvm: TRIPLE FAULT. Shutting down'') @ [CHR 0x0A])))"
proof -
  obtain m1 where m1: "setup_page_tables bl sregs mem = Inr (sregs\<lparr>sr_cr3 := 0x20000\<rparr>, m1)"
    "tables_for (unat sz div 2 ^ 30) (unat sz mod 2 ^ 30 div 2 ^ 21) mem m1"
    using page_tables_result [OF assms(3,5,6)] by blast
  let ?d = "100 * 1024 * 1024 :: nat"
  have cr3: "mem' = m1" "sr_cr3 sregs' = 0x20000" using m1(1) assms(7) by auto
  have walk: "page_walk m1 0x20000 ?d = (if ?d < unat sz then Some ?d else None)"
    using tables_identity [OF assms(4,5) m1(2)] by auto
  have e: "main_prog_prova (page_walk mem' (sr_cr3 sregs')) = (if 100 * 2 ^ 20 < unat sz then Halts 12 else TripleFault)"
    unfolding main_prog_prova_def cr3 Let_def walk by (simp add: lib_exit_def)
  have dec: "digits 10 486 = ''486''" "digits 10 12 = ''12''" by code_simp+
  have halt: "\<exists>sigs lg'. logged_exit dbg EXIT_HLT xi a m lg = Inr (Return 1 sigs, lg') \<and>
      log_files lg' (cl_path lg) = Some (os_text s @ ''Program result (keycode): '' @ digits 10 (unat v) @ [CHR 0x0A])"
    if "guest_answers (Halts v) a" for v a
    using program_result_logged [OF assms(1,2), of a] that by (fastforce simp: guest_answers_def)
  have triple: "\<exists>sigs lg'. logged_exit dbg EXIT_SHUTDOWN xi a m lg = Inr (Return 1 sigs, lg') \<and>
      log_files lg' (cl_path lg) = Some (os_text s @ ''kvm: TRIPLE FAULT. Shutting down'' @ [CHR 0x0A])" for a
    using log_all_stream [OF assms(1), of "message ''kvm: TRIPLE FAULT. Shutting down''"] assms(1,2)
    by (auto simp: logged_exit_def log_exit_def handle_exit_def log_files_def message_def os_ready_def)
  show ?thesis
    unfolding e main_ricorsivo_value Let_def
    using halt [of 486] halt [of 12] triple dec by (cases "100 * 2 ^ 20 < unat sz") auto
qed

theorem program_results_witness:
  "\<exists>mem' (sregs' :: kvm_sregs). main_prog_prova (page_walk mem' (sr_cr3 sregs')) = TripleFault \<and>
     (\<forall>xi a m. \<exists>sigs lg'. logged_exit False EXIT_SHUTDOWN xi a m (setFilePath True ''l'' ConsoleLog_new) =
          Inr (Return 1 sigs, lg') \<and>
        log_files lg' ''l'' = Some (''kvm: TRIPLE FAULT. Shutting down'' @ [CHR 0x0A]))"
proof -
  let ?lg = "setFilePath True ''l'' ConsoleLog_new" and ?m = "replicate 0x80000 (0 :: u8)"
  have lg: "cl_logstream ?lg = Some (open_stream True)" "os_ready (open_stream True)" "os_text (open_stream True) = []"
    "cl_path ?lg = ''l''" by (simp_all add: setFilePath_def open_stream_def os_ready_def)
  have bl: "bl_guest_mem_size blank_boot = 0x800000" by (simp add: blank_boot_def Bootloader_new_def)
  obtain m1 where m1: "setup_page_tables blank_boot zero_sregs ?m = Inr (zero_sregs\<lparr>sr_cr3 := 0x20000\<rparr>, m1)"
    "tables_for (unat (0x800000 :: u64) div 2 ^ 30) (unat (0x800000 :: u64) mod 2 ^ 30 div 2 ^ 21) ?m m1"
    using page_tables_result [OF bl, of ?m zero_sregs] by auto
  let ?e = "main_prog_prova (page_walk m1 (sr_cr3 (zero_sregs\<lparr>sr_cr3 := 0x20000\<rparr>)))"
  have "page_walk m1 0x20000 (100 * 1024 * 1024) = None" using tables_identity(2) [OF _ _ m1(2)] by simp
  then have e: "?e = TripleFault" by (simp add: main_prog_prova_def Let_def)
  have "2 ^ 21 dvd unat (0x800000 :: u64)" "unat (0x800000 :: u64) < 3 * 2 ^ 30" "0x80000 \<le> length ?m" by simp_all
  note r = program_results [OF lg(1,2) bl this m1(1), THEN conjunct2, unfolded Let_def e lg(3,4)]
  have "\<exists>sigs lg'. logged_exit False EXIT_SHUTDOWN xi a m ?lg = Inr (Return 1 sigs, lg') \<and>
      log_files lg' ''l'' = Some (''kvm: TRIPLE FAULT. Shutting down'' @ [CHR 0x0A])" for xi a m
    using r [of False xi m, rule_format, of a] by (simp add: guest_answers_def)
  then show ?thesis using e by blast
qed

end
