(* ===== verification/Connections.thy ===== *)
theory Connections
  imports Tracing Lifecycle DebugServer Ini
begin

text \<open>
  The connections of the debug server and its client: \<open>debug-server/net_wrapper.cpp\<close>, the object
  \<open>DebugServer\<close> with its accept loop, its start in \<open>main\<close>, and the whole of
  \<open>debug-client/debug_client.cpp\<close>. The answers of the system calls are arguments; the descriptors of
  the process are a state, because the limit on them matters.
\<close>

declare worker_fun.simps [simp del]

section \<open>Descriptors\<close>

record descriptors =
  fd_open :: "nat set"
  fd_limit :: nat

text \<open>A call that creates a descriptor takes the lowest number that is free, if there is one.\<close>

definition fd_alloc :: "descriptors \<Rightarrow> (nat \<times> descriptors) option" where
  "fd_alloc n =
     (case find (\<lambda>k. k \<notin> fd_open n) [0..<fd_limit n] of
        None \<Rightarrow> None | Some k \<Rightarrow> Some (k, n\<lparr>fd_open := insert k (fd_open n)\<rparr>))"

definition fd_close :: "nat \<Rightarrow> descriptors \<Rightarrow> descriptors" where
  "fd_close k n = n\<lparr>fd_open := fd_open n - {k}\<rparr>"

section \<open>The server\<close>

text \<open>The answers of \<open>socket\<close>, \<open>bind\<close> and \<open>listen\<close>.\<close>

record listen_answers =
  la_socket :: bool
  la_bind :: bool
  la_listen :: bool

definition open_serverTCP :: "listen_answers \<Rightarrow> descriptors \<Rightarrow> int \<times> descriptors" where
  "open_serverTCP la n =
     (case (if la_socket la then fd_alloc n else None) of
        None \<Rightarrow> (- 1, n)
      | Some (sock, n) \<Rightarrow>
          if \<not> la_bind la then (- 1, fd_close sock n)
          else if \<not> la_listen la then (- 1, n)
          else (int sock, n))"

definition close_connection :: "nat \<Rightarrow> descriptors \<Rightarrow> descriptors" where
  "close_connection sock n = fd_close sock n"

definition accept_serverTCP :: "descriptors \<Rightarrow> int \<times> descriptors" where
  "accept_serverTCP n = (case fd_alloc n of None \<Rightarrow> (- 1, n) | Some (sd, n) \<Rightarrow> (int sd, n))"

record debug_server =
  ds_mi :: machine_info
  ds_serv_socket :: int

text \<open>The constructor throws if there is no socket.\<close>

definition DebugServer_new ::
  "listen_answers \<Rightarrow> machine_info \<Rightarrow> descriptors \<Rightarrow> debug_server option \<times> descriptors" where
  "DebugServer_new la mi n =
     (let (sock, n) = open_serverTCP la n
      in if sock = - 1 then (None, n) else (Some \<lparr>ds_mi = mi, ds_serv_socket = sock\<rparr>, n))"

text \<open>
  The start in \<open>main\<close>: the pointer \<open>debug_serv\<close> is only set if the constructor returns, and an
  exception is caught and logged.
\<close>

definition main_debug_server ::
  "INIReader \<Rightarrow> listen_answers \<Rightarrow> machine_info \<Rightarrow> descriptors \<Rightarrow>
   debug_server option \<times> log_item list \<times> descriptors" where
  "main_debug_server reader la mi n =
     (if GetBoolean reader ''debug-server'' ''enable'' False
      then (case DebugServer_new la mi n of
              (None, n) \<Rightarrow> (None, message ''Not possible to open gdb server'', n)
            | (Some ds, n) \<Rightarrow> (Some ds, [], n))
      else (None, [], n))"

text \<open>
  The accept loop, on the clients in the order they connect: what each of them sends, and the
  state of the machine while it is served. Every accepted connection gets a worker of its own; a
  failed \<open>accept\<close> leaves the client waiting, and the loop tries again.
\<close>

fun main_fun ::
  "machine_info \<Rightarrow> (vm_snapshot \<times> recv_event list) list \<Rightarrow> descriptors \<Rightarrow> (nat \<times> u8 list res) list \<times> descriptors" where
  "main_fun mi [] n = ([], n)"
| "main_fun mi ((vm, s) # clients) n =
     (let (sd, n) = accept_serverTCP n
      in if sd = - 1 then main_fun mi clients n
         else (let (served, n') = main_fun mi clients n
               in ((nat sd, worker_fun mi vm s \<lparr>mb_buf = None, mb_size = 0\<rparr>) # served, n')))"

section \<open>The connection of the debugger\<close>

text \<open>
  \<open>initialize_server_socket\<close> of \<open>gdbserver/gdbserver.cpp\<close>: a failed \<open>socket\<close> shows up as a failure of
  \<open>bind\<close> on the invalid descriptor. The result is negative on failure.
\<close>

definition initialize_server_socket ::
  "listen_answers \<Rightarrow> string \<Rightarrow> descriptors \<Rightarrow> int \<times> log_item list \<times> descriptors" where
  "initialize_server_socket la err n =
     (let failed = [Text ''initialize_server_socket: '', Text err, Endl]
      in case (if la_socket la then fd_alloc n else None) of
        None \<Rightarrow> (- 1, failed, n)
      | Some (sock, n) \<Rightarrow>
          if \<not> la_bind la then (- 1, failed, n)
          else if \<not> la_listen la then (- 2, failed, n)
          else (int sock, [], n))"

text \<open>
  The part of \<open>gdbserver_start\<close> before the first exchange: the two descriptors, or \<open>exit(1)\<close>
  (\<open>None\<close>). If \<open>accept\<close> fails its descriptor is -1 and the first character that is written ends the
  process.
\<close>

definition gdbserver_connect ::
  "listen_answers \<Rightarrow> bool \<Rightarrow> string \<Rightarrow> descriptors \<Rightarrow> (nat \<times> nat) option \<times> log_item list \<times> descriptors" where
  "gdbserver_connect la accepts err n =
     (case initialize_server_socket la err n of
        (sock, items, n) \<Rightarrow>
          if sock < 0
          then (None, items @ message ''gdbserver_start: creazione server_socket fallita, termino esecuzione.'', n)
          else (case (if accepts then fd_alloc n else None) of
                  None \<Rightarrow> (None, items, n)
                | Some (client, n) \<Rightarrow> (Some (nat sock, client), items, n)))"

definition gdbserver_stop :: "nat \<Rightarrow> nat \<Rightarrow> descriptors \<Rightarrow> descriptors" where
  "gdbserver_stop server_socket connected_client_fd n =
     fd_close server_socket (fd_close connected_client_fd n)"

section \<open>The client\<close>

text \<open>
  The arguments: \<open>inet_pton\<close> reads the address, \<open>sscanf\<close> with \<open>%hu\<close> the port. A number that is too
  large for 64 bits becomes the largest one, and the port is its lower 16 bits; without digits it
  stays 0.
\<close>

definition scan_hu :: "string \<Rightarrow> u16" where
  "scan_hu t =
     (let t = dropWhile isspace t;
          neg = (t \<noteq> [] \<and> hd t = CHR ''-'');
          t = (if t \<noteq> [] \<and> hd t \<in> {CHR ''+'', CHR ''-''} then tl t else t);
          ds = takeWhile (\<lambda>c. c \<in> set ''0123456789'') t;
          v = read_number 10 ds
      in if ds = [] then 0
         else if 2 ^ 64 \<le> v then - 1
         else if neg then - of_nat v else of_nat v)"

record client_env =
  ce_inet_pton :: "string \<Rightarrow> u32 option"
  ce_socket :: bool
  ce_connect :: "u32 \<Rightarrow> u16 \<Rightarrow> bool"

text \<open>\<open>trace_user_program\<close> of the client, with the layout of KVM's structures as an argument.\<close>

definition client_trace :: "cpu_regs \<Rightarrow> cpu_sregs \<Rightarrow> log_item list" where
  "client_trace r sr =
     message ''Target program dump: '' @
     pointer_line ''RIP: '' (rg_rip r) @ pointer_line ''RSP: '' (rg_rsp r) @
     pointer_line ''CR4: '' (sr_cr4 sr) @ pointer_line ''CR3: '' (sr_cr3 sr) @
     pointer_line ''CR2: '' (sr_cr2 sr) @ pointer_line ''CR0: '' (sr_cr0 sr) @
     pointer_line ''EFER: '' (sr_efer sr) @ trace_kvm_segment (sr_ds sr) @
     pointer_line ''IDT base: '' (sr_idt_base sr) @ field_line ''IDT limit: '' (unat (sr_idt_limit sr)) @
     pointer_line ''GDT base: '' (sr_gdt_base sr) @ field_line ''GDT limit: '' (unat (sr_gdt_limit sr))"

definition cout_text :: "log_item list \<Rightarrow> string" where
  "cout_text xs = os_text (fold os_put xs (open_stream True))"

definition client_text :: "(u8 list \<Rightarrow> cpu_regs) \<Rightarrow> (u8 list \<Rightarrow> cpu_sregs) \<Rightarrow> client_output \<Rightarrow> string" where
  "client_text regs_of sregs_of co =
     cout_text [Text ''req_dump_mem type:'', Unsigned (unat (mt_code REQ_DUMP_MEM)), Endl] @
     ''-----------Memory dump------------'' @ [CHR 0x0A] @ co_dump co @
     ''----------------------------------'' @ [CHR 0x0A] @
     (case co_info co of
        None \<Rightarrow> []
      | Some (sz, r, q) \<Rightarrow>
          ''---------------Info---------------'' @ [CHR 0x0A] @
          ''Mem_size: '' @ digits 10 (unat sz) @ '' '' @ [CHR 0x0A] @
          cout_text (client_trace (regs_of r) (sregs_of q)))"

text \<open>
  \<open>main\<close> of the client: its exit status and what it prints on standard output, on the arguments
  after the program name and on what the server sends.
\<close>

definition client_main ::
  "client_env \<Rightarrow> (u8 list \<Rightarrow> cpu_regs) \<Rightarrow> (u8 list \<Rightarrow> cpu_sregs) \<Rightarrow> nat \<Rightarrow> nat \<Rightarrow> u64 \<Rightarrow>
   string list \<Rightarrow> recv_event list \<Rightarrow> (int \<times> string) res" where
  "client_main env regs_of sregs_of regs_size sregs_size now args s =
     (if length args < 2
      then Inr (- 1, ''use: ./debug-client <host remoto> <porta>'' @ [CHR 0x0A])
      else case ce_inet_pton env (args ! 0) of
        None \<Rightarrow> Inr (- 1, ''Errore: server ip not valid.'' @ [CHR 0x0A])
      | Some addr \<Rightarrow>
          if \<not> ce_socket env then Inr (- 1, [])
          else if \<not> ce_connect env addr (scan_hu (args ! 1)) then Inr (1, [])
          else bind_res (debug_client regs_size sregs_size now s) (\<lambda>co.
            Inr (0, ''Connesso correttamente al server '' @ args ! 0 @ [CHR 0x0A] @
                    client_text regs_of sregs_of co)))"

section \<open>Lemmas\<close>

definition fd_free :: "descriptors \<Rightarrow> nat" where
  "fd_free n = card ({..<fd_limit n} - fd_open n)"

lemma fd_alloc_free:
  "case fd_alloc n of
     None \<Rightarrow> fd_free n = 0
   | Some (k, n') \<Rightarrow> Suc (fd_free n') = fd_free n \<and> k < fd_limit n \<and> k \<notin> fd_open n \<and>
       fd_open n' = insert k (fd_open n) \<and> fd_limit n' = fd_limit n"
proof (cases "find (\<lambda>k. k \<notin> fd_open n) [0..<fd_limit n]")
  case None
  then have "{..<fd_limit n} - fd_open n = {}" by (auto simp: find_None_iff)
  then show ?thesis using None by (simp add: fd_alloc_def fd_free_def)
next
  case (Some k)
  then obtain i where "i < fd_limit n" "k = [0..<fd_limit n] ! i" "k \<notin> fd_open n"
    by (auto simp only: find_Some_iff length_upt diff_zero)
  then have k: "k < fd_limit n" "k \<notin> fd_open n" by simp_all
  let ?n = "n\<lparr>fd_open := insert k (fd_open n)\<rparr>"
  have "k \<in> {..<fd_limit n} - fd_open n" using k by simp
  moreover have "{..<fd_limit n} - fd_open ?n = {..<fd_limit n} - fd_open n - {k}" by auto
  ultimately have "Suc (fd_free ?n) = fd_free n"
    using card.remove [of "{..<fd_limit n} - fd_open n" k] by (simp add: fd_free_def)
  then show ?thesis using k Some by (simp add: fd_alloc_def)
qed

lemma main_fun_serves:
  "map snd (fst (main_fun mi clients n)) =
     map (\<lambda>(vm, s). worker_fun mi vm s \<lparr>mb_buf = None, mb_size = 0\<rparr>) (take (fd_free n) clients) \<and>
   distinct (map fst (fst (main_fun mi clients n))) \<and>
   set (map fst (fst (main_fun mi clients n))) \<inter> fd_open n = {} \<and>
   fd_open (snd (main_fun mi clients n)) = fd_open n \<union> set (map fst (fst (main_fun mi clients n))) \<and>
   fd_free (snd (main_fun mi clients n)) = fd_free n - length clients"
proof (induction clients arbitrary: n)
  case (Cons c clients)
  obtain vm s where c: "c = (vm, s)" by (cases c)
  show ?case
  proof (cases "fd_alloc n")
    case None
    then have "accept_serverTCP n = (- 1, n)" "fd_free n = 0"
      using fd_alloc_free [of n] by (simp_all add: accept_serverTCP_def)
    then show ?thesis using Cons.IH [of n] by (simp add: c)
  next
    case (Some p)
    then obtain k n' where p: "fd_alloc n = Some (k, n')" by (cases p) simp
    then have acc: "accept_serverTCP n = (int k, n')" by (simp add: accept_serverTCP_def)
    have f: "Suc (fd_free n') = fd_free n" "k \<notin> fd_open n" "fd_open n' = insert k (fd_open n)"
      using fd_alloc_free [of n] by (simp_all add: p)
    have ih: "map snd (fst (main_fun mi clients n')) =
        map (\<lambda>(vm, s). worker_fun mi vm s \<lparr>mb_buf = None, mb_size = 0\<rparr>) (take (fd_free n') clients)"
      "distinct (map fst (fst (main_fun mi clients n')))"
      "set (map fst (fst (main_fun mi clients n'))) \<inter> fd_open n' = {}"
      "fd_open (snd (main_fun mi clients n')) = fd_open n' \<union> set (map fst (fst (main_fun mi clients n')))"
      "fd_free (snd (main_fun mi clients n')) = fd_free n' - length clients"
      using Cons.IH [of n'] by simp_all
    have run: "main_fun mi ((vm, s) # clients) n =
        ((k, worker_fun mi vm s \<lparr>mb_buf = None, mb_size = 0\<rparr>) # fst (main_fun mi clients n'), snd (main_fun mi clients n'))"
      by (simp add: acc case_prod_beta Let_def)
    show ?thesis
      unfolding c run using ih f by (auto simp: f(1) [symmetric])
  qed
qed simp

text \<open>\<open>gdbserver_stop\<close> releases exactly what the connection took.\<close>

lemma gdb_stop_releases:
  assumes "gdbserver_connect la accepts err n = (Some (sock, client), items, n')"
  shows "gdbserver_stop sock client n' = n \<and> sock \<noteq> client \<and> items = []"
proof -
  obtain n1 where n1: "fd_alloc n = Some (sock, n1)" "fd_alloc n1 = Some (client, n')" "items = []"
    using assms
    by (auto simp: gdbserver_connect_def initialize_server_socket_def Let_def
        split: option.splits if_splits prod.splits)
  have f: "sock \<notin> fd_open n" "fd_open n1 = insert sock (fd_open n)" "fd_limit n1 = fd_limit n"
    using fd_alloc_free [of n] by (simp_all add: n1(1))
  have g: "client \<notin> fd_open n1" "fd_open n' = insert client (fd_open n1)" "fd_limit n' = fd_limit n1"
    using fd_alloc_free [of n1] by (simp_all add: n1(2))
  have "fd_open (gdbserver_stop sock client n') = fd_open n" "fd_limit (gdbserver_stop sock client n') = fd_limit n"
    using f g by (auto simp: gdbserver_stop_def fd_close_def)
  then show ?thesis using f g n1(3) by (auto intro: descriptors.equality)
qed

section \<open>Properties\<close>


definition one_free :: descriptors where
  "one_free = \<lparr>fd_open = {0, 1, 2}, fd_limit = 5\<rparr>"


text \<open>
  (C24) The client against the server: with too few arguments, an address that cannot be read, or no
  connection, the client ends with an error status without sending anything. Once it is
  connected to a server of a machine with enough memory, it returns 0 and prints the type of its
  request, the 2000 bytes of the guest memory at \<open>0xBF000\<close>, the size of the memory and the registers
  the server got from KVM, whatever the layout of KVM's structures.
\<close>

theorem client_prints_machine:
  assumes "vm_ok mi (vm_mem vm)" "0xBF000 + 2000 \<le> length (vm_mem vm)"
    and "vm_regs vm = Some r" "r \<noteq> []" "length r < 2 ^ 31" "vm_sregs vm = Some q" "q \<noteq> []" "length q < 2 ^ 31"
    and "requests = send_data (wire_dump now 0xBF000 (0xBF000 + 2000)) @ send_data (wire_simple now REQ_INFO)"
  shows "\<exists>answers. worker_fun mi vm (pieces requests []) \<lparr>mb_buf = None, mb_size = 0\<rparr> = Inr answers \<and>
    (let reached = 2 \<le> length args \<and> ce_socket env \<and>
           (\<exists>ip. ce_inet_pton env (args ! 0) = Some ip \<and> ce_connect env ip (scan_hu (args ! 1)))
     in \<exists>st t. client_main env regs_of sregs_of (length r) (length q) now args (pieces answers []) = Inr (st, t) \<and>
       (st = 0 \<longleftrightarrow> reached) \<and>
       (reached \<longrightarrow> t = ''Connesso correttamente al server '' @ args ! 0 @ [CHR 0x0A] @
          ''req_dump_mem type:4'' @ [CHR 0x0A] @
          ''-----------Memory dump------------'' @ [CHR 0x0A] @
          concat (map printf_02x (get_bytes 0xBF000 2000 (vm_mem vm))) @
          ''----------------------------------'' @ [CHR 0x0A] @
          ''---------------Info---------------'' @ [CHR 0x0A] @
          ''Mem_size: '' @ digits 10 (unat (mem_size mi)) @ '' '' @ [CHR 0x0A] @
          cout_text (client_trace (regs_of r) (sregs_of q))))"
proof -
  obtain answers where a: "worker_fun mi vm (pieces requests []) \<lparr>mb_buf = None, mb_size = 0\<rparr> = Inr answers"
    "debug_client (length r) (length q) now (pieces answers []) =
      Inr \<lparr>co_sent = requests, co_dump = concat (map printf_02x (get_bytes 0xBF000 2000 (vm_mem vm))),
           co_info = Some (mem_size mi, r, q)\<rparr>"
    using debug_exchange [OF assms] by blast
  let ?reached = "2 \<le> length args \<and> ce_socket env \<and>
    (\<exists>ip. ce_inet_pton env (args ! 0) = Some ip \<and> ce_connect env ip (scan_hu (args ! 1)))"
  have type: "cout_text [Text ''req_dump_mem type:'', Unsigned (unat (mt_code REQ_DUMP_MEM)), Endl] =
      ''req_dump_mem type:4'' @ [CHR 0x0A]" by code_simp
  show ?thesis
  proof (cases ?reached)
    case True
    then obtain ip where ip: "ce_inet_pton env (args ! 0) = Some ip" "ce_connect env ip (scan_hu (args ! 1))" by blast
    have "\<not> length args < 2" "ce_socket env" using True by simp_all
    then have "client_main env regs_of sregs_of (length r) (length q) now args (pieces answers []) =
        Inr (0, ''Connesso correttamente al server '' @ args ! 0 @ [CHR 0x0A] @
          client_text regs_of sregs_of \<lparr>co_sent = requests,
            co_dump = concat (map printf_02x (get_bytes 0xBF000 2000 (vm_mem vm))), co_info = Some (mem_size mi, r, q)\<rparr>)"
      unfolding client_main_def ip(1) a(2) by (simp add: ip(2) [simplified])
    then show ?thesis
      using a(1) True unfolding client_text_def type Let_def
      by (simp only: client_output.select_convs option.case prod.case append_assoc) blast
  next
    case False
    then have "\<exists>st t. client_main env regs_of sregs_of (length r) (length q) now args (pieces answers []) = Inr (st, t) \<and> st \<noteq> 0"
      by (auto simp: client_main_def split: option.splits)
    then show ?thesis using a(1) False unfolding Let_def by blast
  qed
qed

definition local_env :: client_env where
  "local_env = \<lparr>ce_inet_pton = (\<lambda>t. if t = ''127.0.0.1'' then Some 0x7F000001 else None), ce_socket = True,
     ce_connect = (\<lambda>ip port. port = 9000)\<rparr>"

theorem client_prints_machine_witness:
  "\<exists>requests answers t. worker_fun idle_info idle_vm (pieces requests []) \<lparr>mb_buf = None, mb_size = 0\<rparr> = Inr answers \<and>
     (\<forall>regs_of sregs_of. \<exists>t. client_main local_env regs_of sregs_of 1 1 0 [''127.0.0.1'', ''9000''] (pieces answers []) = Inr (0, t))"
proof -
  let ?args = "[''127.0.0.1'', ''9000'']"
  have vm: "vm_ok idle_info (vm_mem idle_vm)" by (simp add: vm_ok_def idle_info_def idle_vm_def)
  have len: "0xBF000 + 2000 \<le> length (vm_mem idle_vm)" by (simp add: idle_vm_def)
  have regs: "vm_regs idle_vm = Some [7]" "vm_sregs idle_vm = Some [8]" by (simp_all add: idle_vm_def)
  have "scan_hu ''9000'' = 9000" by (simp add: scan_hu_def isspace_def read_number_def char_digit_def)
  then have reached: "2 \<le> length ?args \<and> ce_socket local_env \<and>
      (\<exists>ip. ce_inet_pton local_env (?args ! 0) = Some ip \<and> ce_connect local_env ip (scan_hu (?args ! 1)))"
    by (simp add: local_env_def)
  have "(\<forall>regs_of sregs_of. \<exists>t. client_main local_env regs_of sregs_of 1 1 0 ?args (pieces answers []) = Inr (0, t))"
    if w: "worker_fun idle_info idle_vm (pieces (send_data (wire_dump 0 0xBF000 (0xBF000 + 2000)) @ send_data (wire_simple 0 REQ_INFO)) [])
        \<lparr>mb_buf = None, mb_size = 0\<rparr> = Inr answers" for answers
  proof (intro allI)
    fix regs_of sregs_of
    from client_prints_machine [OF vm len regs(1) _ _ regs(2) _ _ refl, of 0 ?args local_env regs_of sregs_of]
    obtain st t where "client_main local_env regs_of sregs_of 1 1 0 ?args (pieces answers []) = Inr (st, t)" "st = 0"
      using w reached unfolding Let_def by auto
    then show "\<exists>t. client_main local_env regs_of sregs_of 1 1 0 ?args (pieces answers []) = Inr (0, t)" by blast
  qed
  moreover obtain answers where "worker_fun idle_info idle_vm (pieces (send_data (wire_dump 0 0xBF000 (0xBF000 + 2000)) @ send_data (wire_simple 0 REQ_INFO)) [])
        \<lparr>mb_buf = None, mb_size = 0\<rparr> = Inr answers"
    using debug_exchange [OF vm len regs(1) _ _ regs(2) _ _ refl, of 0] by auto
  ultimately show ?thesis by blast
qed

end
