(* ===== verification/ElfLogged.thy ===== *)
theory ElfLogged
  imports Logger ElfLoader
begin

text \<open>
  \<open>estrai_segmento\<close> of \<open>elf/estrattore.cpp\<close> with the message it logs for a segment that does not fit,
  and the test program \<open>elf/main.cpp\<close>, which loads a file without ever opening the log.
\<close>

section \<open>Loading with a log\<close>

text \<open>The message contains a letter with an accent, two bytes in UTF-8.\<close>

definition troppo_grande :: "log_item list" where
  "troppo_grande =
     [Text (''Errore: il segmento '' @ [CHR 0xC3, CHR 0xA8] @
        '' troppo grande per essere caricato o sfora i limiti della memoria fisica''), Endl]"

definition log_run :: "log_item list \<Rightarrow> console_log \<Rightarrow> console_log run" where
  "log_run xs lg = (case log_all xs lg of Inl flt \<Rightarrow> Inl (Fault flt) | Inr lg' \<Rightarrow> Inr lg')"

function carica_log :: "u64 \<Rightarrow> eseguibile \<Rightarrow> guest_mem \<Rightarrow> console_log \<Rightarrow> (guest_mem \<times> console_log) run" where
  "carica_log dest_size e m lg =
     (case prossimo_segmento e of
        Inl err \<Rightarrow> Inl err
      | Inr None \<Rightarrow> Inr (m, lg)
      | Inr (Some (s, e')) \<Rightarrow>
          (let end_addr = ind_virtuale s + dimensione s
           in if end_addr > dest_size
              then (case log_run troppo_grande lg of
                  Inl err \<Rightarrow> Inl err
                | Inr lg' \<Rightarrow> carica_log dest_size e' m lg')
              else (case copia_segmento (exe_file_of e) s (unat (ind_virtuale s)) m of
                  Inl err \<Rightarrow> Inl err
                | Inr (n, m1) \<Rightarrow> carica_log dest_size e' m1 lg)))"
  by pat_completeness auto
termination
  by (relation "measure (\<lambda>(dest_size, e, m, lg). segs_left e)") (auto dest: prossimo_segmento_less)

declare carica_log.simps [simp del]

definition estrai_segmento_log ::
  "exe_file option \<Rightarrow> u64 \<Rightarrow> ListaInterpreti \<Rightarrow> guest_mem \<Rightarrow> console_log \<Rightarrow>
   (u64 \<times> ListaInterpreti \<times> guest_mem \<times> console_log) run" where
  "estrai_segmento_log fopened dest_size li dest lg =
     (case fopened of
        None \<Rightarrow> Inl ExitFailure
      | Some f \<Rightarrow>
          bind_res (riconosci (li_rewind li) f) (\<lambda>(exe, li').
            case exe of
              None \<Rightarrow> Inl ExitFailure
            | Some e \<Rightarrow>
                bind_res (carica_log dest_size e dest lg) (\<lambda>(m, lg').
                  Inr (entry_point e, li', m, lg'))))"

text \<open>\<open>main\<close> of the test program: the number of arguments and the file of that name.\<close>

definition DIM :: nat where
  "DIM = 20000"

definition elf_main :: "nat \<Rightarrow> exe_file option \<Rightarrow> ListaInterpreti \<Rightarrow> int run" where
  "elf_main argc fopened li =
     (if argc < 2 then Inr (- 1)
      else bind_res (estrai_segmento_log fopened (of_nat DIM) li (replicate DIM 0) ConsoleLog_new) (\<lambda>r. Inr 0))"

section \<open>Lemmas\<close>

lemma carica_log_eq:
  "carica_log dest_size e m lg =
     bind_res (prossimo_segmento e) (\<lambda>r. case r of
         None \<Rightarrow> Inr (m, lg)
       | Some (s, e') \<Rightarrow>
           if ind_virtuale s + dimensione s > dest_size
           then bind_res (log_run troppo_grande lg) (carica_log dest_size e' m)
           else bind_res (copia_segmento (exe_file_of e) s (unat (ind_virtuale s)) m)
             (\<lambda>(n, m1). carica_log dest_size e' m1 lg))"
  by (subst carica_log.simps) (auto simp: bind_res_def Let_def split: sum.splits option.splits prod.splits)

definition skipped :: "u64 \<Rightarrow> segmento \<Rightarrow> bool" where
  "skipped lim s \<longleftrightarrow> lim < ind_virtuale s + dimensione s"

definition skip_log :: "u64 \<Rightarrow> eseguibile \<Rightarrow> log_item list" where
  "skip_log lim e = concat (map (\<lambda>s. troppo_grande) (filter (skipped lim) (segmenti e)))"

text \<open>With an open log the loop does what it does without one, and one message per segment left out.\<close>

lemma carica_log_open:
  assumes "exe_ok f e" "cl_logstream lg = Some s"
  shows "carica_log lim e m lg =
    bind_res (carica lim e m) (\<lambda>m'. Inr (m', lg\<lparr>cl_logstream := Some (fold os_put (skip_log lim e) s)\<rparr>))"
  using assms
proof (induction "segmenti e" arbitrary: e m lg s)
  case Nil
  have "prossimo_segmento e = Inr None" using exe.next_none [OF Nil.prems(1)] Nil.hyps by simp
  then show ?case
    using Nil.prems(2) by (simp add: carica_log_eq [of lim e] carica_eq [of lim e] skip_log_def Nil.hyps [symmetric])
next
  case (Cons g gs)
  obtain e' where e': "prossimo_segmento e = Inr (Some (g, e'))" "exe_ok f e'" "segmenti e' = gs"
    using exe.next_some [OF Cons.prems(1) Cons.hyps(2) [symmetric]] by blast
  have log: "skip_log lim e = (if skipped lim g then troppo_grande else []) @ skip_log lim e'"
    using e'(3) by (simp add: skip_log_def Cons.hyps(2) [symmetric])
  have put: "log_run troppo_grande lg = Inr (lg\<lparr>cl_logstream := Some (fold os_put troppo_grande s)\<rparr>)"
    using log_all_stream [OF Cons.prems(2)] by (simp add: log_run_def)
  show ?case
  proof (cases "skipped lim g")
    case True
    then have "carica_log lim e m lg = carica_log lim e' m (lg\<lparr>cl_logstream := Some (fold os_put troppo_grande s)\<rparr>)"
      "carica lim e m = carica lim e' m"
      using put e'(1) by (simp_all add: carica_log_eq [of lim e] carica_eq [of lim e] skipped_def)
    then show ?thesis using Cons.hyps(1) [OF e'(3) [symmetric] e'(2)] True by (simp add: log)
  next
    case False
    then have "carica_log lim e m lg = bind_res (copia_segmento (exe_file_of e) g (unat (ind_virtuale g)) m)
        (\<lambda>(n, m1). carica_log lim e' m1 lg)"
      "carica lim e m = bind_res (copia_segmento (exe_file_of e) g (unat (ind_virtuale g)) m)
        (\<lambda>(n, m1). carica lim e' m1)"
      using e'(1) by (simp_all add: carica_log_eq [of lim e] carica_eq [of lim e] skipped_def)
    then show ?thesis
      using Cons.hyps(1) [OF e'(3) [symmetric] e'(2) Cons.prems(2)] False
      by (cases "copia_segmento (exe_file_of e) g (unat (ind_virtuale g)) m") (simp_all add: log case_prod_beta)
  qed
qed

text \<open>Without a log the first message is a null dereference.\<close>

lemma skipped_fine: "fine g < 2 ^ 64 \<Longrightarrow> skipped lim g \<longleftrightarrow> unat lim < fine g"
  by (simp add: skipped_def fine_def word_less_nat_alt unat_word_ariths)

lemma carica_log_null:
  assumes "exe_ok f e" "cl_logstream lg = None" "unat lim \<le> length m"
    "\<forall>g \<in> set (segmenti e). seg_valido f g \<and> fine g < 2 ^ 64"
  shows "if \<exists>g \<in> set (segmenti e). unat lim < fine g then carica_log lim e m lg = Inl (Fault NullDeref)
    else \<exists>m'. carica_log lim e m lg = Inr (m', lg)"
  using assms
proof (induction "segmenti e" arbitrary: e m)
  case Nil
  have "prossimo_segmento e = Inr None" using exe.next_none [OF Nil.prems(1)] Nil.hyps by simp
  then show ?case by (simp add: carica_log_eq [of lim e] Nil.hyps [symmetric])
next
  case (Cons g gs)
  obtain e' where e': "prossimo_segmento e = Inr (Some (g, e'))" "exe_ok f e'" "segmenti e' = gs"
    using exe.next_some [OF Cons.prems(1) Cons.hyps(2) [symmetric]] by blast
  have g: "seg_valido f g" "fine g < 2 ^ 64" "\<forall>h \<in> set (segmenti e'). seg_valido f h \<and> fine h < 2 ^ 64"
    using Cons.prems(4) e'(3) by (simp_all add: Cons.hyps(2) [symmetric])
  have null: "log_run troppo_grande lg = Inl (Fault NullDeref)"
    using log_all_null [OF Cons.prems(2)] by (simp add: log_run_def troppo_grande_def)
  show ?case
  proof (cases "unat lim < fine g")
    case True
    then have "carica_log lim e m lg = Inl (Fault NullDeref)"
      using null e'(1) skipped_fine [OF g(2), of lim] by (simp add: carica_log_eq [of lim e] skipped_def)
    then show ?thesis using True by (simp add: Cons.hyps(2) [symmetric])
  next
    case False
    then have fits: "unat (ind_virtuale g) + unat (dimensione g) \<le> length m"
      using Cons.prems(3) by (simp add: fine_def)
    obtain n where n: "copia_segmento f g (unat (ind_virtuale g)) m = Inr (n, put_bytes (unat (ind_virtuale g)) (immagine f g) m)"
      using exe.copy_image [OF g(1) fits] by blast
    let ?m = "put_bytes (unat (ind_virtuale g)) (immagine f g) m"
    have len: "unat lim \<le> length ?m"
      using fits Cons.prems(3) exe.image_length [OF g(1)] by (simp add: length_put_bytes)
    have "carica_log lim e m lg = carica_log lim e' ?m lg"
      using e'(1) skipped_fine [OF g(2), of lim] False n exe_ok_file [OF Cons.prems(1)]
      by (simp add: carica_log_eq [of lim e] skipped_def)
    then show ?thesis
      using Cons.hyps(1) [OF e'(3) [symmetric] e'(2) Cons.prems(2) len g(3)] False e'(3)
      by (simp add: Cons.hyps(2) [symmetric])
  qed
qed

section \<open>Properties\<close>

text \<open>
  Logging does not disturb loading: on a usable log, \<open>estrai_segmento\<close> loads exactly what the model
  without a log loads, and adds one message for every segment that does not fit.
\<close>

theorem load_logged:
  assumes "i \<in> set (li_testa li)" "interpreta i f = Inr (Some e)" "ben_formato f e" "unat lim \<le> length m"
    "cl_logstream lg = Some s"
  shows "\<exists>li' m'. estrai_segmento (Some f) lim li m = Inr (entry_point e, li', m') \<and>
    estrai_segmento_log (Some f) lim li m lg =
      Inr (entry_point e, li', m', lg\<lparr>cl_logstream := Some (fold os_put (skip_log lim e) s)\<rparr>)"
proof -
  have ok: "exe_ok f e" using interpreta_ok [OF assms(2)] assms(3) by (simp add: ben_formato_def)
  obtain m' where m': "carica lim e m = Inr m'" using carica_bene [OF ok assms(3,4)] by blast
  obtain l' where "riconosci (li_rewind li) f = Inr (Some e, l')"
    using riconosci_accept [of i "li_rewind li" f] assms(1,2) by (auto simp: li_rewind_def)
  then show ?thesis
    using m' carica_log_open [OF ok assms(5), of lim m]
    by (auto simp: estrai_segmento_def estrai_segmento_log_def)
qed

text \<open>
  The test program on a well-formed file: it returns 0 if every segment ends within its 20000
  bytes, and crashes on the null stream of the log otherwise, as for every program of this
  repository, which are linked at 2 MiB.
\<close>

theorem elf_main_result:
  assumes "i \<in> set (li_testa li)" "interpreta i f = Inr (Some e)" "ben_formato f e"
  shows "elf_main 2 (Some f) li =
    (if \<exists>g \<in> set (segmenti e). 20000 < fine g then Inl (Fault NullDeref) else Inr 0)"
proof -
  have ok: "exe_ok f e" using interpreta_ok [OF assms(2)] assms(3) by (simp add: ben_formato_def)
  obtain l' where l': "riconosci (li_rewind li) f = Inr (Some e, l')"
    using riconosci_accept [of i "li_rewind li" f] assms(1,2) by (auto simp: li_rewind_def)
  have "\<forall>g \<in> set (segmenti e). seg_valido f g \<and> fine g < 2 ^ 64" using assms(3) by (simp add: ben_formato_def)
  moreover have "unat (of_nat DIM :: u64) = 20000" by (simp add: DIM_def)
  moreover have "cl_logstream ConsoleLog_new = None" by (simp add: ConsoleLog_new_def)
  moreover have "length (replicate DIM (0 :: u8)) = 20000" by (simp add: DIM_def)
  ultimately show ?thesis
    using carica_log_null [OF ok, of ConsoleLog_new "of_nat DIM" "replicate DIM 0"] l'
    by (auto simp: elf_main_def estrai_segmento_log_def split: if_splits)
qed

theorem elf_main_result_witness: "elf_main 2 (Some example_elf) registrati = Inr 0"
proof -
  have "int_elf64 \<in> set (li_testa registrati)" by (simp add: registrati_def aggiungi_def)
  from elf_main_result [OF this example_init example_ben_formato] show ?thesis
    by (simp add: example_segments example_seg_fields)
qed

end
