(* ===== verification/Spec2Isabelle.thy ===== *)
theory Spec2Isabelle
  imports MainProgram LongMode ElfPages GdbChannel DebugServer DiskPrograms KeyboardProgram KeyboardGates
    TargetPrograms Connections ElfLogged
begin

text \<open>
  Verification of \<open>kvm-endlessfault\<close>, a virtual machine monitor on top of the Linux KVM interface.
  The monitor allocates the guest memory, loads an ELF program into it, builds the tables the
  processor needs to start, and then runs a loop around \<open>KVM_RUN\<close>: every time the processor leaves
  the guest because of an input or output instruction the loop in \<open>src/kvm.cpp\<close> hands the access
  to the emulated device that owns the port. A console thread feeds the keyboard, another draws the
  text screen, a GDB stub and a debug server can inspect the guest, and a disk image is the guest's
  hard disk. The repository also has the boot code and several programs for the guest, which are
  modelled as they run on the emulated machine.

  \<^bold>\<open>Parts of the program and the theories that model them\<close>

  \<^item> \<open>Prelude\<close>: bytes and words, the faults (\<open>fault\<close>, \<open>'a res\<close>), runs of bytes in a buffer, little-endian
    numbers, interrupt lines (an \<open>irq_event\<close> is a call of \<open>KVM_IRQ_LINE\<close>) and folds over sequences
    of accesses. Every index out of an array and every use of a null pointer is a value of
    \<open>fault\<close>, so memory safety is a theorem and not an assumption.

  The devices and what stands behind them on the host:
  \<^item> \<open>Keyboard\<close>: \<open>src/frontend/keyboard.h, .cpp\<close>. Registers, the ring of 16 codes, commands and
    interrupt line. Every public method takes the mutex for its whole body, hence one function per
    method.
  \<^item> \<open>SerialPort\<close>, \<open>VgaController\<close>: \<open>src/frontend/serial_port.*\<close> and \<open>src/frontend/vgaController.*\<close>.
  \<^item> \<open>ConsoleInput\<close>: \<open>src/backend/ConsoleInput.*\<close>, the translation of characters into scan codes and
    the loop of the thread, on a list of the results of \<open>read\<close>.
  \<^item> \<open>ConsoleOutput\<close>: \<open>src/backend/ConsoleOutput.*\<close>, the text a turn of the video thread writes for the
    cells of the video memory. The blink flag, which another thread toggles, the window size and
    the memory are parameters of a turn. A small model of an ECMA-48 terminal reads the text back.
  \<^item> \<open>DiskManager\<close>: \<open>src/backend/DiskManager.*\<close>, the image file as a list of bytes, its consistency
    check, construction and block transfers.
  \<^item> \<open>HardDisk\<close>: \<open>src/frontend/HardDisk.*\<close>, the ATA task file, the commands and the data register.
  \<^item> \<open>PciDevice\<close>, \<open>PciHost\<close>: \<open>src/frontend/PCIDevice.*, pci_host.*, PCI_APIC.cpp\<close>. The packed
    structure is its bytes; device pointers are indices into the list of device objects.
  \<^item> \<open>Machine\<close>: \<open>src/frontend/PCI_ATA.cpp\<close>, \<open>src/frontend/IODevice.cpp\<close> and the parts of \<open>src/kvm.cpp\<close>
    that own the devices: \<open>initIO\<close>, the memory size, the dispatch of accesses (\<open>handle_io\<close>) and of
    exits (\<open>handle_exit\<close>), and the transition system \<open>kvm_step\<close> in which exits and scan codes
    interleave.

  Loading and starting a program:
  \<^item> \<open>Executable\<close>, \<open>Elf64\<close>, \<open>Elf32\<close>, \<open>ElfLoader\<close>, \<open>ElfPages\<close>: \<open>src/elf\<close>. The file as a list of bytes and
    the C library calls on it; the headers of the two formats, their executables and segments with
    all methods; the list of interpreters, their virtual calls as case distinctions over the two
    classes, and \<open>estrai_segmento\<close>, which recognises a file and copies its segments; the copy of a
    segment page by page. \<open>ElfLogged\<close> adds the message of the loader and \<open>src/elf/main.cpp\<close>.
  \<^item> \<open>GuestMemory\<close>, \<open>Bootloader\<close>, \<open>Boot\<close>: \<open>src/bootloader/Bootloader.*\<close>, the descriptor table and the page
    tables it writes into the guest memory, the registers for protected mode, and \<open>run_long_mode\<close>,
    which also loads the boot file.
  \<^item> \<open>LongMode\<close>: \<open>src/bootloader/boot64.S\<close>, one function per instruction on the processor state it
    changes, with the exceptions of the processor as values and memory behind the page tables.
  \<^item> \<open>Ini\<close>: \<open>src/INIReader.h\<close>, the configuration file as a string, its lines and the lookups.
  \<^item> \<open>Startup\<close>: \<open>main\<close> of \<open>src/kvm.cpp\<close> before the run loop, with the answers of the system and the
    contents of the files in the record \<open>host\<close>.

  Watching the guest, and the process as a whole:
  \<^item> \<open>GdbServer\<close>, \<open>DebugExit\<close>, \<open>GdbChannel\<close>: \<open>src/gdbserver/gdbserver.*\<close> and its callbacks in \<open>src/kvm.cpp\<close>:
    packets, codecs, commands, the session loop, the handling of a breakpoint, and the characters
    of the socket with its end and its failure.
  \<^item> \<open>Messages\<close>, \<open>DebugServer\<close>, \<open>Connections\<close>: \<open>src/debug-server\<close> and \<open>src/debug-client\<close>. The packed messages
    as bytes with their conversions, the framing over a socket (a list of what the calls of \<open>recv\<close>
    will return), the answers, the worker of a connection; opening the servers, the accept loop and
    the descriptors of the process; the client from its arguments to its output.
  \<^item> \<open>Logger\<close>, \<open>Tracing\<close>: \<open>src/backend/ConsoleLog.*\<close>, the shared stream with its formatting state and the
    threads that write to it, and what the tracing functions of \<open>src/kvm.cpp\<close> log about an exit.
  \<^item> \<open>Lifecycle\<close>: the terminal attributes the consoles change and the exit handlers, \<open>endIO\<close> of \<open>src/kvm.cpp\<close>.
  \<^item> \<open>MainProgram\<close>: \<open>main\<close> as one transition system. A state has the machine, the stub with the guest
    memory, and the process with its terminals; the events are exits of the guest, scan codes, a
    failing \<open>KVM_RUN\<close> and ctrl-c.

  Programs in the guest:
  \<^item> \<open>GuestIo\<close>: port instructions (\<open>src/target/lib.s\<close>) as exits of the processor, with the data area of
    \<open>kvm_run\<close> between them.
  \<^item> \<open>DiskDriver\<close>, \<open>DiskPrograms\<close>: \<open>src/target-sources/pci-hdd-1.cpp, pci-hdd-2.cpp\<close>.
  \<^item> \<open>KeyboardDriver\<close>, \<open>KeyboardGates\<close>: \<open>src/target-sources/int-tastiera\<close>, the system call and the
    interrupt handler, and their entry through the gates. The functions of \<open>libce\<close>, which is not
    part of the repository, are parameters.
  \<^item> \<open>KeyboardProgram\<close>, \<open>TargetPrograms\<close>: \<open>src/target/keyboard_program.s\<close>, \<open>prog_prova.c\<close> and \<open>ricorsivo.c\<close>.

  \<^bold>\<open>Interfaces\<close>

  Where one part relies on another, or several operations share a contract, the contract is a
  locale and the model's definitions interpret it:
  \<^item> \<open>port_device\<close> (\<open>Prelude\<close>): registers read and written by port with an invariant; interpreted on the
    keyboard (\<open>kbd\<close>), the serial ports (\<open>com\<close>), the VGA controller (\<open>vgad\<close>) and the disk (\<open>hdd\<close>).
  \<^item> \<open>bounded_fifo\<close> (\<open>Prelude\<close>): a queue of limited length; interpreted on the keyboard (\<open>kbq\<close>).
  \<^item> \<open>block_store\<close> (\<open>DiskManager\<close>): blocks by number; interpreted on the image file (\<open>disk\<close>), the disk
    controller's theorems rest on it.
  \<^item> \<open>config_register\<close> (\<open>PciDevice\<close>): accesses of one width to the configuration space; interpreted
    for bytes, words and double words (\<open>cfg_byte\<close>, \<open>cfg_word\<close>, \<open>cfg_long\<close>).
  \<^item> \<open>slot_memory\<close> (\<open>GuestMemory\<close>): numbered 64-bit entries; interpreted on the guest memory (\<open>gm\<close>) and
    used for the page tables and for the register file of the GDB stub.
  \<^item> \<open>segment_source\<close> and its extension \<open>extraction\<close> (\<open>Executable\<close>): an executable that hands out
    segments and copies them, and a loader that uses it; interpreted on the two formats (\<open>e32\<close>,
    \<open>e64\<close>) and on the virtual calls over both (\<open>exe\<close>).
  \<^item> \<open>driven_device\<close> (\<open>GuestIo\<close>): a device as a driver in the guest sees it, through port instructions;
    interpreted on the keyboard (\<open>kbp\<close>), the second serial port (\<open>com2p\<close>) and the disk at the ports
    its base addresses name (\<open>idep\<close>). The drivers' theorems rest on it.

  \<^bold>\<open>What is shown\<close>

  Each component has an invariant that all its operations keep, and theorems on what every branch
  of its operations does. The keyboard is shown to implement an abstract queue for every
  interleaving of the guest and the console thread; typed text reaches the guest unchanged; a
  terminal that reads the output of the video thread draws the cells of the screen; the
  disk commands move exactly the right sectors; a write to the disk image is seen by exactly the
  reads of that block; the configuration mechanism of the bus reaches exactly the addressed
  register; the loader puts the segments of a well-formed file of either format in place, whatever
  the order of registration, and page by page copying gives the same bytes; the page tables map the
  guest memory to itself, by walking them as the processor does; a GDB session reads back what it
  wrote and a breakpoint leaves the guest as it was; a configuration file is read as it was written;
  the debug client shows the guest memory and the registers; log lines of several threads interleave
  by items, and a memory dump in the log reads back as the bytes.

  The composed theorems follow behaviour through several components. \<open>main_starts_guest\<close> goes from the
  command line to a guest that is ready, \<open>boot_code_enters_long_mode\<close> from there to the first
  instruction of the program in 64-bit mode, and \<open>main_program_runs\<close> holds for every run of the
  process and every way it can end. \<open>typed_line_reaches_program\<close> takes a line from the host terminal to
  the screen of the guest program, \<open>keyboard_program_echoes\<close> a key to the serial port, \<open>disk_programs\<close> the
  two disk programs through bus, bridge, controller and image file. The theorems in this theory are
  about the machine with all its devices: the invariant over all runs, the only two states in which
  an access crashes the monitor, the isolation of the devices from each other and the relocation of
  the disk by its base address.

  Some theorems state behaviour that differs from what the comments of the code announce, and they
  are stated as the code behaves: the first sector of a disk read comes from the address of the
  previous command and the sector counter is never reset (\<open>hd_read_command\<close>, \<open>hd_counter_not_reset\<close>,
  and what that means for programs in \<open>disk_programs\<close>); reads of the data register after writes can
  crash the monitor (\<open>hd_memory_safety\<close>); the serial port stores its own address
  (\<open>serial_write_stores_address\<close>); block addresses wrap (\<open>disk_address_wraps\<close>); the console loop
  replays a key at end of file (\<open>console_eof_replays_key\<close>), and the GDB stub reads for ever when the
  debugger is gone (\<open>gdb_connection_end\<close>); a bridge with a single device dereferences null
  (\<open>pci_host_single_device\<close>); the upper byte of a segment base is lost (\<open>descriptor_base_truncated\<close>);
  the stub trusts lengths and old buffer contents (\<open>gdb_command_memory_safety\<close>,
  \<open>gdb_stale_sequence\<close>); the fourth magic byte of a file is not tested (\<open>elf_recognition\<close>) and the bound
  check of the loader wraps (\<open>elf_memory_safety\<close>); bright text on the console is never undone
  (\<open>console_bold_leaks\<close>); the base of the shared log leaks from one thread to another
  (\<open>log_base_leaks\<close>) and 64-bit bases are cut in traces (\<open>trace_base_truncated\<close>); time stamps lose
  their upper half (\<open>message_roundtrip\<close>); the debug server crashes when a client leaves at once, does
  not answer requests it refuses, serves some ranges outside the guest memory
  (\<open>debug_server_faults\<close>) and never closes a connection (\<open>debug_server_descriptors\<close>); ctrl-c deletes
  it twice and the exit status is always 0 (\<open>terminal_restored\<close>); the first disk program can wait
  for a port that belongs to no device (\<open>hdd_1_waits_forever\<close>).

  \<^bold>\<open>Bounds, loops and totality\<close>

  All definitions are total, and those that translate code are executable. Loops over input (the
  console, packets, the GDB session, the connections of the debug server, the configuration file)
  recurse on the list of input still to come; a stub that would block for input is the value \<open>None\<close>.
  The loops of the loader recurse on the number of program headers and of pages, the loop of
  \<open>build_disk\<close> on the number of blocks. The loops of the guest programs that wait for a device
  (\<open>poll\<close>) are a \<open>partial_function\<close> into the options, so that waiting for ever is \<open>None\<close>, and the
  theorems about these programs show that they do end, or that they do not. No definition uses
  fuel. The endless loops of the threads are modelled for any number of turns. Integers keep their
  width as words; file offsets and array indices that the code computes without overflow are
  naturals, and where the code computes in 32 or 64 bits the wrap is kept.

  \<^bold>\<open>Not modelled\<close>

  The statements under \<open>DEBUG_LOG\<close>, which the build leaves out; functions nothing calls
  (\<open>kvm_debug_completed\<close>, \<open>set_mem_err\<close>, \<open>flush_i_cache\<close>, \<open>stampa_indirizzo\<close>, \<open>INIReader::GetReal\<close>); the
  constants of \<open>src/elf/costanti.h\<close> and \<open>src/elf/elf.h\<close> that no code uses (those in use appear as
  numbers or abbreviations where they are used); the compiled programs in \<open>src/esempi-io\<close>. Calls to
  KVM are answered by parameters; in the callbacks of the GDB stub they are taken to succeed. The
  scheduling of threads is modelled as interleaving of the operations that the mutexes make atomic;
  the video thread and the debug server read the guest memory without a lock, and their theorems
  are about the contents they read. Fetching instructions and the accessed bits of the page tables are
  left out of the model of the processor.
\<close>

section \<open>The whole machine\<close>

text \<open>
  (C1) Invariant of the machine: whatever exits the processor reports, in whatever order and
  however scan codes of the console thread are interleaved with them, a machine that was built
  by \<open>initIO\<close> around a constructed disk and is still running satisfies the invariant of every
  device: the keyboard's ring buffer and interrupt state, the four serial ports, the bridge's
  table of devices and their configuration spaces, the disk's sector buffer and status. If
  \<open>main\<close> returns, it returns 1.
\<close>

theorem machine_invariant:
  assumes "HardDisk_new blk nsec f = Inr d" "initIO junk d = Inr m0"
    "kvm_reaches dbg (Running m0) evs s"
  shows "(\<forall>m. s = Running m \<longrightarrow> machine_inv m) \<and> (\<forall>c. s = Stopped c \<longrightarrow> c = 1)"
proof -
  have "machine_inv m0" using initIO_fields(1) assms(1,2) HardDisk_new_inv by blast
  then have "machine_inv m" if "s = Running m" for m
    using kvm_reaches_inv [OF assms(3)] that by blast
  moreover have "c = 1" if "s = Stopped c" for c
    using assms(3) that by (cases rule: kvm_reaches.cases) (auto dest: kvm_step_stopped)
  ultimately show ?thesis by blast
qed

theorem machine_invariant_witness:
  "\<exists>m0 m. initIO (0, 0, 0, 0) small_disk = Inr m0 \<and>
     kvm_reaches False (Running m0) [ScanCode 0x1e, VmExit EXIT_HLT] (Stopped 1) \<and>
     kvm_reaches False (Running m0) [ScanCode 0x1e] (Running m) \<and> machine_inv m"
proof -
  obtain m0 where m0: "initIO (0, 0, 0, 0) small_disk = Inr m0"
    using initIO_defined [OF small_disk_fields(1)] by blast
  let ?m = "m0\<lparr>m_keyb := fst (keyboard_insert_keycode_event 0x1e (m_keyb m0))\<rparr>"
  have r1: "kvm_reaches False (Running m0) [ScanCode 0x1e] (Running ?m)"
    using reach_step [OF reach_refl step_key] by simp
  have "kvm_step False (Running ?m) (VmExit EXIT_HLT) (Stopped 1)"
    by (rule step_return) (simp add: handle_exit_def)
  then have "kvm_reaches False (Running m0) [ScanCode 0x1e, VmExit EXIT_HLT] (Stopped 1)"
    using reach_step [OF r1] by simp
  then show ?thesis using m0 r1 machine_invariant [OF small_disk_new m0 r1] by blast
qed



text \<open>
  (C3) The devices do not interfere: after any run from \<open>initIO\<close>, the keyboard is the abstract
  queue of the keyboard specification run on exactly the accesses to ports 0x60 and 0x64 and the
  inserted scan codes, and the log of each serial port holds exactly the bytes written to its
  transmit register, in order. Accesses to any other device, including any way the guest
  programs the base address registers, leave them alone.
\<close>

theorem machine_devices_isolated:
  assumes "HardDisk_new blk nsec f = Inr d" "initIO junk d = Inr m0"
    "bus_wf (m_pci m0, m_devices m0)" "kvm_reaches dbg (Running m0) evs (Running m)"
  shows "kb_abs (m_keyb m) = fst (kb_spec_run (concat (map kb_proj evs)) kb_spec_init) \<and>
    sp_log (m_com1 m) = sent_to 0x3f8 (concat (map (com_proj 0x3f8) evs)) \<and>
    sp_log (m_com2 m) = sent_to 0x2f8 (concat (map (com_proj 0x2f8) evs)) \<and>
    sp_log (m_com3 m) = sent_to 0x3e8 (concat (map (com_proj 0x3e8) evs)) \<and>
    sp_log (m_com4 m) = sent_to 0x2e8 (concat (map (com_proj 0x2e8) evs))"
proof -
  have d: "hd_inv d" using HardDisk_new_inv [OF assms(1)] by simp
  note m0 = initIO_fields [OF assms(2) d]
  have ok: "machine_ok m0" using m0(1) assms(3) by (simp add: machine_ok_def)
  note proj = kvm_reaches_proj [OF assms(4) refl ok refl]
  have log: "sp_log (com_of base m) = sent_to base (concat (map (com_proj base) evs))"
    if "base \<in> com_bases" "com_of base m0 = serial_port_new base" for base
    using proj that by (simp add: sp_accesses_log serial_port_new_def)
  have "kb_abs (m_keyb m) = fst (kb_spec_run (concat (map kb_proj evs)) kb_spec_init)"
    using proj m0(2) kb_run_refines [OF keyboard_new_inv, of "concat (map kb_proj evs)"]
    by (simp add: kb_abs_new case_prod_beta Let_def)
  then show ?thesis
    using log [of "0x3f8"] log [of "0x2f8"] log [of "0x3e8"] log [of "0x2e8"] m0
    by (simp add: com_bases_def com_of_def)
qed

theorem machine_devices_isolated_witness:
  "\<exists>m0 m. initIO (0, 0, 0, 0) small_disk = Inr m0 \<and>
     kvm_reaches False (Running m0) [VmExit (EXIT_IO (out_exit 1 0x3f8 0x41))] (Running m) \<and>
     sp_log (m_com1 m) = [0x41] \<and> sp_log (m_com2 m) = []"
proof -
  let ?x = "out_exit 1 0x3f8 0x41"
  obtain m0 where m0: "initIO (0, 0, 0, 0) small_disk = Inr m0" "bus_wf (m_pci m0, m_devices m0)"
    using example_machine by auto
  have x: "com_port 0x3f8 ?x" "\<not> com_port 0x2f8 ?x" "io_param ?x = 0x41"
    using out_exit_params(1) [of 1 "0x3f8" "0x41"] by (simp_all add: com_port_def out_exit_def)
  then have "route ?x m0 = Com 0x3f8" by (intro com_port_route) (simp_all add: com_bases_def)
  then obtain m dat es where "handle_io ?x m0 = Inr (m, dat, es)"
    by (cases "com_effect 0x3f8 ?x m0") (simp add: handle_io_route)
  then have "kvm_step False (Running m0) (VmExit (EXIT_IO ?x)) (Running m)"
    by (intro step_continue) (simp add: handle_exit_def)
  then have reach: "kvm_reaches False (Running m0) [VmExit (EXIT_IO ?x)] (Running m)"
    using reach_step [OF reach_refl] by simp
  have "com_proj 0x3f8 (VmExit (EXIT_IO ?x)) = [PortOut 0x3f8 0x41]"
    "com_proj 0x2f8 (VmExit (EXIT_IO ?x)) = []"
    using x by (simp_all add: out_exit_def)
  then show ?thesis
    using machine_devices_isolated [OF small_disk_new m0 reach] m0(1) reach
    by (simp del: com_proj.simps) blast
qed

text \<open>
  (C29) Moving the disk: when the guest programs the first base address register of the ATA bridge
  with \<open>b\<close> through the two configuration ports, each of the eight ports from \<open>b\<close> on that no fixed
  device claims becomes the corresponding register of the disk's task file: a byte written to
  port \<open>b + i\<close> is a byte written to register \<open>0x1F0 + i\<close>.
\<close>

theorem bar_relocation:
  assumes "machine_ok m" "ph_devices (m_pci m) ! 0 = Some 0" "unat (b :: u32) + 7 < 65536" "i \<le> 7"
    "port = of_nat (unat b + i)" "free_port port"
  shows "\<exists>m1 m2. handle_io (out_exit 4 0xCF8 (unat (0x80000010 :: u32))) m =
       Inr (m1, le_bytes 4 0x80000010, []) \<and>
    handle_io (out_exit 4 0xCFC (unat b)) m1 = Inr (m2, le_bytes 4 (unat b), []) \<and>
    m_hdd m2 = m_hdd m \<and>
    handle_io (out_exit 1 port (unat v)) m2 =
      (let (d, es) = HardDisk_write_reg_byte (0x01F0 + of_nat i) v (m_hdd m)
       in Inr (m2\<lparr>m_hdd := d\<rparr>, le_bytes 4 (unat v), es))"
proof -
  obtain m1 m2 p where io: "handle_io (out_exit 4 0xCF8 (unat (0x80000010 :: u32))) m =
       Inr (m1, le_bytes 4 0x80000010, [])"
      "handle_io (out_exit 4 0xCFC (unat b)) m1 = Inr (m2, le_bytes 4 (unat b), [])"
    and m2: "m_devices m2 = (m_devices m)[0 := p]" "getBar 0 p = b" "m_hdd m2 = m_hdd m"
    using program_bar0 [OF assms(1,2), of b] by blast
  have "m_devices m \<noteq> []" using assms(1) by (simp add: machine_ok_def machine_inv_def)
  then have dev: "m_devices m2 ! 0 = p" using m2(1) by simp
  have "route (out_exit 1 port (unat v)) m2 = DiskByte"
    using assms(3-6) by (intro route_bar0 [of _ i]) (simp_all add: dev m2(2) out_exit_def)
  moreover have "ata_translate p port = 0x01F0 + of_nat i"
    using ata_translate_bar0 [of p i] assms(3-5) m2(2) by simp
  ultimately have "handle_io (out_exit 1 port (unat v)) m2 =
      (let (d, es) = HardDisk_write_reg_byte (0x01F0 + of_nat i) v (m_hdd m)
       in Inr (m2\<lparr>m_hdd := d\<rparr>, le_bytes 4 (unat v), es))"
    using dev m2(3) out_exit_params(1) [of 1 port v]
    by (simp add: handle_io_route hdd_byte_io_def PCI_ATA_write_reg_byte_def case_prod_beta Let_def)
       (simp add: out_exit_def)
  then show ?thesis using io m2(3) by blast
qed

theorem bar_relocation_witness:
  "\<exists>m m1 m2. initIO (0, 0, 0, 0) small_disk = Inr m \<and>
     handle_io (out_exit 4 0xCF8 (unat (0x80000010 :: u32))) m = Inr (m1, le_bytes 4 0x80000010, []) \<and>
     handle_io (out_exit 4 0xCFC (unat (0xC000 :: u32))) m1 = Inr (m2, le_bytes 4 0xC000, []) \<and>
     handle_io (out_exit 1 0xC002 7) m2 = Inr (m2\<lparr>m_hdd := small_disk\<lparr>hd_SCR := 7\<rparr>\<rparr>, le_bytes 4 7, [])"
proof -
  obtain m where m: "initIO (0, 0, 0, 0) small_disk = Inr m" "machine_ok m" "m_hdd m = small_disk"
    "ph_devices (m_pci m) ! 0 = Some 0"
    using example_machine by auto
  have free: "free_port 0xC002" by (simp add: free_port_def pci_port_def com_bases_def)
  have scr: "HardDisk_write_reg_byte (0x01F0 + of_nat 2) 7 small_disk = (small_disk\<lparr>hd_SCR := 7\<rparr>, [])"
    by (simp add: HardDisk_write_reg_byte_def)
  show ?thesis
    using bar_relocation [OF m(2,4), of "0xC000" 2 "0xC002" 7] free scr m(1,3) by auto
qed

text \<open>
  The guest memory size of \<open>main\<close>: for every configured number of megabytes it is a multiple
  of 2 MiB (the page size the boot loader maps with) between 8 MiB and 1 GiB, at least what was
  asked for and at most 1 MiB more when the request is in range, and 8 MiB otherwise.
\<close>

theorem guest_memory_size_bounds:
  "unat (guest_memory_size cfg) mod (2 * 2 ^ 20) = 0 \<and>
   8 * 2 ^ 20 \<le> unat (guest_memory_size cfg) \<and> unat (guest_memory_size cfg) \<le> 2 ^ 30 \<and>
   (if 8 \<le> unat cfg \<and> unat cfg < 1024
    then unat cfg * 2 ^ 20 \<le> unat (guest_memory_size cfg) \<and>
         unat (guest_memory_size cfg) \<le> (unat cfg + 1) * 2 ^ 20
    else guest_memory_size cfg = 8 * 2 ^ 20)"
proof (intro conjI)
  show "unat (guest_memory_size cfg) mod (2 * 2 ^ 20) = 0"
    using guest_memory_size_range(1) [of cfg] by (simp add: dvd_eq_mod_eq_0)
  show "if 8 \<le> unat cfg \<and> unat cfg < 1024
    then unat cfg * 2 ^ 20 \<le> unat (guest_memory_size cfg) \<and>
         unat (guest_memory_size cfg) \<le> (unat cfg + 1) * 2 ^ 20
    else guest_memory_size cfg = 8 * 2 ^ 20"
    unfolding guest_memory_size_eq word_unat_eq_iff by simp
qed (rule guest_memory_size_range)+

end
